(* ===== verification/Prelude.thy ===== *)
theory Prelude
  imports Main "HOL-Library.Word" "HOL-Library.Signed_Division"
begin

text \<open>
  Shared vocabulary of the development: Go's fixed-width integers, durations and instants,
  and the list and option lemmas that several components use.

  Go's \<^verbatim>\<open>int\<close>, \<^verbatim>\<open>int64\<close> and \<^verbatim>\<open>time.Duration\<close> are 64-bit two's complement numbers.
  They are modelled as \<^typ>\<open>int\<close>, with \<open>wrap64\<close> written at every arithmetic operation of
  the source whose result can leave the range; \<open>wrap64_sint\<close> ties it to the 64-bit word.
  Go's integer division truncates, which is \<open>sdiv\<close> of \<open>HOL-Library.Signed_Division\<close>.
\<close>

named_theorems go_int \<open>facts on wrapped 64-bit arithmetic\<close>
named_theorems go_text \<open>facts on the string functions of the Go library\<close>

type_synonym bytes = string
type_synonym duration = int

definition wrap64 :: "int \<Rightarrow> int" where
  "wrap64 x = (x + 2 ^ 63) mod 2 ^ 64 - 2 ^ 63"

definition in_int64 :: "int \<Rightarrow> bool" where
  "in_int64 x \<longleftrightarrow> - (2 ^ 63) \<le> x \<and> x < 2 ^ 63"

definition wrap_u32 :: "int \<Rightarrow> int" where
  "wrap_u32 x = x mod 2 ^ 32"

text \<open>Duration units, in nanoseconds, and the conversions of package \<^verbatim>\<open>time\<close>.\<close>

definition time_Millisecond :: duration where
  "time_Millisecond = 1000000"

definition time_Second :: duration where
  "time_Second = 1000000000"

definition Milliseconds :: "duration \<Rightarrow> int" where
  "Milliseconds d = d sdiv time_Millisecond"

text \<open>
  An instant is a number of nanoseconds since the Unix epoch. \<^verbatim>\<open>Time.UnixMilli\<close> adds whole
  seconds and a non-negative nanosecond part, so it rounds towards minus infinity.
\<close>

definition UnixMilli :: "int \<Rightarrow> int" where
  "UnixMilli t = t div 1000000"

definition mulDuration :: "int \<Rightarrow> duration \<Rightarrow> duration" where
  "mulDuration n unit = wrap64 (n * unit)"

text \<open>\<^verbatim>\<open>Time.Sub\<close> saturates at the ends of the duration range.\<close>

definition timeSub :: "int \<Rightarrow> int \<Rightarrow> duration" where
  "timeSub t u = max (- (2 ^ 63)) (min (2 ^ 63 - 1) (t - u))"

subsection \<open>Wrapped arithmetic\<close>

lemma wrap64_range [go_int]: "in_int64 (wrap64 x)"
  by (auto simp: wrap64_def in_int64_def)

lemma wrap64_id [go_int]: "in_int64 x \<Longrightarrow> wrap64 x = x"
  by (simp add: wrap64_def in_int64_def)

lemma wrap64_wrap64 [simp]: "wrap64 (wrap64 x) = wrap64 x"
  by (rule wrap64_id) (rule wrap64_range)

lemma wrap64_sint: "wrap64 x = sint (word_of_int x :: 64 word)"
  by (simp add: wrap64_def sint_sbintrunc' signed_take_bit_eq_take_bit_shift take_bit_eq_mod)

lemma in_int64_sint: "in_int64 (sint (w :: 64 word))"
  using sint_range_size [of w] by (simp add: in_int64_def word_size)

lemma wrap64_small [go_int]: "- (2 ^ 63) \<le> x \<Longrightarrow> x < 2 ^ 63 \<Longrightarrow> wrap64 x = x"
  by (rule wrap64_id) (simp add: in_int64_def)

lemma mulDuration_id: "in_int64 (n * unit) \<Longrightarrow> mulDuration n unit = n * unit"
  by (simp add: mulDuration_def wrap64_id)

subsection \<open>Truncated division by a positive unit\<close>

lemma sdiv_nonneg: "0 \<le> d \<Longrightarrow> 0 < u \<Longrightarrow> d sdiv u = d div (u :: int)"
  by (simp add: signed_divide_int_def sgn_if zdiv_eq_0_iff)

lemma sdiv_neg: "d < 0 \<Longrightarrow> 0 < u \<Longrightarrow> d sdiv u = - ((- d) div (u :: int))"
  by (simp add: signed_divide_int_def sgn_if)

lemma sdiv_mono: "a \<le> b \<Longrightarrow> 0 < u \<Longrightarrow> a sdiv u \<le> b sdiv (u :: int)"
proof -
  assume ab: "a \<le> b" and u: "0 < u"
  consider "0 \<le> a" | "a < 0" "0 \<le> b" | "b < 0" by linarith
  then show ?thesis
  proof cases
    case 1
    with ab u show ?thesis by (simp add: sdiv_nonneg zdiv_mono1)
  next
    case 2
    with u have "0 \<le> (- a) div u" "0 \<le> b div u"
      by (simp_all add: pos_imp_zdiv_nonneg_iff)
    with 2 u show ?thesis by (simp add: sdiv_nonneg sdiv_neg)
  next
    case 3
    with ab u have "(- b) div u \<le> (- a) div u" by (simp add: zdiv_mono1)
    with 3 ab u show ?thesis by (simp add: sdiv_neg)
  qed
qed

lemma sdiv_mult_self: "0 < u \<Longrightarrow> (n * u) sdiv u = (n :: int)"
proof (cases "0 \<le> n")
  case True
  moreover assume "0 < u"
  ultimately show ?thesis by (simp add: sdiv_nonneg)
next
  case False
  moreover assume u: "0 < u"
  moreover have "(- (n * u)) div u = - n"
    using u nonzero_mult_div_cancel_right [of u "- n"] by simp
  ultimately show ?thesis by (simp add: sdiv_neg mult_neg_pos)
qed

lemma Milliseconds_mono: "a \<le> b \<Longrightarrow> Milliseconds a \<le> Milliseconds b"
  by (simp add: Milliseconds_def time_Millisecond_def sdiv_mono)

lemma Milliseconds_unit [simp]: "Milliseconds (n * time_Millisecond) = n"
  by (simp add: Milliseconds_def time_Millisecond_def sdiv_mult_self)

lemma Milliseconds_nonpos: "d \<le> 0 \<Longrightarrow> Milliseconds d \<le> 0"
  using Milliseconds_mono [of d 0] by (simp add: Milliseconds_def signed_divide_int_def)

lemma Milliseconds_nonneg: "0 \<le> d \<Longrightarrow> 0 \<le> Milliseconds d"
  using Milliseconds_mono [of 0 d] by (simp add: Milliseconds_def signed_divide_int_def)

lemma Milliseconds_le: "0 \<le> d \<Longrightarrow> Milliseconds d * time_Millisecond \<le> d"
  by (simp add: Milliseconds_def time_Millisecond_def sdiv_nonneg)

lemma UnixMilli_mono: "a \<le> b \<Longrightarrow> UnixMilli a \<le> UnixMilli b"
  by (simp add: UnixMilli_def zdiv_mono1)


subsection \<open>Maps\<close>

lemma map_le_SomeD: "m \<subseteq>\<^sub>m m' \<Longrightarrow> m k = Some v \<Longrightarrow> m' k = Some v"
  by (metis domI map_le_def)

end
