(* ===== verification/GoText.thy ===== *)
theory GoText
  imports Prelude
begin

text \<open>
  The parts of Go's \<^verbatim>\<open>strings\<close>, \<^verbatim>\<open>strconv\<close>, \<^verbatim>\<open>net/url\<close> and \<^verbatim>\<open>unicode/utf8\<close> packages
  that the sources call. A Go string is a byte sequence, which is exactly \<^typ>\<open>string\<close>:
  a \<^typ>\<open>char\<close> is one byte, read as a number by \<open>byte\<close>.
  The simple case mapping of non-ASCII code points is a Unicode data table; it is an
  argument of \<open>ToUpper\<close> and \<open>ToLower\<close>.
\<close>

abbreviation byte :: "char \<Rightarrow> nat" where
  "byte c \<equiv> of_char c"

abbreviation chr :: "nat \<Rightarrow> char" where
  "chr n \<equiv> char_of n"

subsection \<open>\<^verbatim>\<open>strings.TrimSpace\<close>\<close>

text \<open>
  White space in the sense of \<^verbatim>\<open>unicode.IsSpace\<close>, by the number of bytes of its UTF-8
  encoding: six ASCII characters; U+0085 and U+00A0; U+1680, U+2000 to U+200A, U+2028,
  U+2029, U+202F, U+205F and U+3000.
\<close>

definition isSpace1 :: "char \<Rightarrow> bool" where
  "isSpace1 a \<longleftrightarrow> 9 \<le> byte a \<and> byte a \<le> 13 \<or> byte a = 32"

definition isSpace2 :: "char \<Rightarrow> char \<Rightarrow> bool" where
  "isSpace2 a b \<longleftrightarrow> byte a = 0xC2 \<and> (byte b = 0x85 \<or> byte b = 0xA0)"

definition isSpace3 :: "char \<Rightarrow> char \<Rightarrow> char \<Rightarrow> bool" where
  "isSpace3 a b c \<longleftrightarrow>
     byte a = 0xE1 \<and> byte b = 0x9A \<and> byte c = 0x80 \<or>
     byte a = 0xE2 \<and> byte b = 0x80 \<and>
       (0x80 \<le> byte c \<and> byte c \<le> 0x8A \<or> byte c = 0xA8 \<or> byte c = 0xA9 \<or> byte c = 0xAF) \<or>
     byte a = 0xE2 \<and> byte b = 0x81 \<and> byte c = 0x9F \<or>
     byte a = 0xE3 \<and> byte b = 0x80 \<and> byte c = 0x80"

text \<open>The number of bytes of the white-space character a string begins (ends) with, or 0.\<close>

fun leadingSpace :: "string \<Rightarrow> nat" where
  "leadingSpace (a # b # c # s) =
     (if isSpace1 a then 1 else if isSpace2 a b then 2 else if isSpace3 a b c then 3 else 0)"
| "leadingSpace [a, b] = (if isSpace1 a then 1 else if isSpace2 a b then 2 else 0)"
| "leadingSpace [a] = (if isSpace1 a then 1 else 0)"
| "leadingSpace [] = 0"

fun trailingSpaceRev :: "string \<Rightarrow> nat" where
  "trailingSpaceRev (c # b # a # s) =
     (if isSpace1 c then 1 else if isSpace2 b c then 2 else if isSpace3 a b c then 3 else 0)"
| "trailingSpaceRev [c, b] = (if isSpace1 c then 1 else if isSpace2 b c then 2 else 0)"
| "trailingSpaceRev [c] = (if isSpace1 c then 1 else 0)"
| "trailingSpaceRev [] = 0"

function TrimLeft :: "string \<Rightarrow> string" where
  "TrimLeft s = (if leadingSpace s = 0 then s else TrimLeft (drop (leadingSpace s) s))"
  by pat_completeness auto
termination
proof (relation "measure length")
  fix s :: string
  assume "leadingSpace s \<noteq> 0"
  then show "(drop (leadingSpace s) s, s) \<in> measure length"
    by (cases s) auto
qed simp

function TrimRightRev :: "string \<Rightarrow> string" where
  "TrimRightRev s =
     (if trailingSpaceRev s = 0 then s else TrimRightRev (drop (trailingSpaceRev s) s))"
  by pat_completeness auto
termination
proof (relation "measure length")
  fix s :: string
  assume "trailingSpaceRev s \<noteq> 0"
  then show "(drop (trailingSpaceRev s) s, s) \<in> measure length"
    by (cases s) auto
qed simp

declare TrimLeft.simps [simp del] TrimRightRev.simps [simp del]

definition TrimSpace :: "string \<Rightarrow> string" where
  "TrimSpace s = rev (TrimRightRev (rev (TrimLeft s)))"

subsection \<open>Searching, joining, replacing, numbers\<close>

fun hasPrefix :: "string \<Rightarrow> string \<Rightarrow> bool" where
  "hasPrefix s [] = True"
| "hasPrefix [] (p # ps) = False"
| "hasPrefix (c # cs) (p # ps) = (c = p \<and> hasPrefix cs ps)"

fun Contains :: "string \<Rightarrow> string \<Rightarrow> bool" where
  "Contains [] p = hasPrefix [] p"
| "Contains (c # cs) p = (hasPrefix (c # cs) p \<or> Contains cs p)"

fun Join :: "string list \<Rightarrow> string \<Rightarrow> string" where
  "Join [] sep = []"
| "Join [x] sep = x"
| "Join (x # y # xs) sep = x @ sep @ Join (y # xs) sep"

text \<open>\<^verbatim>\<open>strings.ReplaceAll\<close> of a one-byte needle.\<close>

definition ReplaceByte :: "string \<Rightarrow> char \<Rightarrow> string \<Rightarrow> string" where
  "ReplaceByte s c r = concat (map (\<lambda>x. if x = c then r else [x]) s)"

definition digitChar :: "nat \<Rightarrow> char" where
  "digitChar d = chr (48 + d)"

fun natString :: "nat \<Rightarrow> string" where
  "natString n = (if n < 10 then [digitChar n] else natString (n div 10) @ [digitChar (n mod 10)])"

declare natString.simps [simp del]

definition Itoa :: "int \<Rightarrow> string" where
  "Itoa i = (if i < 0 then CHR ''-'' # natString (nat (- i)) else natString (nat i))"

subsection \<open>\<^verbatim>\<open>url.QueryEscape\<close>\<close>

definition isAlnum :: "char \<Rightarrow> bool" where
  "isAlnum c \<longleftrightarrow> 48 \<le> byte c \<and> byte c \<le> 57 \<or> 65 \<le> byte c \<and> byte c \<le> 90 \<or>
     97 \<le> byte c \<and> byte c \<le> 122"

definition isUnreserved :: "char \<Rightarrow> bool" where
  "isUnreserved c \<longleftrightarrow> isAlnum c \<or> c \<in> set ''-_.~''"

definition upperHex :: "nat \<Rightarrow> char" where
  "upperHex d = (if d < 10 then chr (48 + d) else chr (55 + d))"

definition queryEscapeByte :: "char \<Rightarrow> string" where
  "queryEscapeByte c =
     (if isUnreserved c then [c]
      else if c = CHR '' '' then ''+''
      else [CHR ''%'', upperHex (byte c div 16), upperHex (byte c mod 16)])"

definition QueryEscape :: "string \<Rightarrow> string" where
  "QueryEscape s = concat (map queryEscapeByte s)"

subsection \<open>UTF-8\<close>

abbreviation RuneError :: nat where
  "RuneError \<equiv> 0xFFFD"

definition isCont :: "char \<Rightarrow> bool" where
  "isCont b \<longleftrightarrow> 0x80 \<le> byte b \<and> byte b \<le> 0xBF"

text \<open>The range of the second byte that a lead byte allows.\<close>

definition secondOk :: "char \<Rightarrow> char \<Rightarrow> bool" where
  "secondOk a b \<longleftrightarrow>
     (if byte a = 0xE0 then 0xA0 \<le> byte b \<and> byte b \<le> 0xBF
      else if byte a = 0xED then 0x80 \<le> byte b \<and> byte b \<le> 0x9F
      else if byte a = 0xF0 then 0x90 \<le> byte b \<and> byte b \<le> 0xBF
      else if byte a = 0xF4 then 0x80 \<le> byte b \<and> byte b \<le> 0x8F
      else isCont b)"

definition seqLen :: "char \<Rightarrow> nat" where
  "seqLen a =
     (if byte a < 0x80 then 1
      else if 0xC2 \<le> byte a \<and> byte a \<le> 0xDF then 2
      else if 0xE0 \<le> byte a \<and> byte a \<le> 0xEF then 3
      else if 0xF0 \<le> byte a \<and> byte a \<le> 0xF4 then 4
      else 0)"

text \<open>\<^verbatim>\<open>utf8.DecodeRuneInString\<close> of a non-empty string: the code point and its width.\<close>

fun DecodeRune :: "string \<Rightarrow> nat \<times> nat" where
  "DecodeRune [] = (RuneError, 0)"
| "DecodeRune (a # s) =
     (if byte a < 0x80 then (byte a, 1)
      else if seqLen a = 2 then
        (case s of b # _ \<Rightarrow>
           if secondOk a b then ((byte a - 0xC0) * 64 + (byte b - 0x80), 2) else (RuneError, 1)
         | [] \<Rightarrow> (RuneError, 1))
      else if seqLen a = 3 then
        (case s of b # c # _ \<Rightarrow>
           if secondOk a b \<and> isCont c
           then ((byte a - 0xE0) * 4096 + (byte b - 0x80) * 64 + (byte c - 0x80), 3)
           else (RuneError, 1)
         | _ \<Rightarrow> (RuneError, 1))
      else if seqLen a = 4 then
        (case s of b # c # d # _ \<Rightarrow>
           if secondOk a b \<and> isCont c \<and> isCont d
           then ((byte a - 0xF0) * 262144 + (byte b - 0x80) * 4096 + (byte c - 0x80) * 64 +
                 (byte d - 0x80), 4)
           else (RuneError, 1)
         | _ \<Rightarrow> (RuneError, 1))
      else (RuneError, 1))"

definition EncodeRune :: "nat \<Rightarrow> string" where
  "EncodeRune r =
     (if r < 0x80 then [chr r]
      else if r < 0x800 then [chr (0xC0 + r div 64), chr (0x80 + r mod 64)]
      else if 0x10FFFF < r \<or> 0xD800 \<le> r \<and> r \<le> 0xDFFF then [chr 0xEF, chr 0xBF, chr 0xBD]
      else if r < 0x10000 then
        [chr (0xE0 + r div 4096), chr (0x80 + r div 64 mod 64), chr (0x80 + r mod 64)]
      else [chr (0xF0 + r div 262144), chr (0x80 + r div 4096 mod 64),
            chr (0x80 + r div 64 mod 64), chr (0x80 + r mod 64)])"

lemma DecodeRune_width: "s \<noteq> [] \<Longrightarrow> 0 < snd (DecodeRune s) \<and> snd (DecodeRune s) \<le> length s"
  by (cases s) (auto split: list.splits)

lemma DecodeRune_width_le4: "snd (DecodeRune s) \<le> 4"
  by (cases s) (auto split: list.splits)

function runesOf :: "string \<Rightarrow> (nat \<times> nat) list" where
  "runesOf s = (if s = [] then [] else DecodeRune s # runesOf (drop (snd (DecodeRune s)) s))"
  by pat_completeness auto
termination
proof (relation "measure length")
  fix s :: string
  assume "s \<noteq> []"
  with DecodeRune_width [OF this] show "(drop (snd (DecodeRune s)) s, s) \<in> measure length"
    by simp
qed simp

declare runesOf.simps [simp del]

definition valid_utf8 :: "string \<Rightarrow> bool" where
  "valid_utf8 s \<longleftrightarrow> (RuneError, 1) \<notin> set (runesOf s)"

definition isASCII :: "string \<Rightarrow> bool" where
  "isASCII s \<longleftrightarrow> (\<forall>c\<in>set s. byte c < 128)"

text \<open>\<^verbatim>\<open>strings.Map\<close>: invalid bytes become the replacement character.\<close>

definition MapRunes :: "(nat \<Rightarrow> nat) \<Rightarrow> string \<Rightarrow> string" where
  "MapRunes f s = concat (map (\<lambda>(r, w). EncodeRune (f r)) (runesOf s))"

definition upperByte :: "char \<Rightarrow> char" where
  "upperByte c = (if 97 \<le> byte c \<and> byte c \<le> 122 then chr (byte c - 32) else c)"

definition lowerByte :: "char \<Rightarrow> char" where
  "lowerByte c = (if 65 \<le> byte c \<and> byte c \<le> 90 then chr (byte c + 32) else c)"

record unicode =
  runeToUpper :: "nat \<Rightarrow> nat"
  runeToLower :: "nat \<Rightarrow> nat"

definition ToUpper :: "unicode \<Rightarrow> string \<Rightarrow> string" where
  "ToUpper u s = (if isASCII s then map upperByte s else MapRunes (runeToUpper u) s)"

definition ToLower :: "unicode \<Rightarrow> string \<Rightarrow> string" where
  "ToLower u s = (if isASCII s then map lowerByte s else MapRunes (runeToLower u) s)"


subsection \<open>Facts on trimming\<close>

definition isVisible :: "char \<Rightarrow> bool" where
  "isVisible c \<longleftrightarrow> 33 \<le> byte c \<and> byte c \<le> 126"

lemma TrimLeft_id: "leadingSpace s = 0 \<Longrightarrow> TrimLeft s = s"
  by (simp add: TrimLeft.simps)

lemma TrimRightRev_id: "trailingSpaceRev s = 0 \<Longrightarrow> TrimRightRev s = s"
  by (simp add: TrimRightRev.simps)

lemma TrimLeft_Nil [simp]: "TrimLeft [] = []"
  by (simp add: TrimLeft_id)

lemma TrimRightRev_Nil [simp]: "TrimRightRev [] = []"
  by (simp add: TrimRightRev_id)

lemma TrimSpace_Nil [simp]: "TrimSpace [] = []"
  by (simp add: TrimSpace_def)

lemma visible_not_space:
  assumes "isVisible c"
  shows "\<not> isSpace1 c" "\<not> isSpace2 c b" "\<not> isSpace2 a c"
    "\<not> isSpace3 c a b" "\<not> isSpace3 a c b" "\<not> isSpace3 a b c"
  using assms by (auto simp: isVisible_def isSpace1_def isSpace2_def isSpace3_def)

lemma leadingSpace_drop_visible:
  "c \<in> set s \<Longrightarrow> isVisible c \<Longrightarrow> c \<in> set (drop (leadingSpace s) s)"
  by (induction s rule: leadingSpace.induct) (auto simp: visible_not_space)

lemma trailingSpace_drop_visible:
  "c \<in> set s \<Longrightarrow> isVisible c \<Longrightarrow> c \<in> set (drop (trailingSpaceRev s) s)"
  by (induction s rule: trailingSpaceRev.induct) (auto simp: visible_not_space)

lemma TrimLeft_visible: "c \<in> set s \<Longrightarrow> isVisible c \<Longrightarrow> c \<in> set (TrimLeft s)"
proof (induction s rule: TrimLeft.induct)
  case (1 s)
  then show ?case
    using leadingSpace_drop_visible [of c s] by (subst TrimLeft.simps) simp
qed

lemma TrimRightRev_visible: "c \<in> set s \<Longrightarrow> isVisible c \<Longrightarrow> c \<in> set (TrimRightRev s)"
proof (induction s rule: TrimRightRev.induct)
  case (1 s)
  then show ?case
    using trailingSpace_drop_visible [of c s] by (subst TrimRightRev.simps) simp
qed

lemma TrimSpace_visible [go_text]: "c \<in> set s \<Longrightarrow> isVisible c \<Longrightarrow> TrimSpace s \<noteq> []"
  using TrimRightRev_visible [of c "rev (TrimLeft s)"] TrimLeft_visible [of c s]
  by (auto simp: TrimSpace_def)

lemma leadingSpace_Cons_visible: "isVisible c \<Longrightarrow> leadingSpace (c # s) = 0"
  by (cases "c # s" rule: leadingSpace.cases) (auto simp: visible_not_space)

lemma trailingSpaceRev_Cons_visible: "isVisible c \<Longrightarrow> trailingSpaceRev (c # s) = 0"
  by (cases "c # s" rule: trailingSpaceRev.cases) (auto simp: visible_not_space)

lemma TrimSpace_all_visible [go_text]:
  assumes "\<forall>c\<in>set s. isVisible c"
  shows "TrimSpace s = s"
proof (cases "s = []")
  case False
  then obtain a t where s: "s = a # t" by (cases s) auto
  with assms have l: "TrimLeft s = s"
    by (simp add: TrimLeft_id leadingSpace_Cons_visible)
  from False obtain b u where r: "rev s = b # u" by (cases "rev s") auto
  then have "b \<in> set s" by (metis list.set_intros(1) set_rev)
  with assms r have "TrimRightRev (rev s) = rev s"
    by (simp add: TrimRightRev_id trailingSpaceRev_Cons_visible)
  with l show ?thesis by (simp add: TrimSpace_def)
qed simp

subsection \<open>Facts on decimal numerals\<close>

definition isDigit :: "char \<Rightarrow> bool" where
  "isDigit c \<longleftrightarrow> 48 \<le> byte c \<and> byte c \<le> 57"

definition digitsValue :: "string \<Rightarrow> nat" where
  "digitsValue s = foldl (\<lambda>v c. 10 * v + (byte c - 48)) 0 s"

lemma byte_digitChar [simp]: "d < 10 \<Longrightarrow> byte (digitChar d) = 48 + d"
  by (simp add: digitChar_def)

lemma isDigit_digitChar [simp]: "d < 10 \<Longrightarrow> isDigit (digitChar d)"
  by (simp add: isDigit_def)

lemma natString_digits [go_text]: "\<forall>c\<in>set (natString n). isDigit c"
proof (induction n rule: natString.induct)
  case (1 n)
  then show ?case by (subst natString.simps) auto
qed

lemma natString_not_Nil [simp]: "natString n \<noteq> []"
  by (subst natString.simps) simp

lemma digitsValue_snoc: "digitsValue (s @ [c]) = 10 * digitsValue s + (byte c - 48)"
  by (simp add: digitsValue_def)

lemma digitsValue_natString [simp]: "digitsValue (natString n) = n"
proof (induction n rule: natString.induct)
  case (1 n)
  then show ?case
    by (subst natString.simps) (auto simp: digitsValue_snoc digitsValue_def)
qed

lemma natString_leading_zero: "hd (natString n) = CHR ''0'' \<Longrightarrow> n = 0"
proof (induction n rule: natString.induct)
  case (1 n)
  show ?case
  proof (cases "n < 10")
    case True
    with "1.prems" have "byte (digitChar n) = byte (CHR ''0'')"
      by (simp add: natString.simps [of n])
    with True show ?thesis by simp
  next
    case False
    with "1.prems" have "hd (natString (n div 10)) = CHR ''0''"
      by (simp add: natString.simps [of n])
    with "1.IH" False have "n div 10 = 0" by simp
    with False show ?thesis by simp
  qed
qed

lemma natString_0 [simp]: "natString 0 = ''0''"
  by (simp add: natString.simps digitChar_def char_of_eq_iff)

subsection \<open>Percent-decoding undoes the escaping\<close>

definition hexValue :: "char \<Rightarrow> nat" where
  "hexValue c = (if byte c < 65 then byte c - 48 else byte c - 55)"

text \<open>RFC 3986 percent-decoding, the meaning of an escaped query component.\<close>

fun percentDecode :: "string \<Rightarrow> string" where
  "percentDecode (p # h # l # s) =
     (if p = CHR ''%'' then chr (16 * hexValue h + hexValue l) # percentDecode s
      else p # percentDecode (h # l # s))"
| "percentDecode [a, b] = [a, b]"
| "percentDecode [a] = [a]"
| "percentDecode [] = []"

lemma hexValue_upperHex: "d < 16 \<Longrightarrow> hexValue (upperHex d) = d"
  by (auto simp: hexValue_def upperHex_def)

lemma percentDecode_literal: "c \<noteq> CHR ''%'' \<Longrightarrow> percentDecode (c # s) = c # percentDecode s"
proof -
  assume "c \<noteq> CHR ''%''"
  then show ?thesis
    by (cases s rule: percentDecode.cases) auto
qed

lemma percentDecode_escape:
  "percentDecode (CHR ''%'' # upperHex (byte c div 16) # upperHex (byte c mod 16) # s) =
     c # percentDecode s"
proof -
  have "byte c div 16 < 16" using nat_of_char_less_256 [of c] by linarith
  then show ?thesis by (simp add: hexValue_upperHex)
qed

lemma isUnreserved_percent [simp]: "\<not> isUnreserved (CHR ''%'')" "\<not> isUnreserved (CHR ''+'')"
  "\<not> isUnreserved (CHR ''&'')" "\<not> isUnreserved (CHR ''='')" "\<not> isUnreserved (CHR ''?'')"
  "\<not> isUnreserved (CHR ''#'')"
  by (simp_all add: isUnreserved_def isAlnum_def)


subsection \<open>Facts on UTF-8\<close>

lemma DecodeRune_prefix:
  assumes "DecodeRune s = (r, w)" and "(r, w) \<noteq> (RuneError, 1)"
  shows "DecodeRune (take w s @ x) = (if s = [] then DecodeRune x else (r, w))"
  using assms
  by (cases s rule: DecodeRune.cases) (auto split: if_splits list.splits)

lemma seqLen_cases:
  "seqLen a = 2 \<Longrightarrow> 0xC2 \<le> byte a \<and> byte a \<le> 0xDF"
  "seqLen a = 3 \<Longrightarrow> 0xE0 \<le> byte a \<and> byte a \<le> 0xEF"
  "seqLen a = 4 \<Longrightarrow> 0xF0 \<le> byte a \<and> byte a \<le> 0xF4"
  by (auto simp: seqLen_def split: if_splits)

lemma secondOk_range: "secondOk a b \<Longrightarrow> 0x80 \<le> byte b \<and> byte b \<le> 0xBF"
  by (auto simp: secondOk_def isCont_def split: if_splits)

lemma base64_digits:
  fixes q z :: nat
  assumes "z < 64"
  shows "(q * 64 + z) div 64 = q" "(q * 64 + z) mod 64 = z"
  using assms by simp_all

lemma EncodeRune2:
  fixes a b :: char
  assumes "0xC2 \<le> byte a" "byte a \<le> 0xDF" "0x80 \<le> byte b" "byte b \<le> 0xBF"
  shows "EncodeRune ((byte a - 0xC0) * 64 + (byte b - 0x80)) = [a, b]"
proof -
  define x where "x = byte a - 0xC0"
  define y where "y = byte b - 0x80"
  have a: "a = chr (0xC0 + x)" and b: "b = chr (0x80 + y)"
    using assms by (simp_all add: x_def y_def)
  have x: "2 \<le> x" "x < 32" and y: "y < 64" using assms by (simp_all add: x_def y_def)
  from y have "(x * 64 + y) div 64 = x" "(x * 64 + y) mod 64 = y" by simp_all
  with x y have "EncodeRune (x * 64 + y) = [chr (0xC0 + x), chr (0x80 + y)]"
    by (simp add: EncodeRune_def)
  then show ?thesis by (simp only: flip: a b x_def y_def)
qed

lemma EncodeRune3:
  assumes "0xE0 \<le> byte a" "byte a \<le> 0xEF" "secondOk a b" "isCont c"
  shows "EncodeRune ((byte a - 0xE0) * 4096 + (byte b - 0x80) * 64 + (byte c - 0x80)) = [a, b, c]"
proof -
  define x where "x = byte a - 0xE0"
  define y where "y = byte b - 0x80"
  define z where "z = byte c - 0x80"
  note sec = secondOk_range [OF assms(3)]
  have a: "a = chr (0xE0 + x)" and b: "b = chr (0x80 + y)" and c: "c = chr (0x80 + z)"
    using assms sec by (simp_all add: x_def y_def z_def isCont_def)
  have x: "x < 16" and y: "y < 64" and z: "z < 64"
    using assms sec by (auto simp: x_def y_def z_def isCont_def)
  have lo: "x = 0 \<Longrightarrow> 32 \<le> y" and sur: "x = 13 \<Longrightarrow> y < 32"
    using assms(1,3) by (auto simp: x_def y_def secondOk_def split: if_splits)
  let ?r = "x * 4096 + y * 64 + z"
  have r: "?r = (x * 64 + y) * 64 + z" by simp
  have d1: "?r div 64 = x * 64 + y" and m: "?r mod 64 = z"
    unfolding r by (rule base64_digits [OF z])+
  have "?r div 4096 = ?r div 64 div 64" by (simp flip: div_mult2_eq)
  with d1 base64_digits [OF y] have "?r div 4096 = x" "?r div 64 mod 64 = y" "?r mod 64 = z"
    using m by simp_all
  moreover have "\<not> ?r < 0x800" using lo y by (cases "x = 0") auto
  moreover have "\<not> (0xD800 \<le> ?r \<and> ?r \<le> 0xDFFF)"
  proof
    assume "0xD800 \<le> ?r \<and> ?r \<le> 0xDFFF"
    with y z have "x = 13" by linarith
    with sur z \<open>0xD800 \<le> ?r \<and> ?r \<le> 0xDFFF\<close> show False by simp
  qed
  moreover have "?r < 0x10000" using x y z by simp
  ultimately have "EncodeRune ?r = [chr (0xE0 + x), chr (0x80 + y), chr (0x80 + z)]"
    by (simp add: EncodeRune_def)
  then show ?thesis by (simp only: flip: a b c x_def y_def z_def)
qed

lemma EncodeRune4:
  assumes "0xF0 \<le> byte a" "byte a \<le> 0xF4" "secondOk a b" "isCont c" "isCont d"
  shows "EncodeRune ((byte a - 0xF0) * 262144 + (byte b - 0x80) * 4096 + (byte c - 0x80) * 64 +
           (byte d - 0x80)) = [a, b, c, d]"
proof -
  define x where "x = byte a - 0xF0"
  define y where "y = byte b - 0x80"
  define z where "z = byte c - 0x80"
  define v where "v = byte d - 0x80"
  note sec = secondOk_range [OF assms(3)]
  have abcd: "a = chr (0xF0 + x)" "b = chr (0x80 + y)" "c = chr (0x80 + z)" "d = chr (0x80 + v)"
    using assms sec by (simp_all add: x_def y_def z_def v_def isCont_def)
  have x: "x < 5" and y: "y < 64" and z: "z < 64" and v: "v < 64"
    using assms sec by (auto simp: x_def y_def z_def v_def isCont_def)
  have lo: "x = 0 \<Longrightarrow> 16 \<le> y" and hi: "x = 4 \<Longrightarrow> y < 16"
    using assms(1,3) by (auto simp: x_def y_def secondOk_def split: if_splits)
  let ?r = "x * 262144 + y * 4096 + z * 64 + v"
  have r: "?r = ((x * 64 + y) * 64 + z) * 64 + v" by simp
  have d1: "?r div 64 = (x * 64 + y) * 64 + z" and m: "?r mod 64 = v"
    unfolding r by (rule base64_digits [OF v])+
  have "?r div 4096 = ?r div 64 div 64" by (simp flip: div_mult2_eq)
  then have d2: "?r div 4096 = x * 64 + y" and m2: "?r div 64 mod 64 = z"
    unfolding d1 by (simp_all only: base64_digits [OF z])
  have "?r div 262144 = ?r div 4096 div 64" by (simp flip: div_mult2_eq)
  with d2 base64_digits [OF y] have "?r div 262144 = x" "?r div 4096 mod 64 = y"
      "?r div 64 mod 64 = z" "?r mod 64 = v"
    using m m2 by simp_all
  moreover have "\<not> ?r < 0x10000" using lo by (cases "x = 0") auto
  moreover have "?r \<le> 0x10FFFF" using hi x y z v by (cases "x = 4") auto
  ultimately have "EncodeRune ?r =
      [chr (0xF0 + x), chr (0x80 + y), chr (0x80 + z), chr (0x80 + v)]"
    by (simp add: EncodeRune_def)
  then show ?thesis by (simp only: flip: abcd x_def y_def z_def v_def)
qed

lemma EncodeRune_DecodeRune:
  assumes "s \<noteq> []" and "DecodeRune s = (r, w)" and "(r, w) \<noteq> (RuneError, 1)"
  shows "EncodeRune r = take w s"
proof (cases s)
  case (Cons a t)
  consider "byte a < 0x80" | "seqLen a = 2" | "seqLen a = 3" | "seqLen a = 4"
    using assms Cons by (auto split: if_splits)
  then show ?thesis
  proof cases
    case 1
    with assms Cons show ?thesis
      by (auto simp: EncodeRune_def)
  next
    case 2
    then have "\<not> byte a < 0x80" by (auto simp: seqLen_def)
    with 2 assms Cons obtain b u where "t = b # u" "secondOk a b"
        "r = (byte a - 0xC0) * 64 + (byte b - 0x80)" "w = 2"
      by (auto split: list.splits if_splits)
    with 2 Cons show ?thesis
      using EncodeRune2 [of a b] seqLen_cases(1) [of a] secondOk_range [of a b] by simp
  next
    case 3
    then have "\<not> byte a < 0x80" by (auto simp: seqLen_def)
    with 3 assms Cons obtain b c u where "t = b # c # u" "secondOk a b" "isCont c" "w = 3"
        "r = (byte a - 0xE0) * 4096 + (byte b - 0x80) * 64 + (byte c - 0x80)"
      by (auto split: list.splits if_splits)
    with 3 Cons show ?thesis
      using EncodeRune3 [of a b c] seqLen_cases(2) [of a] by simp
  next
    case 4
    then have "\<not> byte a < 0x80" by (auto simp: seqLen_def)
    with 4 assms Cons obtain b c d u where "t = b # c # d # u" "secondOk a b" "isCont c" "isCont d"
        "w = 4" "r = (byte a - 0xF0) * 262144 + (byte b - 0x80) * 4096 + (byte c - 0x80) * 64 +
           (byte d - 0x80)"
      by (auto split: list.splits if_splits)
    with 4 Cons show ?thesis
      using EncodeRune4 [of a b c d] seqLen_cases(3) [of a] by simp
  qed
qed (use assms in simp)

lemma valid_utf8_Nil [simp]: "valid_utf8 []"
  by (simp add: valid_utf8_def runesOf.simps)

lemma valid_utf8_step:
  assumes "valid_utf8 s" and "s \<noteq> []" and "DecodeRune s = (r, w)"
  shows "(r, w) \<noteq> (RuneError, 1) \<and> valid_utf8 (drop w s)"
  using assms by (auto simp: valid_utf8_def runesOf.simps [of s])

lemma DecodeRune_ASCII [simp]: "byte a < 128 \<Longrightarrow> DecodeRune (a # s) = (byte a, 1)"
  by simp

lemma isASCII_runesOf: "isASCII s \<Longrightarrow> runesOf s = map (\<lambda>c. (byte c, 1)) s"
proof (induction s)
  case (Cons a s)
  then show ?case by (simp add: isASCII_def runesOf.simps [of "a # s"])
qed (simp add: runesOf.simps)

lemma isASCII_valid_utf8: "isASCII s \<Longrightarrow> valid_utf8 s"
  by (auto simp: valid_utf8_def isASCII_runesOf) (auto simp: isASCII_def)

end
