(* ===== verification/Json.thy ===== *)
theory Json
  imports GoText
begin

text \<open>
  The parts of Go's \<^verbatim>\<open>encoding/json\<close> the sources rely on: the compact text that
  \<^verbatim>\<open>json.Marshal\<close> writes, the grammar and the string decoding of \<^verbatim>\<open>json.Unmarshal\<close>, and
  how object members are matched with struct fields. A document is a \<open>json\<close> tree; a number
  keeps its literal, so that no precision is lost before the target type is known.

  \<open>parseJSON_jsonText\<close> shows that parsing the written text gives the tree back, for
  every tree whose strings are valid UTF-8 and whose nesting is within Go's limit.
\<close>

datatype json =
    JNull
  | JBool bool
  | JNum string
  | JStr string
  | JArr "json list"
  | JObj "(string \<times> json) list"

subsection \<open>Writing\<close>

definition lowerHex :: "nat \<Rightarrow> char" where
  "lowerHex d = (if d < 10 then chr (48 + d) else chr (87 + d))"

definition jsonEscapeASCII :: "char \<Rightarrow> string" where
  "jsonEscapeASCII c =
     (if c = CHR 0x22 \<or> c = CHR 0x5C then [CHR 0x5C, c]
      else if byte c = 8 then [CHR 0x5C, CHR ''b'']
      else if byte c = 12 then [CHR 0x5C, CHR ''f'']
      else if byte c = 10 then [CHR 0x5C, CHR ''n'']
      else if byte c = 13 then [CHR 0x5C, CHR ''r'']
      else if byte c = 9 then [CHR 0x5C, CHR ''t'']
      else if byte c < 32 \<or> c \<in> set ''<>&'' then
        [CHR 0x5C, CHR ''u'', CHR ''0'', CHR ''0'', lowerHex (byte c div 16), lowerHex (byte c mod 16)]
      else [c])"

function jsonEscape :: "string \<Rightarrow> string" where
  "jsonEscape s =
     (case s of [] \<Rightarrow> []
      | c # t \<Rightarrow>
          (let (r, w) = DecodeRune s in
           (if byte c < 0x80 then jsonEscapeASCII c
            else if r = RuneError \<and> w = 1 then CHR 0x5C # ''ufffd''
            else if r = 0x2028 then CHR 0x5C # ''u2028''
            else if r = 0x2029 then CHR 0x5C # ''u2029''
            else take w s) @ jsonEscape (drop w s)))"
  by pat_completeness auto
termination
proof (relation "measure length")
  fix s :: string and c t p r w
  assume "s = c # t" and "p = DecodeRune s" and "(r, w) = p"
  then show "(drop w s, s) \<in> measure length"
    using DecodeRune_width [of s] by (cases "DecodeRune s") auto
qed simp

declare jsonEscape.simps [simp del]

definition jsonQuote :: "string \<Rightarrow> string" where
  "jsonQuote s = CHR 0x22 # jsonEscape s @ [CHR 0x22]"

fun jsonText :: "json \<Rightarrow> string" where
  "jsonText JNull = ''null''"
| "jsonText (JBool b) = (if b then ''true'' else ''false'')"
| "jsonText (JNum lit) = lit"
| "jsonText (JStr s) = jsonQuote s"
| "jsonText (JArr vs) = ''['' @ Join (map jsonText vs) '','' @ '']''"
| "jsonText (JObj kvs) =
     ''{'' @ Join (map (\<lambda>kv. jsonQuote (fst kv) @ '':'' @ jsonText (snd kv)) kvs) '','' @ ''}''"

subsection \<open>Reading\<close>

definition isWS :: "char \<Rightarrow> bool" where
  "isWS c \<longleftrightarrow> byte c = 32 \<or> byte c = 9 \<or> byte c = 10 \<or> byte c = 13"

definition skipWS :: "string \<Rightarrow> string" where
  "skipWS s = dropWhile isWS s"

text \<open>The rest of the input after white space and the given character, if it comes next.\<close>

definition expect :: "char \<Rightarrow> string \<Rightarrow> string option" where
  "expect c s = (case skipWS s of [] \<Rightarrow> None | x # t \<Rightarrow> if x = c then Some t else None)"

definition hexDigit :: "char \<Rightarrow> nat option" where
  "hexDigit c =
     (if 48 \<le> byte c \<and> byte c \<le> 57 then Some (byte c - 48)
      else if 97 \<le> byte c \<and> byte c \<le> 102 then Some (byte c - 87)
      else if 65 \<le> byte c \<and> byte c \<le> 70 then Some (byte c - 55)
      else None)"

fun hex4 :: "string \<Rightarrow> nat option" where
  "hex4 (a # b # c # d # _) =
     (case (hexDigit a, hexDigit b, hexDigit c, hexDigit d) of
        (Some w, Some x, Some y, Some z) \<Rightarrow> Some (4096 * w + 256 * x + 16 * y + z)
      | _ \<Rightarrow> None)"
| "hex4 _ = None"

definition simpleEscape :: "char \<Rightarrow> char option" where
  "simpleEscape e =
     (if e = CHR 0x22 \<or> e = CHR 0x5C \<or> e = CHR 0x2F then Some e
      else if e = CHR ''b'' then Some (chr 8)
      else if e = CHR ''f'' then Some (chr 12)
      else if e = CHR ''n'' then Some (chr 10)
      else if e = CHR ''r'' then Some (chr 13)
      else if e = CHR ''t'' then Some (chr 9)
      else None)"

text \<open>A \<^verbatim>\<open>\u\<close> escape directly at the head of the input, as a UTF-16 code unit.\<close>

fun unitEscape :: "string \<Rightarrow> nat option" where
  "unitEscape (b # u # s) = (if b = CHR 0x5C \<and> u = CHR ''u'' then hex4 s else None)"
| "unitEscape _ = None"

definition isSurrogate :: "nat \<Rightarrow> bool" where
  "isSurrogate r \<longleftrightarrow> 0xD800 \<le> r \<and> r < 0xE000"

definition surrogatePair :: "nat \<Rightarrow> nat option \<Rightarrow> nat option" where
  "surrogatePair hi lo =
     (case lo of None \<Rightarrow> None
      | Some l \<Rightarrow>
          if 0xD800 \<le> hi \<and> hi < 0xDC00 \<and> 0xDC00 \<le> l \<and> l < 0xE000
          then Some ((hi - 0xD800) * 1024 + (l - 0xDC00) + 0x10000) else None)"

definition prepend :: "string \<Rightarrow> (string \<times> 'r) option \<Rightarrow> (string \<times> 'r) option" where
  "prepend x p = map_option (\<lambda>(y, r). (x @ y, r)) p"

text \<open>The contents of a string literal, from just after its opening quotation mark.\<close>

function parseStr :: "string \<Rightarrow> (string \<times> string) option" where
  "parseStr s =
     (case s of [] \<Rightarrow> None
      | c # t \<Rightarrow>
          if c = CHR 0x22 then Some ([], t)
          else if c = CHR 0x5C then
            (case t of [] \<Rightarrow> None
             | e # u \<Rightarrow>
                 (case simpleEscape e of Some x \<Rightarrow> prepend [x] (parseStr u)
                  | None \<Rightarrow>
                      (case unitEscape s of None \<Rightarrow> None
                       | Some r \<Rightarrow>
                           if isSurrogate r then
                             (case surrogatePair r (unitEscape (drop 6 s)) of
                                Some p \<Rightarrow> prepend (EncodeRune p) (parseStr (drop 12 s))
                              | None \<Rightarrow> prepend (EncodeRune RuneError) (parseStr (drop 6 s)))
                           else prepend (EncodeRune r) (parseStr (drop 6 s)))))
          else if byte c < 32 then None
          else
            (let (r, w) = DecodeRune s in
             prepend (if r = RuneError \<and> w = 1 then EncodeRune RuneError else take w s)
               (parseStr (drop w s))))"
  by pat_completeness auto
termination
proof (relation "measure length", goal_cases)
  case 1 show ?case by simp
next
  case (2 s c t e u x) then show ?case by simp
next
  case (3 s c t e u r p) then show ?case by simp
next
  case (4 s c t e u r) then show ?case by simp
next
  case (5 s c t e u r) then show ?case by simp
next
  case (6 s c t p r w)
  then show ?case using DecodeRune_width [of s] by (cases "DecodeRune s") auto
qed

declare parseStr.simps [simp del]

text \<open>The longest number literal at the head of the input.\<close>

definition scanInt :: "string \<Rightarrow> (string \<times> string) option" where
  "scanInt s =
     (case s of [] \<Rightarrow> None
      | c # t \<Rightarrow>
          if c = CHR ''0'' then Some ([c], t)
          else if isDigit c then Some (takeWhile isDigit s, dropWhile isDigit s)
          else None)"

definition scanFrac :: "string \<Rightarrow> (string \<times> string) option" where
  "scanFrac s =
     (case s of [] \<Rightarrow> Some ([], s)
      | c # t \<Rightarrow>
          if c = CHR ''.'' then
            (if takeWhile isDigit t = [] then None
             else Some (c # takeWhile isDigit t, dropWhile isDigit t))
          else Some ([], s))"

definition splitSign :: "string \<Rightarrow> string \<times> string" where
  "splitSign s =
     (case s of [] \<Rightarrow> ([], s)
      | c # t \<Rightarrow> if c = CHR ''+'' \<or> c = CHR ''-'' then ([c], t) else ([], s))"

definition scanExp :: "string \<Rightarrow> (string \<times> string) option" where
  "scanExp s =
     (case s of [] \<Rightarrow> Some ([], s)
      | c # t \<Rightarrow>
          if c = CHR ''e'' \<or> c = CHR ''E'' then
            (let (sign, u) = splitSign t in
             if takeWhile isDigit u = [] then None
             else Some (c # sign @ takeWhile isDigit u, dropWhile isDigit u))
          else Some ([], s))"

definition scanUnsigned :: "string \<Rightarrow> (string \<times> string) option" where
  "scanUnsigned s =
     (case scanInt s of None \<Rightarrow> None
      | Some (i, u1) \<Rightarrow>
          (case scanFrac u1 of None \<Rightarrow> None
           | Some (f, u2) \<Rightarrow>
               (case scanExp u2 of None \<Rightarrow> None
                | Some (e, u3) \<Rightarrow> Some (i @ f @ e, u3))))"

definition scanNumber :: "string \<Rightarrow> (string \<times> string) option" where
  "scanNumber s =
     (case s of [] \<Rightarrow> None
      | c # t \<Rightarrow> if c = CHR ''-'' then prepend [c] (scanUnsigned t) else scanUnsigned s)"

definition scanLiteral :: "string \<Rightarrow> json \<Rightarrow> string \<Rightarrow> (json \<times> string) option" where
  "scanLiteral word v s = (if hasPrefix s word then Some (v, drop (length word) s) else None)"

definition parseScalar :: "string \<Rightarrow> (json \<times> string) option" where
  "parseScalar s =
     (case s of [] \<Rightarrow> None
      | c # t \<Rightarrow>
          if c = CHR 0x22 then map_option (\<lambda>(x, r). (JStr x, r)) (parseStr t)
          else if c = CHR ''t'' then scanLiteral ''true'' (JBool True) s
          else if c = CHR ''f'' then scanLiteral ''false'' (JBool False) s
          else if c = CHR ''n'' then scanLiteral ''null'' JNull s
          else map_option (\<lambda>(x, r). (JNum x, r)) (scanNumber s))"

text \<open>
  The grammar, with fuel for the recursion (\<open>parse_fuel\<close> shows twice the input's length
  and two is always enough) and the number of container levels still allowed.
\<close>

fun parseValue :: "nat \<Rightarrow> nat \<Rightarrow> string \<Rightarrow> (json \<times> string) option"
  and parseElems :: "nat \<Rightarrow> nat \<Rightarrow> string \<Rightarrow> (json list \<times> string) option"
  and parseMembers :: "nat \<Rightarrow> nat \<Rightarrow> string \<Rightarrow> ((string \<times> json) list \<times> string) option" where
  "parseValue 0 d s = None"
| "parseValue (Suc n) d s =
     (case expect CHR ''{'' s of
        Some t \<Rightarrow>
          if d = 0 then None
          else (case expect CHR ''}'' t of Some u \<Rightarrow> Some (JObj [], u)
                | None \<Rightarrow> map_option (\<lambda>(kvs, r). (JObj kvs, r)) (parseMembers n (d - 1) t))
      | None \<Rightarrow>
          (case expect CHR ''['' s of
             Some t \<Rightarrow>
               if d = 0 then None
               else (case expect CHR '']'' t of Some u \<Rightarrow> Some (JArr [], u)
                     | None \<Rightarrow> map_option (\<lambda>(vs, r). (JArr vs, r)) (parseElems n (d - 1) t))
           | None \<Rightarrow> parseScalar (skipWS s)))"
| "parseElems 0 d s = None"
| "parseElems (Suc n) d s =
     (case parseValue n d s of None \<Rightarrow> None
      | Some (v, r) \<Rightarrow>
          (case expect CHR '','' r of
             Some u \<Rightarrow> map_option (\<lambda>(vs, q). (v # vs, q)) (parseElems n d u)
           | None \<Rightarrow> map_option (\<lambda>u. ([v], u)) (expect CHR '']'' r)))"
| "parseMembers 0 d s = None"
| "parseMembers (Suc n) d s =
     (case expect CHR 0x22 s of None \<Rightarrow> None
      | Some t \<Rightarrow>
          (case parseStr t of None \<Rightarrow> None
           | Some (k, r) \<Rightarrow>
               (case expect CHR '':'' r of None \<Rightarrow> None
                | Some u \<Rightarrow>
                    (case parseValue n d u of None \<Rightarrow> None
                     | Some (v, q) \<Rightarrow>
                         (case expect CHR '','' q of
                            Some w \<Rightarrow> map_option (\<lambda>(kvs, p). ((k, v) # kvs, p)) (parseMembers n d w)
                          | None \<Rightarrow> map_option (\<lambda>w. ([(k, v)], w)) (expect CHR ''}'' q))))))"

definition maxNestingDepth :: nat where
  "maxNestingDepth = 10000"

definition parseJSON :: "string \<Rightarrow> json option" where
  "parseJSON s =
     (case parseValue (2 * length s + 2) maxNestingDepth s of None \<Rightarrow> None
      | Some (v, r) \<Rightarrow> if skipWS r = [] then Some v else None)"


subsection \<open>A written string reads back\<close>

lemma prepend_simps [simp]:
  "prepend x None = None" "prepend x (Some (y, r)) = Some (x @ y, r)"
  by (simp_all add: prepend_def)

lemma parseStr_quote [simp]: "parseStr (CHR 0x22 # x) = Some ([], x)"
  by (simp add: parseStr.simps [of "CHR 0x22 # x"])

lemma parseStr_simple:
  "simpleEscape e = Some y \<Longrightarrow> parseStr (CHR 0x5C # e # x) = prepend [y] (parseStr x)"
  by (simp add: parseStr.simps [of "CHR 0x5C # e # x"])

lemma parseStr_unit:
  "hex4 h = Some r \<Longrightarrow> \<not> isSurrogate r \<Longrightarrow>
    parseStr (CHR 0x5C # CHR ''u'' # h) = prepend (EncodeRune r) (parseStr (drop 4 h))"
  by (simp add: parseStr.simps [of "CHR 0x5C # CHR ''u'' # h"] simpleEscape_def numeral_eq_Suc)

lemma parseStr_plain:
  assumes "c \<noteq> CHR 0x22" "c \<noteq> CHR 0x5C" "32 \<le> byte c" "DecodeRune (c # t) = (r, w)"
    "(r, w) \<noteq> (RuneError, 1)"
  shows "parseStr (c # t) = prepend (take w (c # t)) (parseStr (drop w (c # t)))"
  using assms by (auto simp: parseStr.simps [of "c # t"] simp del: DecodeRune.simps)

lemma hexDigit_lowerHex: "d < 16 \<Longrightarrow> hexDigit (lowerHex d) = Some d"
  by (auto simp: hexDigit_def lowerHex_def)

lemma escape_simple:
  assumes "c = CHR 0x22 \<or> c = CHR 0x5C \<or> byte c \<in> {8, 12, 10, 13, 9}"
  shows "\<exists>e. jsonEscapeASCII c = [CHR 0x5C, e] \<and> simpleEscape e = Some c"
proof -
  consider "c = CHR 0x22 \<or> c = CHR 0x5C" | "byte c \<in> {8, 12, 10, 13, 9}"
    using assms by blast
  then show ?thesis
  proof cases
    case 1
    then show ?thesis by (auto simp: jsonEscapeASCII_def simpleEscape_def)
  next
    case 2
    then have "c \<noteq> CHR 0x22" "c \<noteq> CHR 0x5C" by auto
    moreover have "c = chr (byte c)" by simp
    ultimately show ?thesis
      using 2 by (auto simp: jsonEscapeASCII_def simpleEscape_def char_of_eq_iff)
  qed
qed

lemma parseStr_ASCII:
  assumes c: "byte c < 128"
  shows "parseStr (jsonEscapeASCII c @ x) = prepend [c] (parseStr x)"
proof -
  consider "c = CHR 0x22 \<or> c = CHR 0x5C \<or> byte c \<in> {8, 12, 10, 13, 9}"
    | "byte c < 32 \<or> c \<in> set ''<>&''" "c \<noteq> CHR 0x22 \<and> c \<noteq> CHR 0x5C \<and> byte c \<notin> {8, 12, 10, 13, 9}"
    | "\<not> (byte c < 32 \<or> c \<in> set ''<>&'')" "c \<noteq> CHR 0x22 \<and> c \<noteq> CHR 0x5C \<and> byte c \<notin> {8, 12, 10, 13, 9}"
    by blast
  then show ?thesis
  proof cases
    case 1
    from escape_simple [OF this] show ?thesis by (auto simp: parseStr_simple)
  next
    case 2
    let ?h = "CHR ''0'' # CHR ''0'' # lowerHex (byte c div 16) # lowerHex (byte c mod 16) # x"
    have "hexDigit CHR ''0'' = Some 0" by (simp add: hexDigit_def)
    then have "hex4 ?h = Some (byte c)" using c by (simp add: hexDigit_lowerHex)
    moreover have "\<not> isSurrogate (byte c)" "EncodeRune (byte c) = [c]"
      using c by (simp_all add: isSurrogate_def EncodeRune_def)
    ultimately have "parseStr (CHR 0x5C # CHR ''u'' # ?h) = prepend [c] (parseStr x)"
      by (simp add: parseStr_unit del: hex4.simps)
    moreover have "jsonEscapeASCII c @ x = CHR 0x5C # CHR ''u'' # ?h"
      using 2 by (simp add: jsonEscapeASCII_def)
    ultimately show ?thesis by simp
  next
    case 3
    then have "jsonEscapeASCII c = [c]" by (simp add: jsonEscapeASCII_def)
    with 3 c show ?thesis by (simp add: parseStr_plain)
  qed
qed

lemma parseStr_lineSep:
  "parseStr (CHR 0x5C # ''u2028'' @ x) = prepend (EncodeRune 0x2028) (parseStr x)"
  "parseStr (CHR 0x5C # ''u2029'' @ x) = prepend (EncodeRune 0x2029) (parseStr x)"
  by (simp_all add: parseStr_unit hexDigit_def isSurrogate_def)

lemma parseStr_multibyte:
  assumes "DecodeRune (c # t) = (r, w)" "(r, w) \<noteq> (RuneError, 1)" "128 \<le> byte c"
  shows "parseStr (take w (c # t) @ x) = prepend (take w (c # t)) (parseStr x)"
proof -
  from DecodeRune_width [of "c # t"] assms(1) obtain w' where w: "w = Suc w'" "w \<le> Suc (length t)"
    by (cases w) auto
  have d: "DecodeRune (c # take w' t @ x) = (r, w)"
    using DecodeRune_prefix [OF assms(1,2), of x] w by simp
  have "c \<noteq> CHR 0x22" "c \<noteq> CHR 0x5C" using assms(3) by auto
  from parseStr_plain [OF this _ d assms(2)] assms(3) w show ?thesis by simp
qed

theorem parseStr_jsonEscape:
  "valid_utf8 s \<Longrightarrow> parseStr (jsonEscape s @ CHR 0x22 # x) = Some (s, x)"
proof (induction s rule: jsonEscape.induct)
  case (1 s)
  show ?case
  proof (cases s)
    case Nil
    then show ?thesis by (simp add: jsonEscape.simps)
  next
    case (Cons c t)
    obtain r w where d: "DecodeRune (c # t) = (r, w)" by (cases "DecodeRune (c # t)") auto
    from valid_utf8_step [OF "1.prems"] Cons d
    have ok: "(r, w) \<noteq> (RuneError, 1)" and "valid_utf8 (drop w s)" by auto
    with "1.IH" Cons d
    have IH: "parseStr (jsonEscape (drop w s) @ CHR 0x22 # x) = Some (drop w s, x)" by auto
    have split: "take w s @ drop w s = s" by simp
    show ?thesis
    proof (cases "byte c < 128")
      case True
      with d Cons have "drop w s = t" "jsonEscape s = jsonEscapeASCII c @ jsonEscape t"
        by (auto simp: jsonEscape.simps [of "c # t"])
      with IH True Cons show ?thesis by (simp add: parseStr_ASCII)
    next
      case False
      from EncodeRune_DecodeRune [OF _ d ok] have e: "EncodeRune r = take w (c # t)" by simp
      consider "r = 0x2028" | "r = 0x2029" | "r \<noteq> 0x2028" "r \<noteq> 0x2029" by blast
      then have "parseStr (jsonEscape s @ CHR 0x22 # x) =
          prepend (take w s) (parseStr (jsonEscape (drop w s) @ CHR 0x22 # x))"
      proof cases
        case 1
        with False d ok Cons e show ?thesis
          by (simp add: jsonEscape.simps [of "c # t"] parseStr_lineSep [simplified]
              del: DecodeRune.simps)
      next
        case 2
        with False d ok Cons e show ?thesis
          by (simp add: jsonEscape.simps [of "c # t"] parseStr_lineSep [simplified]
              del: DecodeRune.simps)
      next
        case 3
        with False d ok Cons show ?thesis
          by (auto simp: jsonEscape.simps [of "c # t"] parseStr_multibyte [OF d ok]
              simp del: DecodeRune.simps take_append drop_append)
      qed
      with IH split show ?thesis by simp
    qed
  qed
qed


subsection \<open>The fuel is enough\<close>

lemma skipWS_length: "length (skipWS s) \<le> length s"
  by (simp add: skipWS_def length_dropWhile_le)

lemma expect_length: "expect c s = Some t \<Longrightarrow> length t < length s"
  using skipWS_length [of s] by (auto simp: expect_def split: list.splits if_splits)

lemma prepend_SomeE:
  assumes "prepend x p = Some (y, r)"
  obtains z where "p = Some (z, r)" "y = x @ z"
  using assms by (cases p) (auto simp: prepend_def)

lemma parseStr_step:
  assumes "parseStr (c # t) = Some (x, r)"
  shows "r = t \<or> (\<exists>k z. 0 < k \<and> parseStr (drop k (c # t)) = Some (z, r))"
proof -
  consider "c = CHR 0x22" | "c = CHR 0x5C" | "c \<noteq> CHR 0x22" "c \<noteq> CHR 0x5C" by blast
  then show ?thesis
  proof cases
    case 1
    with assms show ?thesis by simp
  next
    case 2
    with assms obtain e u where t: "t = e # u"
      by (cases t) (simp_all add: parseStr.simps [of "[CHR 0x5C]"])
    have "\<exists>k z. (k = 2 \<or> k = 6 \<or> k = 12) \<and> parseStr (drop k (c # t)) = Some (z, r)"
    proof (cases "simpleEscape e")
      case (Some y)
      with assms 2 t have "prepend [y] (parseStr u) = Some (x, r)" by (simp add: parseStr_simple)
      then have "\<exists>z. parseStr (drop 2 (c # t)) = Some (z, r)" using t by (auto elim: prepend_SomeE)
      then show ?thesis by blast
    next
      case None
      have eq: "parseStr (c # t) =
          (case unitEscape (c # t) of None \<Rightarrow> None
           | Some q \<Rightarrow>
               if isSurrogate q then
                 (case surrogatePair q (unitEscape (drop 6 (c # t))) of
                    Some p \<Rightarrow> prepend (EncodeRune p) (parseStr (drop 12 (c # t)))
                  | None \<Rightarrow> prepend (EncodeRune RuneError) (parseStr (drop 6 (c # t))))
               else prepend (EncodeRune q) (parseStr (drop 6 (c # t))))"
        using 2 t None by (subst parseStr.simps) simp
      have "\<exists>y k. (k = 6 \<or> k = 12) \<and> prepend y (parseStr (drop k (c # t))) = Some (x, r)"
        using assms unfolding eq by (simp only: split: option.splits if_splits) blast+
      then show ?thesis by (blast elim: prepend_SomeE)
    qed
    then show ?thesis by (metis zero_less_numeral)
  next
    case 3
    obtain rr w where d: "DecodeRune (c # t) = (rr, w)" by (cases "DecodeRune (c # t)") auto
    with assms 3 obtain z where "parseStr (drop w (c # t)) = Some (z, r)"
      by (subst (asm) parseStr.simps)
        (auto simp del: DecodeRune.simps split: if_splits elim!: prepend_SomeE)
    moreover have "0 < w" using DecodeRune_width [of "c # t"] d by simp
    ultimately show ?thesis by blast
  qed
qed

lemma parseStr_length: "parseStr s = Some (x, r) \<Longrightarrow> length r < length s"
proof (induction s arbitrary: x rule: length_induct)
  case (1 s)
  then obtain c t where s: "s = c # t" by (cases s) (simp_all add: parseStr.simps)
  show ?case
  proof (cases "r = t")
    case False
    with parseStr_step [of c t x r] "1.prems" s obtain k z
      where k: "0 < k" and z: "parseStr (drop k s) = Some (z, r)" by auto
    have "length (drop k s) < length s" using k s by simp
    with "1.IH" z have "length r < length (drop k s)" by blast
    then show ?thesis by simp
  qed (simp add: s)
qed


lemma scanInt_length: "scanInt s = Some (x, r) \<Longrightarrow> length r < length s"
proof -
  assume a: "scanInt s = Some (x, r)"
  then obtain c t where s: "s = c # t" by (cases s) (auto simp: scanInt_def)
  from a s show ?thesis
    using length_dropWhile_le [of isDigit t] by (auto simp: scanInt_def split: if_splits)
qed

lemma scanFrac_length: "scanFrac s = Some (x, r) \<Longrightarrow> length r \<le> length s"
  using length_dropWhile_le [of isDigit "tl s"]
  by (auto simp: scanFrac_def split: list.splits if_splits)

lemma splitSign_length: "splitSign s = (x, r) \<Longrightarrow> length r \<le> length s"
  by (auto simp: splitSign_def split: list.splits if_splits)

lemma scanExp_length: "scanExp s = Some (x, r) \<Longrightarrow> length r \<le> length s"
proof (cases s)
  case (Cons c t)
  moreover assume "scanExp s = Some (x, r)"
  moreover obtain sg u where "splitSign t = (sg, u)" by (cases "splitSign t") auto
  moreover from splitSign_length [OF this] length_dropWhile_le [of isDigit u]
  have "length (dropWhile isDigit u) \<le> length t" by linarith
  ultimately show ?thesis by (auto simp: scanExp_def split: if_splits)
qed (simp add: scanExp_def)

lemma scanUnsigned_length: "scanUnsigned s = Some (x, r) \<Longrightarrow> length r < length s"
  by (auto simp: scanUnsigned_def split: option.splits
      dest!: scanInt_length scanFrac_length scanExp_length)

lemma scanNumber_length: "scanNumber s = Some (x, r) \<Longrightarrow> length r < length s"
  by (fastforce simp: scanNumber_def split: list.splits if_splits
      elim!: prepend_SomeE dest!: scanUnsigned_length)

lemma parseScalar_length: "parseScalar s = Some (v, r) \<Longrightarrow> length r < length s"
  by (auto simp: parseScalar_def scanLiteral_def split: list.splits if_splits
      dest!: parseStr_length scanNumber_length)

lemma fuel_Suc:
  "(\<And>m. 2 * l \<le> m \<Longrightarrow> P (Suc m)) \<Longrightarrow> \<forall>m \<ge> 2 * (l :: nat) + 1. P m"
  "(\<And>m. 2 * l + 1 \<le> m \<Longrightarrow> P (Suc m)) \<Longrightarrow> \<forall>m \<ge> 2 * (l :: nat) + 2. P m"
  by (metis Suc_eq_plus1 Suc_le_D Suc_le_mono, metis Suc_1 Suc_eq_plus1 Suc_le_D Suc_le_mono add_Suc_right)

text \<open>
  Whatever some amount of fuel parses, every amount from twice the input's length on parses
  in the same way, so the fuel of \<open>parseJSON\<close> never cuts a document short. One lemma for each
  kind of text, given that its parts have the property, and then the induction.
\<close>

lemma object_fuel:
  assumes t: "expect CHR ''{'' s = Some t" and p: "parseValue (Suc n) d s = Some (v, r)"
    and parts: "\<And>kvs r. d \<noteq> 0 \<Longrightarrow> expect CHR ''}'' t = None \<Longrightarrow> parseMembers n (d - 1) t = Some (kvs, r) \<Longrightarrow>
      length r < length t \<and> (\<forall>m \<ge> 2 * length t + 2. parseMembers m (d - 1) t = Some (kvs, r))"
  shows "length r < length s \<and> (\<forall>m \<ge> 2 * length s + 1. parseValue m d s = Some (v, r))"
proof -
  note lt = expect_length [OF t]
  from p t have d: "d \<noteq> 0" by (auto split: if_splits)
  show ?thesis
  proof (cases "expect CHR ''}'' t")
    case None
    with p t d obtain kvs where k: "parseMembers n (d - 1) t = Some (kvs, r)" "v = JObj kvs" by auto
    from parts [OF d None k(1)] lt
    have "length r < length s" "\<forall>m\<ge>2 * length s. parseMembers m (d - 1) t = Some (kvs, r)" by auto
    then show ?thesis using t d None k(2) by (intro conjI fuel_Suc(1)) auto
  next
    case u: (Some u)
    with p t d expect_length [OF u] lt show ?thesis by (intro conjI fuel_Suc(1)) auto
  qed
qed

lemma array_fuel:
  assumes o: "expect CHR ''{'' s = None" and t: "expect CHR ''['' s = Some t"
    and p: "parseValue (Suc n) d s = Some (v, r)"
    and parts: "\<And>vs r. d \<noteq> 0 \<Longrightarrow> expect CHR '']'' t = None \<Longrightarrow> parseElems n (d - 1) t = Some (vs, r) \<Longrightarrow>
      length r < length t \<and> (\<forall>m \<ge> 2 * length t + 2. parseElems m (d - 1) t = Some (vs, r))"
  shows "length r < length s \<and> (\<forall>m \<ge> 2 * length s + 1. parseValue m d s = Some (v, r))"
proof -
  note lt = expect_length [OF t]
  from p t o have d: "d \<noteq> 0" by (auto split: if_splits)
  show ?thesis
  proof (cases "expect CHR '']'' t")
    case None
    with p t d o obtain vs where k: "parseElems n (d - 1) t = Some (vs, r)" "v = JArr vs" by auto
    from parts [OF d None k(1)] lt
    have "length r < length s" "\<forall>m\<ge>2 * length s. parseElems m (d - 1) t = Some (vs, r)" by auto
    then show ?thesis using t d None o k(2) by (intro conjI fuel_Suc(1)) auto
  next
    case u: (Some u)
    with p t d o expect_length [OF u] lt show ?thesis by (intro conjI fuel_Suc(1)) auto
  qed
qed

lemma scalar_fuel:
  assumes "expect CHR ''{'' s = None" "expect CHR ''['' s = None" "parseValue (Suc n) d s = Some (v, r)"
  shows "length r < length s \<and> (\<forall>m \<ge> 2 * length s + 1. parseValue m d s = Some (v, r))"
proof -
  from assms have "parseScalar (skipWS s) = Some (v, r)" by simp
  moreover from parseScalar_length [OF this] skipWS_length [of s] have "length r < length s" by simp
  ultimately show ?thesis using assms by (intro conjI fuel_Suc(1)) auto
qed

lemma elems_fuel:
  assumes p: "parseElems (Suc n) d s = Some (vs, r)"
    and first: "\<And>v r. parseValue n d s = Some (v, r) \<Longrightarrow>
      length r < length s \<and> (\<forall>m \<ge> 2 * length s + 1. parseValue m d s = Some (v, r))"
    and rest: "\<And>v r1 u vs r. parseValue n d s = Some (v, r1) \<Longrightarrow> expect CHR '','' r1 = Some u \<Longrightarrow>
      parseElems n d u = Some (vs, r) \<Longrightarrow>
      length r < length u \<and> (\<forall>m \<ge> 2 * length u + 2. parseElems m d u = Some (vs, r))"
  shows "length r < length s \<and> (\<forall>m \<ge> 2 * length s + 2. parseElems m d s = Some (vs, r))"
proof -
  from p obtain v r1 where v: "parseValue n d s = Some (v, r1)" by (auto split: option.splits)
  from first [OF v] have l1: "length r1 < length s"
    and f1: "\<And>m. m \<ge> 2 * length s + 1 \<Longrightarrow> parseValue m d s = Some (v, r1)" by auto
  show ?thesis
  proof (cases "expect CHR '','' r1")
    case None
    with p v have e: "expect CHR '']'' r1 = Some r" "vs = [v]" by auto
    with None l1 f1 expect_length [OF e(1)] show ?thesis by (intro conjI fuel_Suc(2)) simp_all
  next
    case (Some u)
    with p v obtain ws where w: "parseElems n d u = Some (ws, r)" "vs = v # ws" by auto
    from rest [OF v Some w(1)] have "length r < length u"
      and f2: "\<And>m. m \<ge> 2 * length u + 2 \<Longrightarrow> parseElems m d u = Some (ws, r)" by auto
    with Some l1 f1 w(2) expect_length [OF Some] show ?thesis
      by (intro conjI fuel_Suc(2)) simp_all
  qed
qed

lemma members_fuel:
  assumes p: "parseMembers (Suc n) d s = Some (kvs, r)"
    and first: "\<And>t k r1 u v r. expect CHR 0x22 s = Some t \<Longrightarrow> parseStr t = Some (k, r1) \<Longrightarrow>
      expect CHR '':'' r1 = Some u \<Longrightarrow> parseValue n d u = Some (v, r) \<Longrightarrow>
      length r < length u \<and> (\<forall>m \<ge> 2 * length u + 1. parseValue m d u = Some (v, r))"
    and rest: "\<And>t k r1 u v r2 w kvs r. expect CHR 0x22 s = Some t \<Longrightarrow> parseStr t = Some (k, r1) \<Longrightarrow>
      expect CHR '':'' r1 = Some u \<Longrightarrow> parseValue n d u = Some (v, r2) \<Longrightarrow> expect CHR '','' r2 = Some w \<Longrightarrow>
      parseMembers n d w = Some (kvs, r) \<Longrightarrow>
      length r < length w \<and> (\<forall>m \<ge> 2 * length w + 2. parseMembers m d w = Some (kvs, r))"
  shows "length r < length s \<and> (\<forall>m \<ge> 2 * length s + 2. parseMembers m d s = Some (kvs, r))"
proof -
  from p obtain t k r1 u v r2 where
      t: "expect CHR 0x22 s = Some t" and k: "parseStr t = Some (k, r1)" and
      u: "expect CHR '':'' r1 = Some u" and v: "parseValue n d u = Some (v, r2)"
    by (auto split: option.splits)
  note lens = expect_length [OF t] parseStr_length [OF k] expect_length [OF u]
  from first [OF t k u v] have l2: "length r2 < length u"
    and f1: "\<And>m. m \<ge> 2 * length u + 1 \<Longrightarrow> parseValue m d u = Some (v, r2)" by auto
  show ?thesis
  proof (cases "expect CHR '','' r2")
    case None
    with p t k u v have e: "expect CHR ''}'' r2 = Some r" "kvs = [(k, v)]" by auto
    with None t k u l2 f1 lens expect_length [OF e(1)] show ?thesis
      by (intro conjI fuel_Suc(2)) simp_all
  next
    case (Some w)
    with p t k u v obtain ws where w: "parseMembers n d w = Some (ws, r)" "kvs = (k, v) # ws" by auto
    from rest [OF t k u v Some w(1)] have "length r < length w"
      and f2: "\<And>m. m \<ge> 2 * length w + 2 \<Longrightarrow> parseMembers m d w = Some (ws, r)" by auto
    with Some t k u l2 f1 w(2) lens expect_length [OF Some] show ?thesis
      by (intro conjI fuel_Suc(2)) simp_all
  qed
qed

lemma parse_fuel:
  shows "parseValue n d s = Some (v, r) \<Longrightarrow>
    length r < length s \<and> (\<forall>m \<ge> 2 * length s + 1. parseValue m d s = Some (v, r))"
  and "parseElems n d s = Some (vs, r) \<Longrightarrow>
    length r < length s \<and> (\<forall>m \<ge> 2 * length s + 2. parseElems m d s = Some (vs, r))"
  and "parseMembers n d s = Some (kvs, r) \<Longrightarrow>
    length r < length s \<and> (\<forall>m \<ge> 2 * length s + 2. parseMembers m d s = Some (kvs, r))"
proof (induction n d s and n d s and n d s arbitrary: v r and vs r and kvs r
    rule: parseValue_parseElems_parseMembers.induct)
  case (2 n d s)
  show ?case
  proof (cases "expect CHR ''{'' s")
    case (Some t)
    show ?thesis by (rule object_fuel [OF Some 2(3) 2(2) [OF Some]])
  next
    case o: None
    show ?thesis
    proof (cases "expect CHR ''['' s")
      case (Some t)
      show ?thesis by (rule array_fuel [OF o Some 2(3) 2(1) [OF o Some]])
    qed (rule scalar_fuel [OF o _ 2(3)])
  qed
next
  case (4 n d s)
  show ?case by (rule elems_fuel [OF 4(3) 4(1) 4(2) [OF _ refl]])
next
  case (6 n d s)
  show ?case by (rule members_fuel [OF 6(3) 6(1) [OF _ _ refl] 6(2) [OF _ _ refl _ _ refl]])
qed simp_all

lemma parse_enough:
  "parseValue n d s = Some (v, r) \<Longrightarrow> 2 * length s + 1 \<le> m \<Longrightarrow> parseValue m d s = Some (v, r)"
  "parseElems n d s = Some (vs, r) \<Longrightarrow> 2 * length s + 2 \<le> m \<Longrightarrow> parseElems m d s = Some (vs, r)"
  "parseMembers n d s = Some (kvs, r) \<Longrightarrow> 2 * length s + 2 \<le> m \<Longrightarrow> parseMembers m d s = Some (kvs, r)"
  using parse_fuel by blast+


subsection \<open>A written document reads back\<close>

text \<open>What may follow a value inside a compact document.\<close>

definition stops :: "string \<Rightarrow> bool" where
  "stops x \<longleftrightarrow> x = [] \<or> hd x \<in> set '',]}''"

fun jsonOk :: "nat \<Rightarrow> json \<Rightarrow> bool" where
  "jsonOk d JNull = True"
| "jsonOk d (JBool b) = True"
| "jsonOk d (JNum lit) = (scanNumber lit = Some (lit, []))"
| "jsonOk d (JStr s) = valid_utf8 s"
| "jsonOk d (JArr vs) = (0 < d \<and> list_all (jsonOk (d - 1)) vs)"
| "jsonOk d (JObj kvs) =
     (0 < d \<and> list_all (\<lambda>kv. valid_utf8 (fst kv) \<and> jsonOk (d - 1) (snd kv)) kvs)"

lemma takeWhile_stops:
  "stops x \<Longrightarrow> takeWhile isDigit (s @ x) = takeWhile isDigit s"
  "stops x \<Longrightarrow> dropWhile isDigit (s @ x) = dropWhile isDigit s @ x"
proof -
  assume st: "stops x"
  have "takeWhile isDigit x = []" "dropWhile isDigit x = x"
    using st by (cases x; auto simp: stops_def isDigit_def)+
  then show "takeWhile isDigit (s @ x) = takeWhile isDigit s"
    and "dropWhile isDigit (s @ x) = dropWhile isDigit s @ x"
    by (induction s) auto
qed

lemma scanInt_append:
  "scanInt s = Some (i, r) \<Longrightarrow> stops x \<Longrightarrow> scanInt (s @ x) = Some (i, r @ x)"
  using takeWhile_stops [of x s]
  by (auto simp: scanInt_def split: list.splits if_splits)

lemma scanFrac_append:
  "scanFrac s = Some (i, r) \<Longrightarrow> stops x \<Longrightarrow> scanFrac (s @ x) = Some (i, r @ x)"
  using takeWhile_stops [of x "tl s"]
  by (cases s; cases x) (auto simp: scanFrac_def stops_def split: if_splits)

lemma splitSign_append:
  "stops x \<Longrightarrow> splitSign (s @ x) = (fst (splitSign s), snd (splitSign s) @ x)"
  by (cases s; cases x) (auto simp: splitSign_def stops_def)

lemma scanExp_append:
  assumes "scanExp s = Some (i, r)" "stops x"
  shows "scanExp (s @ x) = Some (i, r @ x)"
proof (cases s)
  case Nil
  with assms show ?thesis by (cases x) (auto simp: scanExp_def stops_def)
next
  case (Cons c t)
  with assms show ?thesis
    using takeWhile_stops [OF assms(2), of "snd (splitSign t)"] splitSign_append [OF assms(2), of t]
    by (auto simp: scanExp_def case_prod_beta Let_def split: if_splits)
qed

lemma scanUnsigned_append:
  assumes "scanUnsigned s = Some (lit, r)" "stops x"
  shows "scanUnsigned (s @ x) = Some (lit, r @ x)"
proof -
  from assms(1) obtain i u f v e where
      "scanInt s = Some (i, u)" "scanFrac u = Some (f, v)" "scanExp v = Some (e, r)"
      and lit: "lit = i @ f @ e"
    by (auto simp: scanUnsigned_def split: option.splits)
  then have "scanInt (s @ x) = Some (i, u @ x)" "scanFrac (u @ x) = Some (f, v @ x)"
      "scanExp (v @ x) = Some (e, r @ x)"
    using assms(2) by (simp_all add: scanInt_append scanFrac_append scanExp_append)
  then show ?thesis by (simp add: scanUnsigned_def lit)
qed

lemma scanNumber_append:
  assumes "scanNumber s = Some (lit, r)" "stops x"
  shows "scanNumber (s @ x) = Some (lit, r @ x)"
proof (cases s)
  case Nil
  with assms(1) show ?thesis by (simp add: scanNumber_def)
next
  case (Cons c t)
  show ?thesis
  proof (cases "c = CHR ''-''")
    case True
    with assms Cons show ?thesis
      by (auto simp: scanNumber_def scanUnsigned_append elim!: prepend_SomeE)
  next
    case False
    with assms Cons have "scanUnsigned (s @ x) = Some (lit, r @ x)"
      by (simp add: scanNumber_def scanUnsigned_append del: append_Cons)
    with False Cons show ?thesis by (simp add: scanNumber_def)
  qed
qed

lemma scanUnsigned_head: "scanUnsigned s = Some (lit, r) \<Longrightarrow> \<exists>c t. s = c # t \<and> isDigit c"
  by (cases s) (auto simp: scanUnsigned_def scanInt_def isDigit_def split: option.splits if_splits)

lemma scanNumber_head:
  "scanNumber s = Some (lit, r) \<Longrightarrow> \<exists>c t. s = c # t \<and> (c = CHR ''-'' \<or> isDigit c)"
  using scanUnsigned_head [of s lit r]
  by (auto simp: scanNumber_def split: list.splits if_splits)

text \<open>The first byte of a written value.\<close>

definition valueHead :: "char \<Rightarrow> bool" where
  "valueHead c \<longleftrightarrow> c \<in> set ''{[tfn-'' \<or> c = CHR 0x22 \<or> isDigit c"

lemma jsonText_head: "jsonOk d v \<Longrightarrow> \<exists>c t. jsonText v = c # t \<and> valueHead c"
  by (cases v) (auto simp: valueHead_def jsonQuote_def dest!: scanNumber_head)

lemma valueHead_simps:
  assumes "valueHead c"
  shows "\<not> isWS c" "c \<noteq> CHR '']''" "c \<noteq> CHR ''}''"
  using assms by (auto simp: valueHead_def isWS_def isDigit_def)

lemma expect_Cons: "\<not> isWS c \<Longrightarrow> expect e (c # t) = (if c = e then Some t else None)"
  by (simp add: expect_def skipWS_def)

lemma skipWS_Cons: "\<not> isWS c \<Longrightarrow> skipWS (c # t) = c # t"
  by (simp add: skipWS_def)

lemma isWS_simps [simp]:
  "\<not> isWS CHR ''{''" "\<not> isWS CHR ''}''" "\<not> isWS CHR ''[''" "\<not> isWS CHR '']''"
  "\<not> isWS CHR '',''" "\<not> isWS CHR '':''" "\<not> isWS CHR 0x22"
  by (simp_all add: isWS_def)

lemma parseStr_jsonQuote:
  "valid_utf8 s \<Longrightarrow> \<exists>t. jsonQuote s @ x = CHR 0x22 # t \<and> parseStr t = Some (s, x)"
  using parseStr_jsonEscape [of s x] by (auto simp: jsonQuote_def)

abbreviation parses :: "nat \<Rightarrow> json \<Rightarrow> bool" where
  "parses d v \<equiv> (\<forall>x. stops x \<longrightarrow> (\<exists>n. parseValue n d (jsonText v @ x) = Some (v, x)))"

lemma parseElems_jsonText:
  assumes "vs \<noteq> []" and "\<forall>v\<in>set vs. parses d v"
  shows "\<exists>n. parseElems n d (Join (map jsonText vs) '','' @ '']'' @ x) = Some (vs, x)"
  using assms
proof (induction vs rule: induct_list012)
  case (2 v)
  then have "stops ('']'' @ x) \<longrightarrow> (\<exists>n. parseValue n d (jsonText v @ '']'' @ x) = Some (v, '']'' @ x))"
    by simp
  then obtain n where "parseValue n d (jsonText v @ '']'' @ x) = Some (v, '']'' @ x)"
    by (auto simp: stops_def)
  then have "parseElems (Suc n) d (Join (map jsonText [v]) '','' @ '']'' @ x) = Some ([v], x)"
    by (simp add: expect_Cons)
  then show ?case by blast
next
  case (3 v w vs)
  let ?t = "Join (map jsonText (w # vs)) '','' @ '']'' @ x"
  from 3 obtain n where n: "parseElems n d ?t = Some (w # vs, x)" by auto
  from "3.prems"(2) have "stops ('','' @ ?t) \<longrightarrow>
      (\<exists>n. parseValue n d (jsonText v @ '','' @ ?t) = Some (v, '','' @ ?t))" by simp
  then obtain k where k: "parseValue k d (jsonText v @ '','' @ ?t) = Some (v, '','' @ ?t)"
    by (auto simp: stops_def)
  obtain m where m: "2 * length (jsonText v @ '','' @ ?t) + 2 \<le> m" by blast
  have "parseValue m d (jsonText v @ '','' @ ?t) = Some (v, '','' @ ?t)"
    by (rule parse_enough(1) [OF k]) (use m in simp)
  moreover have "parseElems m d ?t = Some (w # vs, x)"
    by (rule parse_enough(2) [OF n]) (use m in simp)
  ultimately have "parseElems (Suc m) d (jsonText v @ '','' @ ?t) = Some (v # w # vs, x)"
    by (simp add: expect_Cons)
  then show ?case by (intro exI [of _ "Suc m"]) (simp del: parseElems.simps)
qed simp


lemma parseMembers_jsonText:
  assumes "kvs \<noteq> []" and "\<forall>kv\<in>set kvs. valid_utf8 (fst kv) \<and> parses d (snd kv)"
  shows "\<exists>n. parseMembers n d
    (Join (map (\<lambda>kv. jsonQuote (fst kv) @ '':'' @ jsonText (snd kv)) kvs) '','' @ ''}'' @ x) =
      Some (kvs, x)"
  using assms
proof (induction kvs rule: induct_list012)
  case (2 kv)
  obtain k v where kv: "kv = (k, v)" by (cases kv)
  let ?x = "''}'' @ x"
  have "stops ?x" by (simp add: stops_def)
  with 2 kv obtain n where n: "parseValue n d (jsonText v @ ?x) = Some (v, ?x)" by fastforce
  from 2 kv parseStr_jsonQuote [of k "'':'' @ jsonText v @ ?x"] obtain t
    where "jsonQuote k @ '':'' @ jsonText v @ ?x = CHR 0x22 # t"
      "parseStr t = Some (k, '':'' @ jsonText v @ ?x)" by auto
  with n have "parseMembers (Suc n) d (jsonQuote k @ '':'' @ jsonText v @ ?x) = Some ([(k, v)], x)"
    by (simp add: expect_Cons)
  then show ?case by (intro exI [of _ "Suc n"]) (simp add: kv del: parseMembers.simps)
next
  case (3 kv kw kvs)
  obtain k v where kv: "kv = (k, v)" by (cases kv)
  let ?m = "\<lambda>kv. jsonQuote (fst kv) @ '':'' @ jsonText (snd kv)"
  let ?x = "'','' @ Join (map ?m (kw # kvs)) '','' @ ''}'' @ x"
  have "stops ?x" by (simp add: stops_def)
  with "3.prems"(2) kv obtain i where i: "parseValue i d (jsonText v @ ?x) = Some (v, ?x)"
    by fastforce
  from "3.prems"(2) kv parseStr_jsonQuote [of k "'':'' @ jsonText v @ ?x"] obtain t
    where t: "jsonQuote k @ '':'' @ jsonText v @ ?x = CHR 0x22 # t"
      "parseStr t = Some (k, '':'' @ jsonText v @ ?x)" by auto
  from 3 obtain j where j: "parseMembers j d (tl ?x) = Some (kw # kvs, x)" by auto
  obtain m where m: "2 * length (jsonText v @ ?x) + 2 \<le> m" by blast
  have "parseValue m d (jsonText v @ ?x) = Some (v, ?x)"
    by (rule parse_enough(1) [OF i]) (use m in simp)
  moreover have "parseMembers m d (tl ?x) = Some (kw # kvs, x)"
    by (rule parse_enough(3) [OF j]) (use m in simp)
  ultimately have "parseMembers (Suc m) d (jsonQuote k @ '':'' @ jsonText v @ ?x) =
      Some ((k, v) # kw # kvs, x)"
    using t by (simp add: expect_Cons)
  then show ?case by (intro exI [of _ "Suc m"]) (simp add: kv del: parseMembers.simps)
qed simp

lemma parseScalar_jsonText:
  assumes "jsonOk d v" "stops x" "\<not> (\<exists>vs. v = JArr vs)" "\<not> (\<exists>kvs. v = JObj kvs)"
  shows "parseScalar (jsonText v @ x) = Some (v, x)"
proof (cases v)
  case (JNum lit)
  with assms(1,2) have "scanNumber (lit @ x) = Some (lit, x)"
    using scanNumber_append [of lit lit "[]" x] by simp
  with scanNumber_head [OF this] JNum show ?thesis
    by (auto simp: parseScalar_def isDigit_def)
next
  case (JStr s)
  with assms(1) parseStr_jsonQuote [of s x] show ?thesis
    by (auto simp: parseScalar_def)
qed (use assms in \<open>auto simp: parseScalar_def scanLiteral_def\<close>)

lemma parses_scalar:
  assumes "jsonOk d v" "\<not> (\<exists>vs. v = JArr vs)" "\<not> (\<exists>kvs. v = JObj kvs)"
  shows "parses d v"
proof (intro allI impI exI)
  fix x assume "stops x"
  obtain c t where c: "jsonText v = c # t" "valueHead c" using jsonText_head [OF assms(1)] by blast
  have "c \<noteq> CHR ''{'' \<and> c \<noteq> CHR ''[''"
  proof (cases v)
    case (JNum lit)
    with assms(1) c(1) scanNumber_head [of lit lit "[]"] show ?thesis by (auto simp: isDigit_def)
  qed (use assms c(1) in \<open>auto simp: jsonQuote_def split: if_splits\<close>)
  with c parseScalar_jsonText [OF assms(1) \<open>stops x\<close> assms(2,3)]
  show "parseValue (Suc 0) d (jsonText v @ x) = Some (v, x)"
    by (simp add: expect_Cons skipWS_Cons valueHead_simps)
qed

lemma parses_array:
  assumes ok: "jsonOk d (JArr vs)" and parts: "\<And>v. v \<in> set vs \<Longrightarrow> parses (d - 1) v"
  shows "parses d (JArr vs)"
proof (intro allI impI)
  fix x assume "stops x"
  show "\<exists>n. parseValue n d (jsonText (JArr vs) @ x) = Some (JArr vs, x)"
  proof (cases vs)
    case Nil
    with ok have "parseValue (Suc 0) d (jsonText (JArr vs) @ x) = Some (JArr vs, x)"
      by (simp add: expect_Cons)
    then show ?thesis by blast
  next
    case (Cons v ws)
    from parts parseElems_jsonText [of vs "d - 1" x] Cons obtain n
      where n: "parseElems n (d - 1) (Join (map jsonText vs) '','' @ '']'' @ x) = Some (vs, x)"
      by auto
    from ok Cons jsonText_head [of "d - 1" v] obtain c t where "jsonText v = c # t" "valueHead c" by auto
    with Cons have "expect CHR '']'' (Join (map jsonText vs) '','' @ '']'' @ x) = None"
      by (cases ws) (auto simp: expect_Cons valueHead_simps)
    with n ok have "parseValue (Suc n) d (jsonText (JArr vs) @ x) = Some (JArr vs, x)"
      by (simp add: expect_Cons)
    then show ?thesis by blast
  qed
qed

lemma parses_object:
  assumes ok: "jsonOk d (JObj kvs)" and parts: "\<And>kv. kv \<in> set kvs \<Longrightarrow> parses (d - 1) (snd kv)"
  shows "parses d (JObj kvs)"
proof (intro allI impI)
  let ?m = "\<lambda>kv. jsonQuote (fst kv) @ '':'' @ jsonText (snd kv)"
  fix x assume "stops x"
  show "\<exists>n. parseValue n d (jsonText (JObj kvs) @ x) = Some (JObj kvs, x)"
  proof (cases kvs)
    case Nil
    with ok have "parseValue (Suc 0) d (jsonText (JObj kvs) @ x) = Some (JObj kvs, x)"
      by (simp add: expect_Cons)
    then show ?thesis by blast
  next
    case (Cons kv ws)
    from ok parts have "\<forall>kv\<in>set kvs. valid_utf8 (fst kv) \<and> parses (d - 1) (snd kv)"
      by (auto simp: list_all_iff)
    with parseMembers_jsonText [of kvs "d - 1" x] Cons obtain n
      where n: "parseMembers n (d - 1) (Join (map ?m kvs) '','' @ ''}'' @ x) = Some (kvs, x)"
      by auto
    have "expect CHR ''}'' (Join (map ?m kvs) '','' @ ''}'' @ x) = None"
      using Cons by (cases ws) (auto simp: expect_Cons jsonQuote_def)
    with n ok have "parseValue (Suc n) d (jsonText (JObj kvs) @ x) = Some (JObj kvs, x)"
      by (simp add: expect_Cons)
    then show ?thesis by blast
  qed
qed

lemma parses_jsonText: "jsonOk d v \<Longrightarrow> parses d v"
proof (induction d v rule: jsonOk.induct)
  case (5 d vs)
  show ?case by (rule parses_array [OF 5(2)]) (use 5 in \<open>auto simp: list_all_iff\<close>)
next
  case (6 d kvs)
  show ?case by (rule parses_object [OF 6(2)]) (use 6 in \<open>auto simp: list_all_iff\<close>)
qed (use parses_scalar in blast)+

theorem parseJSON_jsonText:
  assumes "jsonOk maxNestingDepth v"
  shows "parseJSON (jsonText v) = Some v"
proof -
  from parses_jsonText [OF assms] have "stops [] \<longrightarrow>
      (\<exists>n. parseValue n maxNestingDepth (jsonText v @ []) = Some (v, []))" by blast
  then obtain n where "parseValue n maxNestingDepth (jsonText v) = Some (v, [])"
    by (auto simp: stops_def)
  from parse_enough(1) [OF this, of "2 * length (jsonText v) + 2"]
  have "parseValue (2 * length (jsonText v) + 2) maxNestingDepth (jsonText v) = Some (v, [])"
    by simp
  then show ?thesis unfolding parseJSON_def by (simp only: option.case prod.case) (simp add: skipWS_def)
qed


subsection \<open>Decoding into Go values\<close>

text \<open>
  Struct fields are matched with member names up to case folding (\<^verbatim>\<open>foldName\<close>): the two
  non-ASCII characters that fold to an ASCII letter are U+212A and U+017F. A member that no
  field matches is ignored, \<^verbatim>\<open>null\<close> leaves a value as it is (and makes a pointer nil), and a
  member of another type is an error.
\<close>

definition foldRune :: "nat \<Rightarrow> nat" where
  "foldRune r =
     (if 97 \<le> r \<and> r \<le> 122 then r - 32 else if r = 0x212A then 75 else if r = 0x17F then 83 else r)"

definition foldName :: "string \<Rightarrow> string" where
  "foldName s = MapRunes foldRune s"

definition isField :: "string \<Rightarrow> string \<Rightarrow> bool" where
  "isField name key \<longleftrightarrow> key = name \<or> foldName key = foldName name"

fun decodeMembers :: "(string \<Rightarrow> json \<Rightarrow> 'a \<Rightarrow> 'a option) \<Rightarrow> (string \<times> json) list \<Rightarrow> 'a \<Rightarrow> 'a option" where
  "decodeMembers f [] a = Some a"
| "decodeMembers f ((k, v) # kvs) a =
     (case f k v a of None \<Rightarrow> None | Some b \<Rightarrow> decodeMembers f kvs b)"

definition decodeStruct :: "(string \<Rightarrow> json \<Rightarrow> 'a \<Rightarrow> 'a option) \<Rightarrow> json \<Rightarrow> 'a \<Rightarrow> 'a option" where
  "decodeStruct f j a =
     (case j of JNull \<Rightarrow> Some a | JObj kvs \<Rightarrow> decodeMembers f kvs a | _ \<Rightarrow> None)"

text \<open>\<^verbatim>\<open>strconv.ParseInt(literal, 10, bits)\<close>.\<close>

definition parseInt :: "nat \<Rightarrow> string \<Rightarrow> int option" where
  "parseInt bits lit =
     (let (neg, ds) = (case lit of [] \<Rightarrow> (False, lit)
                       | c # t \<Rightarrow> if c = CHR ''-'' then (True, t) else (False, lit));
          v = (if neg then - int (digitsValue ds) else int (digitsValue ds))
      in if ds \<noteq> [] \<and> list_all isDigit ds \<and> - (2 ^ (bits - 1)) \<le> v \<and> v < 2 ^ (bits - 1)
         then Some v else None)"

fun decodeInt :: "nat \<Rightarrow> json \<Rightarrow> int \<Rightarrow> int option" where
  "decodeInt bits (JNum lit) old = parseInt bits lit"
| "decodeInt bits JNull old = Some old"
| "decodeInt bits _ old = None"

fun decodeIntPtr :: "nat \<Rightarrow> json \<Rightarrow> int option option" where
  "decodeIntPtr bits (JNum lit) = map_option Some (parseInt bits lit)"
| "decodeIntPtr bits JNull = Some None"
| "decodeIntPtr bits _ = None"

fun decodeBool :: "json \<Rightarrow> bool \<Rightarrow> bool option" where
  "decodeBool (JBool b) old = Some b"
| "decodeBool JNull old = Some old"
| "decodeBool _ old = None"

fun decodeString :: "json \<Rightarrow> string \<Rightarrow> string option" where
  "decodeString (JStr s) old = Some s"
| "decodeString JNull old = Some old"
| "decodeString _ old = None"

fun decodeStringPtr :: "json \<Rightarrow> string option option" where
  "decodeStringPtr (JStr s) = Some (Some s)"
| "decodeStringPtr JNull = Some None"
| "decodeStringPtr _ = None"

fun decodeAll :: "(json \<Rightarrow> 'a option) \<Rightarrow> json list \<Rightarrow> 'a list option" where
  "decodeAll f [] = Some []"
| "decodeAll f (j # js) =
     (case f j of None \<Rightarrow> None | Some a \<Rightarrow> map_option ((#) a) (decodeAll f js))"

fun decodeSlice :: "(json \<Rightarrow> 'a option) \<Rightarrow> json \<Rightarrow> 'a list option" where
  "decodeSlice f (JArr js) = decodeAll f js"
| "decodeSlice f JNull = Some []"
| "decodeSlice f _ = None"

lemma foldName_ASCII: "isASCII s \<Longrightarrow> foldName s = map upperByte s"
proof -
  assume a: "isASCII s"
  have "EncodeRune (foldRune (byte c)) = [upperByte c]" if "byte c < 128" for c
    using that by (auto simp: EncodeRune_def foldRune_def upperByte_def)
  with a have "concat (map (\<lambda>c. EncodeRune (foldRune (byte c))) s) = map upperByte s"
    by (induction s) (auto simp: isASCII_def)
  then show ?thesis
    by (simp add: foldName_def MapRunes_def isASCII_runesOf [OF a] comp_def)
qed

lemma isField_ASCII:
  "isASCII name \<Longrightarrow> isASCII key \<Longrightarrow> isField name key \<longleftrightarrow> map upperByte key = map upperByte name"
  by (auto simp: isField_def foldName_ASCII)

lemma isDigit_not_minus: "isDigit c \<Longrightarrow> c \<noteq> CHR ''-''"
  by (auto simp: isDigit_def)

lemma parseInt_Itoa:
  assumes "- (2 ^ (bits - 1)) \<le> i" "i < 2 ^ (bits - 1)"
  shows "parseInt bits (Itoa i) = Some i"
proof (cases "i < 0")
  case True
  with assms show ?thesis
    using natString_digits [of "nat (- i)"]
    by (simp add: parseInt_def Itoa_def list_all_iff)
next
  case False
  obtain c t where ct: "natString (nat i) = c # t" by (cases "natString (nat i)") auto
  with natString_digits [of "nat i"] have "c \<noteq> CHR ''-''" by (auto dest: isDigit_not_minus)
  with False assms ct show ?thesis
    using natString_digits [of "nat i"] digitsValue_natString [of "nat i"]
    by (simp add: parseInt_def Itoa_def list_all_iff)
qed

lemma scanUnsigned_natString: "scanUnsigned (natString n) = Some (natString n, [])"
proof -
  obtain c t where ct: "natString n = c # t" by (cases "natString n") auto
  have digits: "\<forall>c\<in>set (natString n). isDigit c" by (rule natString_digits)
  have "scanInt (natString n) = Some (natString n, [])"
  proof (cases "c = CHR ''0''")
    case True
    with ct natString_leading_zero [of n] have "n = 0" by simp
    then show ?thesis by (simp add: scanInt_def)
  next
    case False
    from digits have "takeWhile isDigit (natString n) = natString n"
        "dropWhile isDigit (natString n) = []"
      by (simp_all add: takeWhile_eq_all_conv dropWhile_eq_Nil_conv)
    with False ct digits show ?thesis by (simp add: scanInt_def)
  qed
  then show ?thesis by (simp add: scanUnsigned_def scanFrac_def scanExp_def)
qed

lemma scanNumber_Itoa: "scanNumber (Itoa i) = Some (Itoa i, [])"
proof (cases "i < 0")
  case True
  then show ?thesis by (simp add: scanNumber_def Itoa_def scanUnsigned_natString)
next
  case False
  obtain c t where ct: "natString (nat i) = c # t" by (cases "natString (nat i)") auto
  with natString_digits [of "nat i"] have "c \<noteq> CHR ''-''" by (auto dest: isDigit_not_minus)
  with ct False scanUnsigned_natString [of "nat i"] show ?thesis
    by (simp add: scanNumber_def Itoa_def)
qed

lemma decodeMembers_append:
  "decodeMembers f (xs @ ys) a = Option.bind (decodeMembers f xs a) (decodeMembers f ys)"
  by (induction f xs a rule: decodeMembers.induct) (auto split: option.splits)

end
