(* ===== verification/TTL.thy ===== *)
theory TTL
  imports Prelude
begin

text \<open>
  Cache lifetimes: \<^verbatim>\<open>cache/config.go\<close>, \<^verbatim>\<open>cache/ttl.go\<close> and the key types and tokens of
  \<^verbatim>\<open>enrichment/cache.go\<close>.

  A Go enumeration is an \<^verbatim>\<open>int\<close>, so a value outside the named constants exists; \<open>KeyOther\<close>,
  \<open>StateOther\<close> and \<open>LayerOther\<close> stand for those, which the \<^verbatim>\<open>default\<close> branches handle.
\<close>

datatype CacheKeyType = CacheKeyFirstParty | CacheKeyThirdParty | CacheKeyDevice | KeyOther int

datatype CacheState = CacheMiss | CacheHit | CacheNegative | CacheInProgress | StateOther int

datatype CacheLayer = CacheLayerNone | CacheLayerL1 | CacheLayerL2 | LayerOther int

fun CacheState_Token :: "CacheState \<Rightarrow> string" where
  "CacheState_Token CacheMiss = ''miss''"
| "CacheState_Token CacheHit = ''hit''"
| "CacheState_Token CacheNegative = ''negative''"
| "CacheState_Token CacheInProgress = ''in_progress''"
| "CacheState_Token (StateOther _) = ''unknown''"

fun CacheLayer_Token :: "CacheLayer \<Rightarrow> string" where
  "CacheLayer_Token CacheLayerL1 = ''l1''"
| "CacheLayer_Token CacheLayerL2 = ''l2''"
| "CacheLayer_Token _ = ''none''"

fun CacheKeyType_Token :: "CacheKeyType \<Rightarrow> string" where
  "CacheKeyType_Token CacheKeyFirstParty = ''first_party''"
| "CacheKeyType_Token CacheKeyThirdParty = ''third_party''"
| "CacheKeyType_Token CacheKeyDevice = ''device''"
| "CacheKeyType_Token (KeyOther _) = ''unknown''"

record CacheConfig =
  Enabled :: bool
  Provider :: string
  TTLSeconds :: int
  MaxKeys :: int
  MaxSize :: int
  TTLCeilingFirstPartySeconds :: int
  TTLCeilingThirdPartySeconds :: int
  TTLCeilingDeviceSeconds :: int
  NegativeTTLSeconds :: int

record TTLPolicy =
  Default :: duration
  FirstPartyCeiling :: duration
  ThirdPartyCeiling :: duration
  DeviceCeiling :: duration
  NegativeTTL :: duration

text \<open>\<^verbatim>\<open>time.Duration(value) * time.Second\<close> is a 64-bit product and can wrap.\<close>

definition Config_TTLPolicy :: "CacheConfig \<Rightarrow> TTLPolicy" where
  "Config_TTLPolicy config =
     (let seconds = (\<lambda>value. mulDuration value time_Second) in
      \<lparr>Default = seconds (TTLSeconds config),
       FirstPartyCeiling = seconds (TTLCeilingFirstPartySeconds config),
       ThirdPartyCeiling = seconds (TTLCeilingThirdPartySeconds config),
       DeviceCeiling = seconds (TTLCeilingDeviceSeconds config),
       NegativeTTL = seconds (NegativeTTLSeconds config)\<rparr>)"

fun CeilingFor :: "TTLPolicy \<Rightarrow> CacheKeyType \<Rightarrow> duration" where
  "CeilingFor policy CacheKeyFirstParty = FirstPartyCeiling policy"
| "CeilingFor policy CacheKeyThirdParty = ThirdPartyCeiling policy"
| "CeilingFor policy CacheKeyDevice = DeviceCeiling policy"
| "CeilingFor policy (KeyOther _) = Default policy"

definition EffectiveTTL :: "TTLPolicy \<Rightarrow> CacheKeyType \<Rightarrow> duration \<Rightarrow> duration" where
  "EffectiveTTL policy keyType cacheTTL =
     (let base = (if cacheTTL > 0 then cacheTTL else Default policy)
      in min base (CeilingFor policy keyType))"

definition NegativeTTLFor :: "TTLPolicy \<Rightarrow> duration \<Rightarrow> duration" where
  "NegativeTTLFor policy cacheTTL =
     (if cacheTTL > 0 then min cacheTTL (FirstPartyCeiling policy) else NegativeTTL policy)"

subsection \<open>A well-formed policy\<close>

text \<open>Every lifetime of the policy is a positive duration, as in the shipped configurations.\<close>

definition policy_ok :: "TTLPolicy \<Rightarrow> bool" where
  "policy_ok p \<longleftrightarrow> 0 < Default p \<and> 0 < FirstPartyCeiling p \<and> 0 < ThirdPartyCeiling p \<and>
     0 < DeviceCeiling p \<and> 0 < NegativeTTL p"

definition config_seconds_ok :: "int \<Rightarrow> bool" where
  "config_seconds_ok n \<longleftrightarrow> 0 < n \<and> n \<le> 9223372036"

definition config_ok :: "CacheConfig \<Rightarrow> bool" where
  "config_ok c \<longleftrightarrow> config_seconds_ok (TTLSeconds c) \<and>
     config_seconds_ok (TTLCeilingFirstPartySeconds c) \<and>
     config_seconds_ok (TTLCeilingThirdPartySeconds c) \<and>
     config_seconds_ok (TTLCeilingDeviceSeconds c) \<and> config_seconds_ok (NegativeTTLSeconds c)"

lemma seconds_no_wrap:
  "config_seconds_ok n \<Longrightarrow> mulDuration n time_Second = n * time_Second"
  by (simp add: config_seconds_ok_def time_Second_def mulDuration_def wrap64_small)

lemma config_policy_ok:
  assumes "config_ok c"
  shows "policy_ok (Config_TTLPolicy c)"
  using assms
  by (simp add: config_ok_def policy_ok_def Config_TTLPolicy_def Let_def seconds_no_wrap)
     (simp add: config_seconds_ok_def time_Second_def)

lemma CeilingFor_pos: "policy_ok p \<Longrightarrow> 0 < CeilingFor p t"
  by (cases t) (auto simp: policy_ok_def)

lemma EffectiveTTL_le_ceiling: "EffectiveTTL p t d \<le> CeilingFor p t"
  by (simp add: EffectiveTTL_def)

lemma EffectiveTTL_pos: "policy_ok p \<Longrightarrow> 0 < EffectiveTTL p t d"
  by (auto simp: EffectiveTTL_def CeilingFor_pos min_def Let_def policy_ok_def)

lemma NegativeTTLFor_pos: "policy_ok p \<Longrightarrow> 0 < NegativeTTLFor p d"
  by (auto simp: NegativeTTLFor_def policy_ok_def)

end
