(* ===== verification/OpenRTB.thy ===== *)
theory OpenRTB
  imports Prelude
begin

text \<open>
  The OpenRTB objects of package \<^verbatim>\<open>openrtb2\<close> (a library), reduced to the fields the sources
  read or write, with Go's pointers as options. The fields of an EID and of a UID that the
  sources only copy are kept as one opaque payload, so that statements about EIDs that are
  cached, returned and attached are statements about whole EIDs.
\<close>

record UID =
  UID_ID :: string
  UID_rest :: string

record EID =
  EID_Source :: string
  EID_UIDs :: "UID list"
  EID_rest :: string

record BrandVersion =
  Brand :: string
  Version :: "string list"

record UserAgentObj =
  UA_Source :: int
  Browsers :: "BrandVersion list"
  Mobile :: "int option"
  Platform :: "BrandVersion option"
  Architecture :: string
  Bitness :: string
  Model :: string

record Device =
  IP :: string
  IPv6 :: string
  UA :: string
  SUA :: "UserAgentObj option"
  IFA :: string
  Lmt :: "int option"
  DeviceType :: int

record Site =
  Domain :: string
  Page :: string

record App =
  Bundle :: string
  App_Name :: string

record User =
  User_EIDs :: "EID list"
  Consent :: string
  User_Ext :: bytes

record Regs =
  GDPR :: "int option"
  USPrivacy :: string
  GPP :: string
  GPPSID :: "int list"
  Regs_Ext :: bytes

record BidRequest =
  BidRequest_ID :: string
  BidRequest_Site :: "Site option"
  BidRequest_App :: "App option"
  BidRequest_User :: "User option"
  BidRequest_Device :: "Device option"
  BidRequest_Regs :: "Regs option"

end
