(* ===== verification/Contracts.thy ===== *)
theory Contracts
  imports TTL OpenRTB
begin

text \<open>
  The host-facing contract of package \<^verbatim>\<open>enrichment\<close> (\<^verbatim>\<open>enrichment.go\<close>, \<^verbatim>\<open>cache.go\<close>): requests,
  results, outcomes, wait modes, and the values that cross the cache interface.
\<close>

datatype Outcome =
    OutcomeUnset
  | OutcomeEnriched
  | OutcomeNoIDs
  | OutcomeCachedNoIDs
  | OutcomeUnresolved
  | OutcomeInProgress
  | OutcomeNoEndpoint
  | OutcomeWaitExpired
  | OutcomeBackgroundLimit

fun Outcome_string :: "Outcome \<Rightarrow> string" where
  "Outcome_string OutcomeUnset = ''''"
| "Outcome_string OutcomeEnriched = ''enriched''"
| "Outcome_string OutcomeNoIDs = ''no_ids''"
| "Outcome_string OutcomeCachedNoIDs = ''no_ids_cached''"
| "Outcome_string OutcomeUnresolved = ''unresolved''"
| "Outcome_string OutcomeInProgress = ''in_progress''"
| "Outcome_string OutcomeNoEndpoint = ''no_endpoint''"
| "Outcome_string OutcomeWaitExpired = ''wait_expired''"
| "Outcome_string OutcomeBackgroundLimit = ''background_limit''"

datatype WaitMode = WaitModeSync | WaitModeAsync | WaitModeHybrid

record Request =
  PartnerID :: string
  Endpoint :: string
  Auction :: "BidRequest option"
  Timeout :: duration
  WaitTimeout :: "duration option"
  CacheEnabled :: bool

definition normalizeWaitTimeout :: "duration \<Rightarrow> duration option \<Rightarrow> duration \<times> WaitMode" where
  "normalizeWaitTimeout timeout wait =
     (case wait of None \<Rightarrow> (timeout, WaitModeSync)
      | Some w \<Rightarrow>
          if timeout \<le> 0 \<or> w \<ge> timeout then (timeout, WaitModeSync)
          else if w \<le> 0 then (0, WaitModeAsync)
          else (w, WaitModeHybrid))"

record Result =
  Result_EIDs :: "EID list"
  Result_CacheTTL :: duration
  Result_ABTestUUID :: string
  Result_TerminationCause :: "int option"
  Result_Outcome :: Outcome
  Result_CacheLayer :: CacheLayer

definition emptyResult :: Result where
  "emptyResult =
     \<lparr>Result_EIDs = [], Result_CacheTTL = 0, Result_ABTestUUID = [],
      Result_TerminationCause = None, Result_Outcome = OutcomeUnset,
      Result_CacheLayer = CacheLayerNone\<rparr>"

definition FromCache :: "Result \<Rightarrow> bool" where
  "FromCache result \<longleftrightarrow> Result_CacheLayer result \<noteq> CacheLayerNone"

record CacheKey =
  Key_Value :: string
  Key_Type :: CacheKeyType

record CacheResult =
  CR_State :: CacheState
  CR_Layer :: CacheLayer
  CR_KeyType :: CacheKeyType
  CR_Result :: Result

record ResultMetadata =
  Meta_CacheTTL :: duration
  Meta_ABTestUUID :: string
  Meta_TerminationCause :: "int option"

lemma normalizeWaitTimeout_cases:
  assumes "0 < timeout"
  shows "normalizeWaitTimeout timeout wait = (w, mode) \<Longrightarrow>
    0 \<le> w \<and> w \<le> timeout \<and>
    (mode = WaitModeSync \<longleftrightarrow> wait = None \<or> timeout \<le> the wait) \<and>
    (mode = WaitModeAsync \<longleftrightarrow> (\<exists>x. wait = Some x \<and> x \<le> 0)) \<and>
    (mode = WaitModeHybrid \<longleftrightarrow> (\<exists>x. wait = Some x \<and> 0 < x \<and> x < timeout)) \<and>
    (mode = WaitModeHybrid \<longrightarrow> wait = Some w \<and> 0 < w)"
  using assms by (auto simp: normalizeWaitTimeout_def split: option.splits if_splits)

end
