(* ===== verification/Entry.thy ===== *)
theory Entry
  imports Json Contracts
begin

text \<open>
  \<^verbatim>\<open>cache/entry.go\<close>: the cache's wire model and its codec.

  How an EID is written and read is decided by the struct tags of the OpenRTB library; an
  \<open>eid_codec\<close> supplies it (a \<open>None\<close> of \<open>marshalEID\<close> is an EID that \<^verbatim>\<open>json.Marshal\<close> rejects).
  A \<open>clock_state\<close> holds the readings the injected clock will give, one for each call of
  \<^verbatim>\<open>Now\<close>, as instants in nanoseconds.
\<close>

record eid_codec =
  marshalEID :: "EID \<Rightarrow> json option"
  unmarshalEID :: "json \<Rightarrow> EID option"

record clock_state =
  readings :: "nat \<Rightarrow> int"
  reads :: nat

definition Now :: "clock_state \<Rightarrow> int \<times> clock_state" where
  "Now clk = (readings clk (reads clk), clk\<lparr>reads := Suc (reads clk)\<rparr>)"

record entry =
  entry_EIDs :: "EID list"
  entry_ABTestUUID :: string
  entry_TerminationCause :: "int option"
  entry_Negative :: bool
  entry_InProgress :: bool
  entry_ExpiresAt :: int

definition emptyEntry :: entry where
  "emptyEntry =
     \<lparr>entry_EIDs = [], entry_ABTestUUID = [], entry_TerminationCause = None,
      entry_Negative = False, entry_InProgress = False, entry_ExpiresAt = 0\<rparr>"

definition expiry :: "duration \<Rightarrow> clock_state \<Rightarrow> int \<times> clock_state" where
  "expiry ttl clk =
     (let (now, clk) = Now clk in (wrap64 (UnixMilli now + Milliseconds ttl), clk))"

definition resolved :: "Result \<Rightarrow> duration \<Rightarrow> clock_state \<Rightarrow> entry \<times> clock_state" where
  "resolved result ttl clk =
     (let (ex, clk) = expiry ttl clk in
      (emptyEntry\<lparr>entry_EIDs := Result_EIDs result,
         entry_ABTestUUID := Result_ABTestUUID result,
         entry_TerminationCause := Result_TerminationCause result,
         entry_ExpiresAt := ex\<rparr>, clk))"

definition negative :: "ResultMetadata \<Rightarrow> duration \<Rightarrow> clock_state \<Rightarrow> entry \<times> clock_state" where
  "negative metadata ttl clk =
     (let (ex, clk) = expiry ttl clk in
      (emptyEntry\<lparr>entry_ABTestUUID := Meta_ABTestUUID metadata,
         entry_TerminationCause := Meta_TerminationCause metadata,
         entry_Negative := True,
         entry_ExpiresAt := ex\<rparr>, clk))"

definition inProgress :: "duration \<Rightarrow> clock_state \<Rightarrow> entry \<times> clock_state" where
  "inProgress ttl clk =
     (let (ex, clk) = expiry ttl clk in
      (emptyEntry\<lparr>entry_InProgress := True, entry_ExpiresAt := ex\<rparr>, clk))"

text \<open>The members that \<^verbatim>\<open>omitempty\<close> leaves in, in the order of the struct's fields.\<close>

definition entryMembers :: "json list \<Rightarrow> entry \<Rightarrow> (string \<times> json) list" where
  "entryMembers eids e =
     (if eids = [] then [] else [(''eids'', JArr eids)]) @
     (if entry_ABTestUUID e = [] then [] else [(''abTestUuid'', JStr (entry_ABTestUUID e))]) @
     (case entry_TerminationCause e of None \<Rightarrow> [] | Some tc \<Rightarrow> [(''tc'', JNum (Itoa tc))]) @
     (if entry_Negative e then [(''negative'', JBool True)] else []) @
     (if entry_InProgress e then [(''inProgress'', JBool True)] else []) @
     [(''exp'', JNum (Itoa (entry_ExpiresAt e)))]"

fun marshalAll :: "(EID \<Rightarrow> json option) \<Rightarrow> EID list \<Rightarrow> json list option" where
  "marshalAll f [] = Some []"
| "marshalAll f (e # es) =
     (case f e of None \<Rightarrow> None | Some j \<Rightarrow> map_option ((#) j) (marshalAll f es))"

definition encode :: "eid_codec \<Rightarrow> entry \<Rightarrow> bytes option" where
  "encode codec value =
     (case marshalAll (marshalEID codec) (entry_EIDs value) of None \<Rightarrow> None
      | Some eids \<Rightarrow> Some (jsonText (JObj (entryMembers eids value))))"

definition entryField :: "eid_codec \<Rightarrow> string \<Rightarrow> json \<Rightarrow> entry \<Rightarrow> entry option" where
  "entryField codec k j e =
     (if isField ''eids'' k then
        map_option (\<lambda>v. e\<lparr>entry_EIDs := v\<rparr>) (decodeSlice (unmarshalEID codec) j)
      else if isField ''abTestUuid'' k then
        map_option (\<lambda>v. e\<lparr>entry_ABTestUUID := v\<rparr>) (decodeString j (entry_ABTestUUID e))
      else if isField ''tc'' k then
        map_option (\<lambda>v. e\<lparr>entry_TerminationCause := v\<rparr>) (decodeIntPtr 64 j)
      else if isField ''negative'' k then
        map_option (\<lambda>v. e\<lparr>entry_Negative := v\<rparr>) (decodeBool j (entry_Negative e))
      else if isField ''inProgress'' k then
        map_option (\<lambda>v. e\<lparr>entry_InProgress := v\<rparr>) (decodeBool j (entry_InProgress e))
      else if isField ''exp'' k then
        map_option (\<lambda>v. e\<lparr>entry_ExpiresAt := v\<rparr>) (decodeInt 64 j (entry_ExpiresAt e))
      else Some e)"

definition decodeEntry :: "eid_codec \<Rightarrow> bytes \<Rightarrow> entry option" where
  "decodeEntry codec value =
     (case parseJSON value of None \<Rightarrow> None
      | Some j \<Rightarrow> decodeStruct (entryField codec) j emptyEntry)"

definition decode :: "eid_codec \<Rightarrow> bytes \<Rightarrow> clock_state \<Rightarrow> entry option \<times> clock_state" where
  "decode codec value clk =
     (if length value = 0 then (None, clk)
      else case decodeEntry codec value of None \<Rightarrow> (None, clk)
      | Some decoded \<Rightarrow>
          (let (now, clk) = Now clk in
           if entry_ExpiresAt decoded \<le> UnixMilli now then (None, clk) else (Some decoded, clk)))"

definition cacheResultFromEntry :: "entry \<Rightarrow> CacheKeyType \<Rightarrow> CacheLayer \<Rightarrow> CacheResult" where
  "cacheResultFromEntry value keyType layer =
     (let result = \<lparr>CR_State = CacheMiss, CR_Layer = layer, CR_KeyType = keyType,
                    CR_Result = emptyResult\<rparr> in
      if entry_InProgress value then result\<lparr>CR_State := CacheInProgress\<rparr>
      else
        let result = result\<lparr>CR_Result := (CR_Result result)
              \<lparr>Result_ABTestUUID := entry_ABTestUUID value,
               Result_TerminationCause := entry_TerminationCause value\<rparr>\<rparr> in
        if entry_Negative value then result\<lparr>CR_State := CacheNegative\<rparr>
        else result\<lparr>CR_State := CacheHit,
               CR_Result := (CR_Result result)\<lparr>Result_EIDs := entry_EIDs value\<rparr>\<rparr>)"


subsection \<open>Entries that survive the wire\<close>

definition eid_roundtrips :: "eid_codec \<Rightarrow> EID \<Rightarrow> bool" where
  "eid_roundtrips codec e \<longleftrightarrow>
     (case marshalEID codec e of None \<Rightarrow> False
      | Some j \<Rightarrow> jsonOk (maxNestingDepth - 2) j \<and> unmarshalEID codec j = Some e)"

definition entry_ok :: "eid_codec \<Rightarrow> entry \<Rightarrow> bool" where
  "entry_ok codec e \<longleftrightarrow>
     list_all (eid_roundtrips codec) (entry_EIDs e) \<and> valid_utf8 (entry_ABTestUUID e) \<and>
     (case entry_TerminationCause e of None \<Rightarrow> True | Some tc \<Rightarrow> in_int64 tc) \<and>
     in_int64 (entry_ExpiresAt e)"

lemma isField_distinct:
  "list_all (\<lambda>n. list_all (\<lambda>k. isField n k = (n = k))
      [''eids'', ''abTestUuid'', ''tc'', ''negative'', ''inProgress'', ''exp''])
      [''eids'', ''abTestUuid'', ''tc'', ''negative'', ''inProgress'', ''exp'']"
  by (simp add: isField_ASCII isASCII_def upperByte_def)

lemmas entry_names = isField_distinct [simplified]

lemma marshalAll_roundtrip:
  assumes "list_all (eid_roundtrips codec) es"
  obtains js where "marshalAll (marshalEID codec) es = Some js"
    "list_all (jsonOk (maxNestingDepth - 2)) js" "decodeAll (unmarshalEID codec) js = Some es"
    "js = [] \<longleftrightarrow> es = []"
  using assms
proof (induction es arbitrary: thesis)
  case (Cons e es)
  from Cons.prems(2) obtain j where j: "marshalEID codec e = Some j"
      "jsonOk (maxNestingDepth - 2) j" "unmarshalEID codec j = Some e"
    by (auto simp: eid_roundtrips_def split: option.splits)
  from Cons.prems(2) have "list_all (eid_roundtrips codec) es" by simp
  then obtain js where "marshalAll (marshalEID codec) es = Some js"
      "list_all (jsonOk (maxNestingDepth - 2)) js" "decodeAll (unmarshalEID codec) js = Some es"
    using Cons.IH by blast
  with j Cons.prems(1) [of "j # js"] show ?case by simp
qed simp

lemma isASCII_names:
  "isASCII ''eids''" "isASCII ''abTestUuid''" "isASCII ''tc''" "isASCII ''negative''"
  "isASCII ''inProgress''" "isASCII ''exp''"
  by (simp_all add: isASCII_def)

lemma jsonOk_entryMembers:
  assumes "entry_ok codec e" "list_all (jsonOk (maxNestingDepth - 2)) js"
  shows "jsonOk maxNestingDepth (JObj (entryMembers js e))"
  using assms
  by (auto simp: entryMembers_def entry_ok_def maxNestingDepth_def isASCII_names isASCII_valid_utf8
      scanNumber_Itoa split: option.splits)

lemma decodeMembers_entryMembers:
  assumes "entry_ok codec e" "decodeAll (unmarshalEID codec) js = Some (entry_EIDs e)"
    "js = [] \<longleftrightarrow> entry_EIDs e = []"
  shows "decodeMembers (entryField codec) (entryMembers js e) emptyEntry = Some e"
proof -
  have exp: "parseInt 64 (Itoa (entry_ExpiresAt e)) = Some (entry_ExpiresAt e)"
    using assms(1) by (intro parseInt_Itoa) (simp_all add: entry_ok_def in_int64_def)
  have tc: "entry_TerminationCause e = Some c \<Longrightarrow> parseInt 64 (Itoa c) = Some c" for c
    using assms(1) by (intro parseInt_Itoa) (simp_all add: entry_ok_def in_int64_def)
  show ?thesis
    using assms(2,3) exp tc
    by (auto simp: entryMembers_def entryField_def decodeMembers_append entry_names emptyEntry_def
        split: option.splits)
qed

lemma decodeEntry_encode:
  assumes "entry_ok codec e"
  obtains b where "encode codec e = Some b" "b \<noteq> []" "decodeEntry codec b = Some e"
proof -
  from assms have "list_all (eid_roundtrips codec) (entry_EIDs e)" by (simp add: entry_ok_def)
  then obtain js where js: "marshalAll (marshalEID codec) (entry_EIDs e) = Some js"
      "list_all (jsonOk (maxNestingDepth - 2)) js"
      "decodeAll (unmarshalEID codec) js = Some (entry_EIDs e)" "js = [] \<longleftrightarrow> entry_EIDs e = []"
    by (rule marshalAll_roundtrip)
  let ?b = "jsonText (JObj (entryMembers js e))"
  have "parseJSON ?b = Some (JObj (entryMembers js e))"
    by (rule parseJSON_jsonText [OF jsonOk_entryMembers [OF assms js(2)]])
  then have "decodeEntry codec ?b = Some e"
    by (simp add: decodeEntry_def decodeStruct_def decodeMembers_entryMembers [OF assms js(3,4)]
        del: jsonText.simps)
  with js(1) show thesis by (intro that [of ?b]) (simp_all add: encode_def)
qed

lemma decode_encode:
  assumes "entry_ok codec e" "encode codec e = Some b"
  shows "decode codec b clk =
    (if entry_ExpiresAt e \<le> UnixMilli (readings clk (reads clk)) then None else Some e,
     clk\<lparr>reads := Suc (reads clk)\<rparr>)"
proof -
  obtain b' where "encode codec e = Some b'" "b' \<noteq> []" "decodeEntry codec b' = Some e"
    using decodeEntry_encode [OF assms(1)] .
  with assms(2) show ?thesis by (simp add: decode_def Now_def)
qed

lemma decode_Some_fresh:
  assumes "decode codec b clk = (Some e, clk')"
  shows "UnixMilli (readings clk (reads clk)) < entry_ExpiresAt e \<and> decodeEntry codec b = Some e \<and>
    clk' = clk\<lparr>reads := Suc (reads clk)\<rparr>"
  using assms by (auto simp: decode_def Now_def split: if_splits option.splits)

lemma decode_clock:
  "snd (decode codec b clk) = clk \<or> snd (decode codec b clk) = clk\<lparr>reads := Suc (reads clk)\<rparr>"
  by (auto simp: decode_def Now_def split: option.splits)

end
