(* ===== verification/Errors.thy ===== *)
theory Errors
  imports GoText
begin

text \<open>
  Go errors and contexts: the error type of \<^verbatim>\<open>iiqapi/error.go\<close> with its labels, and what the
  sources use of packages \<^verbatim>\<open>errors\<close> and \<^verbatim>\<open>context\<close>.

  An error is a chain: a plain message, one of the two context errors, a message around
  another error (\<^verbatim>\<open>%w\<close>), or the API's own \<^verbatim>\<open>*Error\<close>, whose \<^verbatim>\<open>Unwrap\<close> is its cause.
\<close>

datatype ErrorKind =
    ErrorRequest
  | ErrorTransport
  | ErrorTimeout
  | ErrorStatus
  | ErrorBodyRead
  | ErrorParse
  | ErrorKindOther string

fun ErrorKind_string :: "ErrorKind \<Rightarrow> string" where
  "ErrorKind_string ErrorRequest = ''request''"
| "ErrorKind_string ErrorTransport = ''transport''"
| "ErrorKind_string ErrorTimeout = ''timeout''"
| "ErrorKind_string ErrorStatus = ''status''"
| "ErrorKind_string ErrorBodyRead = ''body_read''"
| "ErrorKind_string ErrorParse = ''parse''"
| "ErrorKind_string (ErrorKindOther s) = s"

datatype go_error =
    PlainError string
  | DeadlineExceeded
  | Canceled
  | WrappedError string go_error
  | APIError (APIError_Kind: ErrorKind) (APIError_Status: int)
      (APIError_ResponseSnippet: string) (APIError_Err: "go_error option")

text \<open>\<^verbatim>\<open>errors.As\<close> for the API error and \<^verbatim>\<open>errors.Is\<close> for the deadline, along the chain.\<close>

primrec asAPIError :: "go_error \<Rightarrow> (ErrorKind \<times> int) option" where
  "asAPIError (PlainError _) = None"
| "asAPIError DeadlineExceeded = None"
| "asAPIError Canceled = None"
| "asAPIError (WrappedError _ e) = asAPIError e"
| "asAPIError (APIError k st _ _) = Some (k, st)"

primrec isDeadlineExceeded :: "go_error \<Rightarrow> bool" where
  "isDeadlineExceeded (PlainError _) = False"
| "isDeadlineExceeded DeadlineExceeded = True"
| "isDeadlineExceeded Canceled = False"
| "isDeadlineExceeded (WrappedError _ e) = isDeadlineExceeded e"
| "isDeadlineExceeded (APIError _ _ _ c) =
     (case map_option isDeadlineExceeded c of None \<Rightarrow> False | Some b \<Rightarrow> b)"

fun errorText :: "go_error \<Rightarrow> string" where
  "errorText (PlainError s) = s"
| "errorText DeadlineExceeded = ''context deadline exceeded''"
| "errorText Canceled = ''context canceled''"
| "errorText (WrappedError prefix e) = prefix @ errorText e"
| "errorText (APIError k _ _ c) =
     (let kind = (if ErrorKind_string k = [] then ''unknown'' else ErrorKind_string k) in
      case c of None \<Rightarrow> kind | Some e \<Rightarrow> kind @ '': '' @ errorText e)"

definition ErrorLabels :: "go_error \<Rightarrow> string \<times> string" where
  "ErrorLabels err =
     (case asAPIError err of
        None \<Rightarrow>
          if isDeadlineExceeded err then (ErrorKind_string ErrorTimeout, [])
          else (ErrorKind_string ErrorTransport, [])
      | Some (kind, status) \<Rightarrow>
          (ErrorKind_string kind, if status > 0 then Itoa status else []))"

subsection \<open>Contexts\<close>

text \<open>
  A context, seen at one moment: whether it has been cancelled and the instant (if any) at
  which its deadline cancels it.
\<close>

record ctx =
  ctx_cancelled :: bool
  ctx_deadline :: "int option"

definition Background :: ctx where
  "Background = \<lparr>ctx_cancelled = False, ctx_deadline = None\<rparr>"

definition WithTimeout :: "int \<Rightarrow> ctx \<Rightarrow> duration \<Rightarrow> ctx" where
  "WithTimeout now c d =
     c\<lparr>ctx_deadline := (case ctx_deadline c of None \<Rightarrow> Some (now + d)
                        | Some t \<Rightarrow> Some (min t (now + d)))\<rparr>"

definition WithoutCancel :: "ctx \<Rightarrow> ctx" where
  "WithoutCancel c = Background"

definition ctxErr :: "int \<Rightarrow> ctx \<Rightarrow> go_error option" where
  "ctxErr now c =
     (if ctx_cancelled c then Some Canceled
      else case ctx_deadline c of None \<Rightarrow> None
      | Some t \<Rightarrow> if t \<le> now then Some DeadlineExceeded else None)"

subsection \<open>Labels\<close>

lemma asAPIError_wrap [simp]: "asAPIError (WrappedError p e) = asAPIError e"
  by simp

lemma ErrorLabels_total:
  "asAPIError err = None \<Longrightarrow> fst (ErrorLabels err) \<in> {''timeout'', ''transport''}"
  by (simp add: ErrorLabels_def)

lemma ErrorLabels_wrap: "ErrorLabels (WrappedError p e) = ErrorLabels e"
  by (simp add: ErrorLabels_def)

end
