(* ===== verification/CacheInterface.thy ===== *)
theory CacheInterface
  imports Contracts Errors
begin

text \<open>
  The \<^verbatim>\<open>Cache\<close> interface of \<^verbatim>\<open>enrichment/cache.go\<close>, through which the enricher uses whatever
  cache the host gives it, and the contract that the enricher's results rest on.
\<close>

record 'c CacheOps =
  ops_Get :: "ctx \<Rightarrow> CacheKey list \<Rightarrow> 'c \<Rightarrow> (go_error + CacheResult) \<times> 'c"
  ops_PutResolved :: "ctx \<Rightarrow> CacheKey list \<Rightarrow> Result \<Rightarrow> 'c \<Rightarrow> go_error option \<times> 'c"
  ops_PutNegative :: "ctx \<Rightarrow> CacheKey list \<Rightarrow> ResultMetadata \<Rightarrow> 'c \<Rightarrow> go_error option \<times> 'c"
  ops_PutInProgress :: "ctx \<Rightarrow> CacheKey list \<Rightarrow> duration \<Rightarrow> 'c \<Rightarrow> go_error option \<times> 'c"

text \<open>
  A cache that meets the contract always answers; an answer other than a miss names the
  layer that it comes from, and a miss names none; a negative answer carries no ids; and
  storing a result never fails (a cache that cannot write drops the entry).
\<close>

locale enrichment_cache =
  fixes ops :: "'c CacheOps"
  assumes get_answers: "\<exists>r. fst (ops_Get ops c keys s) = Inr r"
    and get_states: "fst (ops_Get ops c keys s) = Inr r \<Longrightarrow>
      CR_State r \<in> {CacheMiss, CacheHit, CacheNegative, CacheInProgress}"
    and get_layer: "fst (ops_Get ops c keys s) = Inr r \<Longrightarrow>
      (CR_State r = CacheMiss \<longleftrightarrow> CR_Layer r = CacheLayerNone)"
    and get_negative: "fst (ops_Get ops c keys s) = Inr r \<Longrightarrow> CR_State r = CacheNegative \<Longrightarrow>
      Result_EIDs (CR_Result r) = []"
    and put_resolved_ok: "fst (ops_PutResolved ops c keys result s) = None"
    and put_negative_ok: "fst (ops_PutNegative ops c keys meta s) = None"
begin

lemma get_cases:
  obtains (miss) r s' where "ops_Get ops c keys s = (Inr r, s')" "CR_State r = CacheMiss"
      "CR_Layer r = CacheLayerNone"
    | (hit) r s' where "ops_Get ops c keys s = (Inr r, s')" "CR_State r = CacheHit"
      "CR_Layer r \<noteq> CacheLayerNone"
    | (negative) r s' where "ops_Get ops c keys s = (Inr r, s')" "CR_State r = CacheNegative"
      "CR_Layer r \<noteq> CacheLayerNone" "Result_EIDs (CR_Result r) = []"
    | (progress) r s' where "ops_Get ops c keys s = (Inr r, s')" "CR_State r = CacheInProgress"
      "CR_Layer r \<noteq> CacheLayerNone"
proof -
  obtain a s' where g: "ops_Get ops c keys s = (a, s')" by force
  with get_answers [of c keys s] obtain r where r: "a = Inr r" by auto
  with g have f: "fst (ops_Get ops c keys s) = Inr r" by simp
  from get_states [OF f] get_layer [OF f] get_negative [OF f] g r that show thesis by force
qed

end

end
