(* ===== verification/IdentityCache.thy ===== *)
theory IdentityCache
  imports Entry CacheInterface Complex_Main
begin

text \<open>
  \<^verbatim>\<open>cache/cache.go\<close>, \<^verbatim>\<open>cache/memory.go\<close>, \<^verbatim>\<open>cache/store.go\<close>: the two-layer identity cache.

  The L1 layer is the FreeCache library and the L2 layer an implementation of the \<^verbatim>\<open>Store\<close>
  interface; both are records of functions that an \<open>identityCache\<close> holds, on states of
  their own types. The state that an operation threads is a \<open>cacheState\<close>: the two layers, the
  clock's readings and the observable calls on the metrics and the logger.
\<close>

record 'f freecache =
  fcGet :: "bytes \<Rightarrow> 'f \<Rightarrow> bytes option \<times> 'f"
  fcSet :: "bytes \<Rightarrow> bytes \<Rightarrow> int \<Rightarrow> 'f \<Rightarrow> 'f"

record 's store =
  Store_Get :: "ctx \<Rightarrow> string \<Rightarrow> 's \<Rightarrow> (go_error + bytes) \<times> 's"
  Store_Put :: "ctx \<Rightarrow> string \<Rightarrow> bytes \<Rightarrow> duration \<Rightarrow> 's \<Rightarrow> go_error option \<times> 's"

datatype cache_event =
    L2Request string string
  | L2GetLatency duration
  | L2PutLatency duration
  | CacheWarn string

record ('f, 's) identityCache =
  ic_local :: "'f freecache"
  ic_store :: "'s store"
  ic_policy :: TTLPolicy
  ic_codec :: eid_codec

record ('f, 's) cacheState =
  cs_l1 :: 'f
  cs_l2 :: 's
  cs_clock :: clock_state
  cs_events :: "cache_event list"

abbreviation emit :: "cache_event \<Rightarrow> ('f, 's) cacheState \<Rightarrow> ('f, 's) cacheState" where
  "emit ev st \<equiv> st\<lparr>cs_events := cs_events st @ [ev]\<rparr>"

subsection \<open>L1: \<^verbatim>\<open>memory.go\<close>\<close>

definition minimumFreeCacheSize :: int where
  "minimumFreeCacheSize = 512 * 1024"

text \<open>\<open>NewCache\<close> is FreeCache's constructor; the result is the cache and its capacity.\<close>

definition newLocalCache :: "(int \<Rightarrow> 'f) \<Rightarrow> int \<Rightarrow> 'f \<times> int" where
  "newLocalCache NewCache maxSizeBytes =
     (let capacity = (if maxSizeBytes < minimumFreeCacheSize then minimumFreeCacheSize
                      else maxSizeBytes)
      in (NewCache capacity, capacity))"

text \<open>
  IEEE 754 binary64 rounding (to nearest, ties to even) of a rational in the normal range,
  for \<^verbatim>\<open>Duration.Seconds\<close>, which computes in \<^verbatim>\<open>float64\<close>.
\<close>

definition roundHalfEven :: "rat \<Rightarrow> int" where
  "roundHalfEven x =
     (let f = \<lfloor>x\<rfloor>; d = x - of_int f in
      if d < 1 / 2 then f else if 1 / 2 < d then f + 1 else if even f then f else f + 1)"

fun natLog2 :: "nat \<Rightarrow> nat" where
  "natLog2 n = (if n < 2 then 0 else Suc (natLog2 (n div 2)))"

declare natLog2.simps [simp del]

definition ratLog2 :: "rat \<Rightarrow> int" where
  "ratLog2 x =
     (if 1 \<le> x then int (natLog2 (nat \<lfloor>x\<rfloor>))
      else - int (Suc (natLog2 (nat (\<lceil>1 / x\<rceil> - 1)))))"

definition float64 :: "rat \<Rightarrow> rat" where
  "float64 x =
     (if x = 0 then 0
      else let ulp = 2 powi (ratLog2 \<bar>x\<bar> - 52) in of_int (roundHalfEven (x / ulp)) * ulp)"

definition Duration_Seconds :: "duration \<Rightarrow> rat" where
  "Duration_Seconds d =
     (let sec = d sdiv time_Second; nsec = d - sec * time_Second in
      float64 (float64 (of_int sec) + float64 (float64 (of_int nsec) / 1000000000)))"

definition freeCacheTTLSeconds :: "duration \<Rightarrow> int" where
  "freeCacheTTLSeconds ttl =
     (let seconds = \<lceil>Duration_Seconds ttl\<rceil> in if seconds < 1 then 1 else seconds)"

definition localGet ::
  "('f, 's) identityCache \<Rightarrow> string \<Rightarrow> ('f, 's) cacheState \<Rightarrow> entry option \<times> ('f, 's) cacheState" where
  "localGet cache key st =
     (case fcGet (ic_local cache) key (cs_l1 st) of
        (None, l1) \<Rightarrow> (None, st\<lparr>cs_l1 := l1\<rparr>)
      | (Some encoded, l1) \<Rightarrow>
          (case decode (ic_codec cache) encoded (cs_clock st) of
             (v, clk) \<Rightarrow> (v, st\<lparr>cs_l1 := l1, cs_clock := clk\<rparr>)))"

definition localSet ::
  "('f, 's) identityCache \<Rightarrow> string \<Rightarrow> bytes \<Rightarrow> duration \<Rightarrow> ('f, 's) cacheState \<Rightarrow> ('f, 's) cacheState" where
  "localSet cache key encoded ttl st =
     st\<lparr>cs_l1 := fcSet (ic_local cache) key encoded (freeCacheTTLSeconds ttl) (cs_l1 st)\<rparr>"

subsection \<open>L2 access: \<^verbatim>\<open>writeL2\<close> and \<^verbatim>\<open>getFromStore\<close>\<close>

definition tick :: "('f, 's) cacheState \<Rightarrow> int \<times> ('f, 's) cacheState" where
  "tick st = (let (t, clk) = Now (cs_clock st) in (t, st\<lparr>cs_clock := clk\<rparr>))"

definition writeL2 ::
  "('f, 's) identityCache \<Rightarrow> ctx \<Rightarrow> string \<Rightarrow> bytes \<Rightarrow> duration \<Rightarrow> ('f, 's) cacheState \<Rightarrow>
     go_error option \<times> ('f, 's) cacheState" where
  "writeL2 cache c key encoded ttl st =
     (let (started, st) = tick st;
          (err, l2) = Store_Put (ic_store cache) c key encoded ttl (cs_l2 st);
          st = st\<lparr>cs_l2 := l2\<rparr>;
          (finished, st) = tick st;
          st = emit (L2PutLatency (timeSub finished started)) st
      in case err of
           Some e \<Rightarrow> (Some e, emit (L2Request ''put'' ''error'') st)
         | None \<Rightarrow> (None, emit (L2Request ''put'' ''stored'') st))"

definition getFromStore ::
  "('f, 's) identityCache \<Rightarrow> ctx \<Rightarrow> string \<Rightarrow> ('f, 's) cacheState \<Rightarrow>
     entry option \<times> ('f, 's) cacheState" where
  "getFromStore cache c key st =
     (let (started, st) = tick st;
          (r, l2) = Store_Get (ic_store cache) c key (cs_l2 st);
          st = st\<lparr>cs_l2 := l2\<rparr>;
          (finished, st) = tick st;
          st = emit (L2GetLatency (timeSub finished started)) st
      in case r of
           Inl err \<Rightarrow>
             (None, emit (CacheWarn (''identity cache L2 get failed: '' @ errorText err))
                      (emit (L2Request ''get'' ''error'') st))
         | Inr encoded \<Rightarrow>
             (case decode (ic_codec cache) encoded (cs_clock st) of
                (None, clk) \<Rightarrow> (None, emit (L2Request ''get'' ''miss'') (st\<lparr>cs_clock := clk\<rparr>))
              | (Some value, clk) \<Rightarrow>
                  (Some value, emit (L2Request ''get'' ''hit'') (st\<lparr>cs_clock := clk\<rparr>))))"

definition writeBoth ::
  "('f, 's) identityCache \<Rightarrow> ctx \<Rightarrow> string \<Rightarrow> entry \<Rightarrow> duration \<Rightarrow> ('f, 's) cacheState \<Rightarrow>
     ('f, 's) cacheState" where
  "writeBoth cache c key value ttl st =
     (case encode (ic_codec cache) value of None \<Rightarrow> st
      | Some encoded \<Rightarrow>
          (let st = localSet cache key encoded ttl st;
               (err, st) = writeL2 cache c key encoded ttl st
           in case err of None \<Rightarrow> st
              | Some e \<Rightarrow> emit (CacheWarn (''identity cache L2 put failed: '' @ errorText e)) st))"

definition promote ::
  "('f, 's) identityCache \<Rightarrow> string \<Rightarrow> entry \<Rightarrow> ('f, 's) cacheState \<Rightarrow> ('f, 's) cacheState" where
  "promote cache key value st =
     (let (now, st) = tick st;
          remainingMilliseconds = wrap64 (entry_ExpiresAt value - UnixMilli now)
      in if remainingMilliseconds \<le> 0 then st
         else case encode (ic_codec cache) value of None \<Rightarrow> st
         | Some encoded \<Rightarrow>
             localSet cache key encoded (mulDuration remainingMilliseconds time_Millisecond) st)"

text \<open>The loop of \<^verbatim>\<open>backfill\<close> over the keys, with the running index.\<close>

fun backfillLoop ::
  "('f, 's) identityCache \<Rightarrow> ctx \<Rightarrow> nat \<Rightarrow> entry \<Rightarrow> int \<Rightarrow> nat \<Rightarrow> CacheKey list \<Rightarrow>
     ('f, 's) cacheState \<Rightarrow> ('f, 's) cacheState" where
  "backfillLoop cache c hitIndex hit remaining index [] st = st"
| "backfillLoop cache c hitIndex hit remaining index (key # keys) st =
     (if index = hitIndex then backfillLoop cache c hitIndex hit remaining (Suc index) keys st
      else
        (case localGet cache (Key_Value key) st of
           (Some _, st) \<Rightarrow> backfillLoop cache c hitIndex hit remaining (Suc index) keys st
         | (None, st) \<Rightarrow>
             (let ceiling = Milliseconds (CeilingFor (ic_policy cache) (Key_Type key));
                  ttlMilliseconds = (if ceiling < remaining then ceiling else remaining);
                  ttl = mulDuration ttlMilliseconds time_Millisecond;
                  (now, st) = tick st;
                  alias = hit\<lparr>entry_ExpiresAt := wrap64 (UnixMilli now + ttlMilliseconds)\<rparr>;
                  st = writeBoth cache c (Key_Value key) alias ttl st
              in backfillLoop cache c hitIndex hit remaining (Suc index) keys st)))"

definition backfill ::
  "('f, 's) identityCache \<Rightarrow> ctx \<Rightarrow> CacheKey list \<Rightarrow> nat \<Rightarrow> entry \<Rightarrow> ('f, 's) cacheState \<Rightarrow>
     ('f, 's) cacheState" where
  "backfill cache c keys hitIndex hit st =
     (let (now, st) = tick st;
          remainingMilliseconds = wrap64 (entry_ExpiresAt hit - UnixMilli now)
      in if remainingMilliseconds \<le> 0 then st
         else backfillLoop cache c hitIndex hit remainingMilliseconds 0 keys st)"

subsection \<open>The cache interface\<close>

definition missResult :: CacheResult where
  "missResult =
     \<lparr>CR_State = CacheMiss, CR_Layer = CacheLayerNone, CR_KeyType = CacheKeyFirstParty,
      CR_Result = emptyResult\<rparr>"

definition inProgressResult :: "CacheKeyType \<Rightarrow> CacheLayer \<Rightarrow> CacheResult" where
  "inProgressResult keyType layer =
     \<lparr>CR_State = CacheInProgress, CR_Layer = layer, CR_KeyType = keyType,
      CR_Result = emptyResult\<rparr>"

fun getL1Loop ::
  "('f, 's) identityCache \<Rightarrow> nat \<Rightarrow> CacheKey list \<Rightarrow> ('f, 's) cacheState \<Rightarrow>
     (nat \<times> CacheKey \<times> entry) option \<times> ('f, 's) cacheState" where
  "getL1Loop cache index [] st = (None, st)"
| "getL1Loop cache index (key # keys) st =
     (case localGet cache (Key_Value key) st of
        (None, st) \<Rightarrow> getL1Loop cache (Suc index) keys st
      | (Some value, st) \<Rightarrow>
          if entry_InProgress value then getL1Loop cache (Suc index) keys st
          else (Some (index, key, value), st))"

fun getL2Loop ::
  "('f, 's) identityCache \<Rightarrow> ctx \<Rightarrow> nat \<Rightarrow> CacheKeyType option \<Rightarrow> CacheKey list \<Rightarrow>
     ('f, 's) cacheState \<Rightarrow>
     (CacheKeyType option + nat \<times> CacheKey \<times> entry) \<times> ('f, 's) cacheState" where
  "getL2Loop cache c index inProgressType [] st = (Inl inProgressType, st)"
| "getL2Loop cache c index inProgressType (key # keys) st =
     (case getFromStore cache c (Key_Value key) st of
        (None, st) \<Rightarrow> getL2Loop cache c (Suc index) inProgressType keys st
      | (Some value, st) \<Rightarrow>
          if entry_InProgress value then
            getL2Loop cache c (Suc index)
              (case inProgressType of None \<Rightarrow> Some (Key_Type key) | Some t \<Rightarrow> Some t) keys st
          else (Inr (index, key, value), st))"

definition Get ::
  "('f, 's) identityCache \<Rightarrow> ctx \<Rightarrow> CacheKey list \<Rightarrow> ('f, 's) cacheState \<Rightarrow>
     (go_error + CacheResult) \<times> ('f, 's) cacheState" where
  "Get cache c keys st =
     (if length keys = 0 then (Inr missResult, st)
      else case getL1Loop cache 0 keys st of
        (Some (index, key, value), st) \<Rightarrow>
          (Inr (cacheResultFromEntry value (Key_Type key) CacheLayerL1),
           backfill cache c keys index value st)
      | (None, st) \<Rightarrow>
          (case getL2Loop cache c 0 None keys st of
             (Inr (index, key, value), st) \<Rightarrow>
               (Inr (cacheResultFromEntry value (Key_Type key) CacheLayerL2),
                backfill cache c keys index value (promote cache (Key_Value key) value st))
           | (Inl (Some t), st) \<Rightarrow> (Inr (inProgressResult t CacheLayerL2), st)
           | (Inl None, st) \<Rightarrow> (Inr missResult, st)))"

fun PutResolved ::
  "('f, 's) identityCache \<Rightarrow> ctx \<Rightarrow> CacheKey list \<Rightarrow> Result \<Rightarrow> ('f, 's) cacheState \<Rightarrow>
     go_error option \<times> ('f, 's) cacheState" where
  "PutResolved cache c [] result st = (None, st)"
| "PutResolved cache c (key # keys) result st =
     (let ttl = EffectiveTTL (ic_policy cache) (Key_Type key) (Result_CacheTTL result);
          (value, clk) = resolved result ttl (cs_clock st);
          st = writeBoth cache c (Key_Value key) value ttl (st\<lparr>cs_clock := clk\<rparr>)
      in PutResolved cache c keys result st)"

fun putNegativeLoop ::
  "('f, 's) identityCache \<Rightarrow> ctx \<Rightarrow> duration \<Rightarrow> CacheKey list \<Rightarrow> ResultMetadata \<Rightarrow>
     ('f, 's) cacheState \<Rightarrow> ('f, 's) cacheState" where
  "putNegativeLoop cache c ttl [] metadata st = st"
| "putNegativeLoop cache c ttl (key # keys) metadata st =
     (let (value, clk) = negative metadata ttl (cs_clock st);
          st = writeBoth cache c (Key_Value key) value ttl (st\<lparr>cs_clock := clk\<rparr>)
      in putNegativeLoop cache c ttl keys metadata st)"

definition PutNegative ::
  "('f, 's) identityCache \<Rightarrow> ctx \<Rightarrow> CacheKey list \<Rightarrow> ResultMetadata \<Rightarrow> ('f, 's) cacheState \<Rightarrow>
     go_error option \<times> ('f, 's) cacheState" where
  "PutNegative cache c keys metadata st =
     (let ttl = NegativeTTLFor (ic_policy cache) (Meta_CacheTTL metadata)
      in (None, putNegativeLoop cache c ttl keys metadata st))"

fun putInProgressLoop ::
  "('f, 's) identityCache \<Rightarrow> ctx \<Rightarrow> duration \<Rightarrow> go_error option \<Rightarrow> CacheKey list \<Rightarrow>
     ('f, 's) cacheState \<Rightarrow> go_error option \<times> ('f, 's) cacheState" where
  "putInProgressLoop cache c ttl firstErr [] st = (firstErr, st)"
| "putInProgressLoop cache c ttl firstErr (key # keys) st =
     (let (value, clk) = inProgress ttl (cs_clock st);
          st = st\<lparr>cs_clock := clk\<rparr>;
          (err, st) = (case encode (ic_codec cache) value of
             None \<Rightarrow> (Some (PlainError ''json: marshal error''), st)
           | Some encoded \<Rightarrow> writeL2 cache c (Key_Value key) encoded ttl st);
          firstErr = (case firstErr of None \<Rightarrow> err | Some e \<Rightarrow> Some e)
      in putInProgressLoop cache c ttl firstErr keys st)"

definition PutInProgress ::
  "('f, 's) identityCache \<Rightarrow> ctx \<Rightarrow> CacheKey list \<Rightarrow> duration \<Rightarrow> ('f, 's) cacheState \<Rightarrow>
     go_error option \<times> ('f, 's) cacheState" where
  "PutInProgress cache c keys ttl st = putInProgressLoop cache c ttl None keys st"

text \<open>
  \<^verbatim>\<open>New\<close>: a disabled configuration gives no cache, an enabled one needs a store and starts
  with an empty L1 of the configured size. (Absent metrics, logger and clock are replaced
  by no-op ones and the real clock, which the recorded events and readings subsume.)
\<close>

definition cache_New ::
  "'f freecache \<Rightarrow> (int \<Rightarrow> 'f) \<Rightarrow> 's store option \<Rightarrow> eid_codec \<Rightarrow> CacheConfig \<Rightarrow>
     go_error + (('f, 's) identityCache \<times> 'f) option" where
  "cache_New fc NewCache st codec config =
     (if \<not> Enabled config then Inr None
      else case st of
        None \<Rightarrow> Inl (PlainError ''cache store is required when caching is enabled'')
      | Some s \<Rightarrow>
          Inr (Some (\<lparr>ic_local = fc, ic_store = s, ic_policy = Config_TTLPolicy config,
                      ic_codec = codec\<rparr>, fst (newLocalCache NewCache (MaxSize config)))))"


subsection \<open>What the layers promise\<close>

text \<open>
  \<open>content\<close> reads off what a layer holds. No layer invents a value, and every layer may forget:
  entries expire, are evicted, or are lost. A write that is refused or fails may leave the old
  value, the new one or none under its key, and it gives no other key a value.
\<close>

definition overwrites :: "'k \<Rightarrow> 'v \<Rightarrow> ('k \<rightharpoonup> 'v) \<Rightarrow> ('k \<rightharpoonup> 'v) \<Rightarrow> bool" where
  "overwrites k v m m' \<longleftrightarrow> (\<forall>x. m' x = None \<or> m' x = m x \<or> x = k \<and> m' x = Some v)"

definition l1_faithful :: "'f freecache \<Rightarrow> ('f \<Rightarrow> bytes \<Rightarrow> bytes option) \<Rightarrow> bool" where
  "l1_faithful fc content \<longleftrightarrow>
     (\<forall>k f. (fst (fcGet fc k f) = None \<or> fst (fcGet fc k f) = content f k) \<and>
            content (snd (fcGet fc k f)) \<subseteq>\<^sub>m content f) \<and>
     (\<forall>k v t f. overwrites k v (content f) (content (fcSet fc k v t f)))"

text \<open>
  FreeCache documents more: a read gives what is there, and an entry that fits (a key of at most
  65535 bytes and a value of at most a 1024th of the cache) is written; a larger one is not.
\<close>

definition l1_documented ::
  "'f freecache \<Rightarrow> (bytes \<Rightarrow> bytes \<Rightarrow> bool) \<Rightarrow> ('f \<Rightarrow> bytes \<Rightarrow> bytes option) \<Rightarrow> bool" where
  "l1_documented fc fits content \<longleftrightarrow>
     l1_faithful fc content \<and> (\<forall>k f. fst (fcGet fc k f) = content f k) \<and>
     (\<forall>k v t f. fits k v \<longrightarrow> content (fcSet fc k v t f) k = Some v)"

definition l2_faithful :: "'s store \<Rightarrow> ('s \<Rightarrow> string \<Rightarrow> bytes option) \<Rightarrow> bool" where
  "l2_faithful store content \<longleftrightarrow>
     (\<forall>c k s. content (snd (Store_Get store c k s)) \<subseteq>\<^sub>m content s \<and>
        (case fst (Store_Get store c k s) of Inl _ \<Rightarrow> True
         | Inr b \<Rightarrow> b = [] \<or> content s k = Some b)) \<and>
     (\<forall>c k v t s. overwrites k v (content s) (content (snd (Store_Put store c k v t s))))"

text \<open>
  A store that works as the client libraries document: a read that does not fail gives what is
  there, and a write with a lifetime that reports no error has been made.
\<close>

definition l2_documented :: "'s store \<Rightarrow> ('s \<Rightarrow> string \<Rightarrow> bytes option) \<Rightarrow> bool" where
  "l2_documented store content \<longleftrightarrow>
     l2_faithful store content \<and>
     (\<forall>c k s b. fst (Store_Get store c k s) = Inr b \<longrightarrow> b = (case content s k of None \<Rightarrow> [] | Some v \<Rightarrow> v)) \<and>
     (\<forall>c k v t s. 0 < t \<longrightarrow> fst (Store_Put store c k v t s) = None \<longrightarrow>
        content (snd (Store_Put store c k v t s)) k = Some v)"

lemma overwrites_other: "overwrites k v m m' \<Longrightarrow> x \<noteq> k \<Longrightarrow> m' x = None \<or> m' x = m x"
  unfolding overwrites_def by blast

lemma overwrites_refl: "overwrites k v m m"
  by (simp add: overwrites_def)

lemma overwrites_upd: "overwrites k v m (m(k \<mapsto> v))"
  by (simp add: overwrites_def)

text \<open>A clock state that some further readings lead to.\<close>

definition clock_le :: "clock_state \<Rightarrow> clock_state \<Rightarrow> bool" where
  "clock_le a b \<longleftrightarrow> readings b = readings a \<and> reads a \<le> reads b"

text \<open>An entry was live at one of the readings taken between two clock states.\<close>

definition live_between :: "clock_state \<Rightarrow> clock_state \<Rightarrow> entry \<Rightarrow> bool" where
  "live_between a b e \<longleftrightarrow>
     (\<exists>i. reads a \<le> i \<and> i < reads b \<and> UnixMilli (readings a i) < entry_ExpiresAt e)"

lemma clock_le_refl [simp]: "clock_le a a"
  by (simp add: clock_le_def)

lemma clock_le_trans [trans]: "clock_le a b \<Longrightarrow> clock_le b c \<Longrightarrow> clock_le a c"
  by (auto simp: clock_le_def)

lemma live_between_mono:
  "live_between b c e \<Longrightarrow> clock_le a b \<Longrightarrow> clock_le c d \<Longrightarrow> live_between a d e"
  unfolding live_between_def clock_le_def by (metis le_trans order_less_le_trans)

lemma Now_simps [simp]: "fst (Now clk) = readings clk (reads clk)" "clock_le clk (snd (Now clk))"
  by (simp_all add: Now_def clock_le_def)

lemma decode_clock_le: "clock_le clk (snd (decode codec b clk))"
  using decode_clock [of codec b clk] by (auto simp: clock_le_def)

lemma tick_simps [simp]:
  "fst (tick st) = readings (cs_clock st) (reads (cs_clock st))"
  "cs_l1 (snd (tick st)) = cs_l1 st" "cs_l2 (snd (tick st)) = cs_l2 st"
  "cs_events (snd (tick st)) = cs_events st" "clock_le (cs_clock st) (cs_clock (snd (tick st)))"
  by (simp_all add: tick_def Now_def clock_le_def)

lemma localGet_sound:
  assumes l1: "l1_faithful (ic_local cache) content" and g: "localGet cache key st = (v, st')"
  shows "content (cs_l1 st') \<subseteq>\<^sub>m content (cs_l1 st) \<and> cs_l2 st' = cs_l2 st \<and>
    cs_events st' = cs_events st \<and> clock_le (cs_clock st) (cs_clock st') \<and>
    (\<forall>e. v = Some e \<longrightarrow> live_between (cs_clock st) (cs_clock st') e \<and>
      (\<exists>b. content (cs_l1 st) key = Some b \<and> decodeEntry (ic_codec cache) b = Some e))"
proof -
  obtain r f' where f: "fcGet (ic_local cache) key (cs_l1 st) = (r, f')" by force
  from l1 have "fst (fcGet (ic_local cache) key (cs_l1 st)) = None \<or>
      fst (fcGet (ic_local cache) key (cs_l1 st)) = content (cs_l1 st) key"
    and "content (snd (fcGet (ic_local cache) key (cs_l1 st))) \<subseteq>\<^sub>m content (cs_l1 st)"
    unfolding l1_faithful_def by blast+
  with f have r: "r = None \<or> r = content (cs_l1 st) key" and sub: "content f' \<subseteq>\<^sub>m content (cs_l1 st)"
    by simp_all
  show ?thesis
  proof (cases r)
    case None
    with f g sub show ?thesis by (auto simp: localGet_def)
  next
    case (Some b)
    with r have b: "content (cs_l1 st) key = Some b" by auto
    obtain w clk where d: "decode (ic_codec cache) b (cs_clock st) = (w, clk)" by force
    with f g Some have v: "v = w" "st' = st\<lparr>cs_l1 := f', cs_clock := clk\<rparr>"
      by (auto simp: localGet_def)
    have "live_between (cs_clock st) clk e \<and> decodeEntry (ic_codec cache) b = Some e"
      if "w = Some e" for e
      using decode_Some_fresh [of "ic_codec cache" b "cs_clock st" e clk] d that
      by (auto simp: live_between_def)
    with b v sub d decode_clock_le [of "cs_clock st" "ic_codec cache" b] show ?thesis by auto
  qed
qed

lemma getFromStore_sound:
  assumes l2: "l2_faithful (ic_store cache) content" and g: "getFromStore cache c key st = (v, st')"
  shows "content (cs_l2 st') \<subseteq>\<^sub>m content (cs_l2 st) \<and> cs_l1 st' = cs_l1 st \<and>
    clock_le (cs_clock st) (cs_clock st') \<and>
    (\<forall>e. v = Some e \<longrightarrow> live_between (cs_clock st) (cs_clock st') e \<and>
      (\<exists>b. content (cs_l2 st) key = Some b \<and> decodeEntry (ic_codec cache) b = Some e))"
proof -
  obtain r s' where f: "Store_Get (ic_store cache) c key (cs_l2 st) = (r, s')" by force
  from l2 have "content (snd (Store_Get (ic_store cache) c key (cs_l2 st))) \<subseteq>\<^sub>m content (cs_l2 st)"
    and "case fst (Store_Get (ic_store cache) c key (cs_l2 st)) of Inl _ \<Rightarrow> True
      | Inr b \<Rightarrow> b = [] \<or> content (cs_l2 st) key = Some b"
    unfolding l2_faithful_def by blast+
  with f have sub: "content s' \<subseteq>\<^sub>m content (cs_l2 st)"
    and r: "case r of Inl _ \<Rightarrow> True | Inr b \<Rightarrow> b = [] \<or> content (cs_l2 st) key = Some b"
    by simp_all
  let ?clk = "(cs_clock st)\<lparr>reads := Suc (Suc (reads (cs_clock st)))\<rparr>"
  have clk: "clock_le (cs_clock st) ?clk" by (simp add: clock_le_def)
  show ?thesis
  proof (cases r)
    case (Inl err)
    with f g sub clk show ?thesis
      by (auto simp: getFromStore_def tick_def Now_def Let_def)
  next
    case (Inr b)
    obtain w clk' where d: "decode (ic_codec cache) b ?clk = (w, clk')" by force
    have le: "clock_le (cs_clock st) clk'"
      using decode_clock_le [of ?clk "ic_codec cache" b] d clk by (auto intro: clock_le_trans)
    from f g Inr d have st': "v = w" "cs_l2 st' = s'" "cs_l1 st' = cs_l1 st" "cs_clock st' = clk'"
      by (auto simp: getFromStore_def tick_def Now_def Let_def split: option.splits)
    have "live_between (cs_clock st) clk' e \<and> content (cs_l2 st) key = Some b \<and>
        decodeEntry (ic_codec cache) b = Some e" if w: "w = Some e" for e
    proof -
      from w d have "b \<noteq> []" by (auto simp: decode_def)
      with r Inr have "content (cs_l2 st) key = Some b" by simp
      moreover from decode_Some_fresh [of "ic_codec cache" b ?clk e clk'] d w
      have "decodeEntry (ic_codec cache) b = Some e" "live_between (cs_clock st) clk' e"
        by (auto simp: live_between_def intro!: exI [of _ "Suc (Suc (reads (cs_clock st)))"])
      ultimately show ?thesis by blast
    qed
    with st' sub le show ?thesis by auto
  qed
qed


subsection \<open>A lookup serves only live entries of the layer it names\<close>

text \<open>The entry a lookup found, as a relation between the layers before and the result.\<close>

definition served ::
  "('f, 's) identityCache \<Rightarrow> (bytes \<Rightarrow> bytes option) \<Rightarrow> clock_state \<Rightarrow> clock_state \<Rightarrow>
     CacheKey list \<Rightarrow> nat \<Rightarrow> CacheKey \<Rightarrow> entry \<Rightarrow> bool" where
  "served cache content clk clk' keys index key e \<longleftrightarrow>
     index < length keys \<and> keys ! index = key \<and> \<not> entry_InProgress e \<and>
     live_between clk clk' e \<and>
     (\<exists>b. content (Key_Value key) = Some b \<and> decodeEntry (ic_codec cache) b = Some e)"

lemma served_weaken:
  assumes "served cache m clk2 clk' keys index key e" "m \<subseteq>\<^sub>m m'" "clock_le clk clk2"
  shows "served cache m' clk clk' (k # keys) (Suc index) key e"
  using assms live_between_mono [of clk2 clk' e clk clk']
  by (auto simp: served_def dest: map_le_SomeD)

lemma getL1Loop_sound:
  assumes l1: "l1_faithful (ic_local cache) content"
  shows "getL1Loop cache index keys st = (r, st') \<Longrightarrow>
    content (cs_l1 st') \<subseteq>\<^sub>m content (cs_l1 st) \<and> cs_l2 st' = cs_l2 st \<and>
    cs_events st' = cs_events st \<and> clock_le (cs_clock st) (cs_clock st') \<and>
    (\<forall>i key e. r = Some (i, key, e) \<longrightarrow>
      index \<le> i \<and> served cache (content (cs_l1 st)) (cs_clock st) (cs_clock st') keys (i - index) key e)"
proof (induction keys arbitrary: index st)
  case (Cons k keys)
  obtain v st1 where g: "localGet cache (Key_Value k) st = (v, st1)" by force
  note s1 = localGet_sound [OF l1 g]
  show ?case
  proof (cases "\<exists>e. v = Some e \<and> \<not> entry_InProgress e")
    case True
    with Cons.prems g s1 show ?thesis by (auto simp: served_def)
  next
    case False
    with Cons.prems g have rec: "getL1Loop cache (Suc index) keys st1 = (r, st')"
      by (auto split: option.splits if_splits)
    note s2 = Cons.IH [OF rec]
    have "index \<le> i \<and> served cache (content (cs_l1 st)) (cs_clock st) (cs_clock st') (k # keys) (i - index) key e"
      if "r = Some (i, key, e)" for i key e
      using s1 s2 that served_weaken [of cache "content (cs_l1 st1)" "cs_clock st1" "cs_clock st'"
          keys "i - Suc index" key e "content (cs_l1 st)" "cs_clock st" k]
      by (auto simp: Suc_diff_Suc)
    with s1 s2 show ?thesis by (auto intro: map_le_trans clock_le_trans)
  qed
qed auto

lemma getL2Loop_sound:
  assumes l2: "l2_faithful (ic_store cache) content"
  shows "getL2Loop cache c index ip keys st = (r, st') \<Longrightarrow>
    content (cs_l2 st') \<subseteq>\<^sub>m content (cs_l2 st) \<and> cs_l1 st' = cs_l1 st \<and>
    clock_le (cs_clock st) (cs_clock st') \<and>
    (\<forall>i key e. r = Inr (i, key, e) \<longrightarrow>
      index \<le> i \<and> served cache (content (cs_l2 st)) (cs_clock st) (cs_clock st') keys (i - index) key e)"
proof (induction keys arbitrary: index ip st)
  case (Cons k keys)
  obtain v st1 where g: "getFromStore cache c (Key_Value k) st = (v, st1)" by force
  note s1 = getFromStore_sound [OF l2 g]
  show ?case
  proof (cases "\<exists>e. v = Some e \<and> \<not> entry_InProgress e")
    case True
    with Cons.prems g s1 show ?thesis by (auto simp: served_def)
  next
    case False
    with Cons.prems g obtain ip' where rec: "getL2Loop cache c (Suc index) ip' keys st1 = (r, st')"
      by (auto split: option.splits if_splits)
    note s2 = Cons.IH [OF rec]
    have "index \<le> i \<and> served cache (content (cs_l2 st)) (cs_clock st) (cs_clock st') (k # keys) (i - index) key e"
      if "r = Inr (i, key, e)" for i key e
      using s1 s2 that served_weaken [of cache "content (cs_l2 st1)" "cs_clock st1" "cs_clock st'"
          keys "i - Suc index" key e "content (cs_l2 st)" "cs_clock st" k]
      by (auto simp: Suc_diff_Suc)
    with s1 s2 show ?thesis by (auto intro: map_le_trans clock_le_trans)
  qed
qed auto

subsection \<open>Writes: clocks, layers and markers\<close>

lemma writeL2_frame:
  "writeL2 cache c key b ttl st = (err, st') \<Longrightarrow>
    cs_l1 st' = cs_l1 st \<and> clock_le (cs_clock st) (cs_clock st') \<and>
    cs_l2 st' = snd (Store_Put (ic_store cache) c key b ttl (cs_l2 st)) \<and>
    err = fst (Store_Put (ic_store cache) c key b ttl (cs_l2 st))"
  by (auto simp: writeL2_def tick_def Now_def clock_le_def Let_def split: option.splits prod.splits)

lemma writeBoth_frame:
  assumes "st' = writeBoth cache c key e ttl st"
  shows "clock_le (cs_clock st) (cs_clock st') \<and>
    (case encode (ic_codec cache) e of
       None \<Rightarrow> st' = st
     | Some b \<Rightarrow>
         cs_l1 st' = fcSet (ic_local cache) key b (freeCacheTTLSeconds ttl) (cs_l1 st) \<and>
         cs_l2 st' = snd (Store_Put (ic_store cache) c key b ttl (cs_l2 st)))"
proof (cases "encode (ic_codec cache) e")
  case (Some b)
  obtain err st1 where w: "writeL2 cache c key b ttl (localSet cache key b ttl st) = (err, st1)"
    by force
  from writeL2_frame [OF w] Some w assms show ?thesis
    by (auto simp: writeBoth_def localSet_def split: option.splits)
qed (use assms in \<open>simp add: writeBoth_def\<close>)

lemma putInProgressLoop_l1: "cs_l1 (snd (putInProgressLoop cache c ttl fe keys st)) = cs_l1 st"
proof (induction keys arbitrary: fe st)
  case (Cons k keys)
  obtain v clk where v: "inProgress ttl (cs_clock st) = (v, clk)" by force
  obtain err st1 where w: "(case encode (ic_codec cache) v of
      None \<Rightarrow> (Some (PlainError ''json: marshal error''), st\<lparr>cs_clock := clk\<rparr>)
    | Some encoded \<Rightarrow> writeL2 cache c (Key_Value k) encoded ttl (st\<lparr>cs_clock := clk\<rparr>)) = (err, st1)"
    by force
  then have "cs_l1 st1 = cs_l1 st"
    by (auto split: option.splits dest: writeL2_frame)
  with v w Cons.IH show ?case by (simp add: Let_def)
qed simp


lemma tick_clock_le: "clock_le clk (cs_clock st) \<Longrightarrow> clock_le clk (cs_clock (snd (tick st)))"
  by (meson clock_le_trans tick_simps(5))

lemma localGet_frame:
  "cs_l2 (snd (localGet cache key st)) = cs_l2 st"
  "clock_le (cs_clock st) (cs_clock (snd (localGet cache key st)))"
  using decode_clock_le [of "cs_clock st" "ic_codec cache"]
  by (auto simp: localGet_def split: option.splits prod.splits) (metis snd_conv)

lemma writeBoth_clock: "clock_le (cs_clock st) (cs_clock (writeBoth cache c key e ttl st))"
  using writeBoth_frame by blast

lemma backfillLoop_clock:
  "clock_le (cs_clock st) (cs_clock (backfillLoop cache c hi e rem index keys st))"
proof (induction keys arbitrary: index st)
  case (Cons k keys)
  obtain v st1 where g: "localGet cache (Key_Value k) st = (v, st1)" by force
  have le1: "clock_le (cs_clock st) (cs_clock st1)" using localGet_frame(2) [of st cache "Key_Value k"] g by simp
  show ?case
  proof (cases "index = hi \<or> v \<noteq> None")
    case True
    with g le1 Cons.IH show ?thesis by (auto split: option.splits intro: clock_le_trans)
  next
    case False
    obtain t st2 where t: "tick st1 = (t, st2)" by force
    have le2: "clock_le (cs_clock st1) (cs_clock st2)" using tick_simps(5) [of st1] t by simp
    show ?thesis
      using False g t by (simp add: Let_def) (meson Cons.IH le1 le2 writeBoth_clock clock_le_trans)
  qed
qed simp

lemma backfill_clock: "clock_le (cs_clock st) (cs_clock (backfill cache c keys i e st))"
proof -
  obtain t st1 where t: "tick st = (t, st1)" by force
  have "clock_le (cs_clock st) (cs_clock st1)" using tick_simps(5) [of st] t by simp
  with t show ?thesis
    by (simp add: backfill_def Let_def) (meson backfillLoop_clock clock_le_trans)
qed

lemma promote_clock: "clock_le (cs_clock st) (cs_clock (promote cache key e st))"
  using tick_simps(5) [of st]
  by (auto simp: promote_def localSet_def Let_def case_prod_beta split: option.splits)

lemma Get_from_L1:
  assumes l1: "l1_faithful (ic_local cache) content1" and get: "Get cache c keys st = (r, st')" and ne: "keys \<noteq> []"
    and g1: "getL1Loop cache 0 keys st = (Some (i, key, e), st1)"
  shows "r = Inr (cacheResultFromEntry e (Key_Type key) CacheLayerL1) \<and> \<not> entry_InProgress e \<and>
    served cache (content1 (cs_l1 st)) (cs_clock st) (cs_clock st') keys i key e"
proof -
  from get ne g1 have r: "r = Inr (cacheResultFromEntry e (Key_Type key) CacheLayerL1)"
    and st': "st' = backfill cache c keys i e st1" by (auto simp: Get_def)
  have "served cache (content1 (cs_l1 st)) (cs_clock st) (cs_clock st1) keys i key e"
    using getL1Loop_sound [OF l1 g1] by auto
  then have "served cache (content1 (cs_l1 st)) (cs_clock st) (cs_clock st') keys i key e"
    and "\<not> entry_InProgress e"
    using backfill_clock live_between_mono unfolding st' served_def by (blast intro: clock_le_refl)+
  with r show ?thesis by blast
qed

lemma Get_from_L2:
  assumes l1: "l1_faithful (ic_local cache) content1" and l2: "l2_faithful (ic_store cache) content2"
    and get: "Get cache c keys st = (r, st')" and ne: "keys \<noteq> []"
    and g1: "getL1Loop cache 0 keys st = (None, st1)" and g2: "getL2Loop cache c 0 None keys st1 = (Inr (i, key, e), st2)"
  shows "r = Inr (cacheResultFromEntry e (Key_Type key) CacheLayerL2) \<and> \<not> entry_InProgress e \<and>
    served cache (content2 (cs_l2 st)) (cs_clock st) (cs_clock st') keys i key e"
proof -
  note s1 = getL1Loop_sound [OF l1 g1] and s2 = getL2Loop_sound [OF l2 g2]
  let ?p = "promote cache (Key_Value key) e st2"
  from get ne g1 g2 have r: "r = Inr (cacheResultFromEntry e (Key_Type key) CacheLayerL2)"
    and st': "st' = backfill cache c keys i e ?p" by (auto simp: Get_def)
  have le: "clock_le (cs_clock st2) (cs_clock st')"
    using promote_clock backfill_clock unfolding st' by (blast intro: clock_le_trans)
  have "served cache (content2 (cs_l2 st)) (cs_clock st1) (cs_clock st2) keys i key e"
    using s1 s2 by auto
  then have "served cache (content2 (cs_l2 st)) (cs_clock st) (cs_clock st') keys i key e"
    and "\<not> entry_InProgress e"
    using s1 le live_between_mono unfolding served_def by blast+
  with r show ?thesis by blast
qed

text \<open>
  C3. A cache lookup never fails, and what it serves is live. With layers that never invent
  values, a hit or a negative answer is built from an entry that the named layer held under
  one of the requested keys before the lookup, that is not an in-progress marker, and whose
  expiry was still ahead at a clock reading taken during the lookup; and an in-progress
  answer never comes from L1.
\<close>

theorem Get_serves_live_entry:
  assumes l1: "l1_faithful (ic_local cache) content1"
    and l2: "l2_faithful (ic_store cache) content2"
    and get: "Get cache c keys st = (r, st')"
  shows "\<exists>res. r = Inr res \<and>
    (CR_State res \<in> {CacheHit, CacheNegative} \<longrightarrow>
      (\<exists>index key e. res = cacheResultFromEntry e (Key_Type key) (CR_Layer res) \<and>
        (CR_Layer res = CacheLayerL1 \<and>
           served cache (content1 (cs_l1 st)) (cs_clock st) (cs_clock st') keys index key e \<or>
         CR_Layer res = CacheLayerL2 \<and>
           served cache (content2 (cs_l2 st)) (cs_clock st) (cs_clock st') keys index key e))) \<and>
    (CR_State res = CacheInProgress \<longrightarrow> CR_Layer res = CacheLayerL2)"
proof (cases "keys = []")
  case True
  with get show ?thesis by (auto simp: Get_def missResult_def)
next
  case False
  obtain a st1 where g1: "getL1Loop cache 0 keys st = (a, st1)" by force
  show ?thesis
  proof (cases a)
    case (Some t)
    obtain i key e where t: "t = (i, key, e)" by (cases t)
    from Get_from_L1 [OF l1 get False g1 [unfolded Some t]] show ?thesis
      by (auto simp: cacheResultFromEntry_def Let_def)
  next
    case None
    obtain b st2 where g2: "getL2Loop cache c 0 None keys st1 = (b, st2)" by force
    show ?thesis
    proof (cases b)
      case (Inl ip)
      with get False g1 None g2 show ?thesis
        by (cases ip) (auto simp: Get_def missResult_def inProgressResult_def)
    next
      case (Inr t)
      obtain i key e where t: "t = (i, key, e)" by (cases t)
      from Get_from_L2 [OF l1 l2 get False g1 [unfolded None] g2 [unfolded Inr t]] show ?thesis
        by (auto simp: cacheResultFromEntry_def Let_def)
    qed
  qed
qed


subsection \<open>What was put is what a lookup gives\<close>

lemma localGet_documented:
  assumes "l1_documented (ic_local cache) fits content"
    and "content (cs_l1 st) key = Some b" "encode (ic_codec cache) e = Some b"
    and "entry_ok (ic_codec cache) e"
    and "UnixMilli (readings (cs_clock st) (reads (cs_clock st))) < entry_ExpiresAt e"
  shows "fst (localGet cache key st) = Some e"
proof -
  obtain r f' where f: "fcGet (ic_local cache) key (cs_l1 st) = (r, f')" by force
  with assms(1,2) have "r = Some b" by (metis fst_conv l1_documented_def)
  with f assms(3-5) show ?thesis by (simp add: localGet_def decode_encode)
qed

lemma Get_first_key:
  assumes "l1_documented (ic_local cache) fits content"
    and "content (cs_l1 st) (Key_Value k) = Some b" "encode (ic_codec cache) e = Some b"
    and "entry_ok (ic_codec cache) e" "\<not> entry_InProgress e"
    and "UnixMilli (readings (cs_clock st) (reads (cs_clock st))) < entry_ExpiresAt e"
  shows "fst (Get cache c (k # ks) st) = Inr (cacheResultFromEntry e (Key_Type k) CacheLayerL1)"
proof -
  have "fst (localGet cache (Key_Value k) st) = Some e"
    by (rule localGet_documented [OF assms(1-4,6)])
  then obtain st1 where "localGet cache (Key_Value k) st = (Some e, st1)" by (metis surjective_pairing)
  with assms(5) show ?thesis by (simp add: Get_def)
qed

lemma writeBoth_l1:
  assumes "l1_documented (ic_local cache) fits content"
  shows "x \<noteq> key \<Longrightarrow> content (cs_l1 (writeBoth cache c key e ttl st)) x \<in> {None, content (cs_l1 st) x}"
    and "encode (ic_codec cache) e = Some b \<Longrightarrow> fits key b \<Longrightarrow>
      content (cs_l1 (writeBoth cache c key e ttl st)) key = Some b"
proof -
  have w: "overwrites key v (content f) (content (fcSet (ic_local cache) key v t f))"
    "fits key v \<Longrightarrow> content (fcSet (ic_local cache) key v t f) key = Some v" for v t f
    using assms by (simp_all add: l1_documented_def l1_faithful_def)
  note frame = writeBoth_frame [of _ cache c key e ttl st, OF refl]
  show "content (cs_l1 (writeBoth cache c key e ttl st)) x \<in> {None, content (cs_l1 st) x}" if "x \<noteq> key"
    using frame overwrites_other [OF w(1) that] by (auto split: option.splits)
  show "content (cs_l1 (writeBoth cache c key e ttl st)) key = Some b"
    if "encode (ic_codec cache) e = Some b" "fits key b"
    using frame that w(2) by simp
qed

lemma none_or_trans: "a \<in> {None, b} \<Longrightarrow> b \<in> {None, c} \<Longrightarrow> a \<in> {None, c}"
  by auto

lemma PutResolved_other:
  assumes "l1_documented (ic_local cache) fits content" "key \<notin> Key_Value ` set ks"
  shows "content (cs_l1 (snd (PutResolved cache c ks result st))) key \<in> {None, content (cs_l1 st) key}"
  using assms(2)
proof (induction ks arbitrary: st)
  case (Cons k ks)
  have W: "content (cs_l1 (writeBoth cache c (Key_Value k) e ttl (st\<lparr>cs_clock := clk\<rparr>))) key \<in>
      {None, content (cs_l1 st) key}" for e ttl clk
    using writeBoth_l1(1) [OF assms(1), of key "Key_Value k" c e ttl "st\<lparr>cs_clock := clk\<rparr>"] Cons.prems by simp
  have IH: "content (cs_l1 (snd (PutResolved cache c ks result s))) key \<in> {None, content (cs_l1 s) key}" for s
    using Cons by simp
  show ?case
    unfolding PutResolved.simps Let_def case_prod_beta by (rule none_or_trans [OF IH W])
qed simp

lemma putNegativeLoop_other:
  assumes "l1_documented (ic_local cache) fits content" "key \<notin> Key_Value ` set ks"
  shows "content (cs_l1 (putNegativeLoop cache c ttl ks meta st)) key \<in> {None, content (cs_l1 st) key}"
  using assms(2)
proof (induction ks arbitrary: st)
  case (Cons k ks)
  have W: "content (cs_l1 (writeBoth cache c (Key_Value k) e ttl (st\<lparr>cs_clock := clk\<rparr>))) key \<in>
      {None, content (cs_l1 st) key}" for e clk
    using writeBoth_l1(1) [OF assms(1), of key "Key_Value k" c e ttl "st\<lparr>cs_clock := clk\<rparr>"] Cons.prems by simp
  have IH: "content (cs_l1 (putNegativeLoop cache c ttl ks meta s)) key \<in> {None, content (cs_l1 s) key}" for s
    using Cons by simp
  show ?case
    unfolding putNegativeLoop.simps Let_def case_prod_beta by (rule none_or_trans [OF IH W])
qed simp

text \<open>The entry that a put writes first, before any clock reading is taken for the others.\<close>

lemma expiry_value:
  "in_int64 (UnixMilli (readings clk (reads clk)) + Milliseconds ttl) \<Longrightarrow>
    fst (expiry ttl clk) = UnixMilli (readings clk (reads clk)) + Milliseconds ttl"
  by (simp add: expiry_def Now_def wrap64_id)

lemma PutResolved_then_Get:
  assumes l1: "l1_documented (ic_local cache) fits content"
    and distinct: "distinct (map Key_Value (k # ks))"
    and put: "PutResolved cache c (k # ks) result st = (err, st1)"
    and ttl: "ttl = EffectiveTTL (ic_policy cache) (Key_Type k) (Result_CacheTTL result)"
    and now: "now = UnixMilli (readings (cs_clock st) (reads (cs_clock st)))"
    and range: "in_int64 (now + Milliseconds ttl)"
    and ok: "entry_ok (ic_codec cache) (fst (resolved result ttl (cs_clock st)))"
    and b: "encode (ic_codec cache) (fst (resolved result ttl (cs_clock st))) = Some b" "fits (Key_Value k) b"
    and held: "content (cs_l1 st2) (Key_Value k) = content (cs_l1 st1) (Key_Value k)"
      "content (cs_l1 st2) (Key_Value k) \<noteq> None"
    and time: "UnixMilli (readings (cs_clock st2) (reads (cs_clock st2))) < now + Milliseconds ttl"
  shows "err = None \<and>
    fst (Get cache c' (k # ks') st2) = Inr
      \<lparr>CR_State = CacheHit, CR_Layer = CacheLayerL1, CR_KeyType = Key_Type k,
       CR_Result = emptyResult\<lparr>Result_EIDs := Result_EIDs result,
         Result_ABTestUUID := Result_ABTestUUID result,
         Result_TerminationCause := Result_TerminationCause result\<rparr>\<rparr>"
proof -
  obtain e clk where e: "resolved result ttl (cs_clock st) = (e, clk)" by force
  let ?st = "writeBoth cache c (Key_Value k) e ttl (st\<lparr>cs_clock := clk\<rparr>)"
  from put e ttl have p: "PutResolved cache c ks result ?st = (err, st1)" by simp
  have err: "err = None" if "PutResolved cache c ks' result s = (err, s')" for ks' s s'
    using that by (induction ks' arbitrary: s) (auto simp: Let_def split: prod.splits)
  have "content (cs_l1 st1) (Key_Value k) \<in> {None, content (cs_l1 ?st) (Key_Value k)}"
    using PutResolved_other [OF l1, of "Key_Value k" ks c result ?st] distinct p by simp
  moreover have "content (cs_l1 ?st) (Key_Value k) = Some b"
    by (rule writeBoth_l1(2) [OF l1]) (use b e in simp_all)
  ultimately have c1: "content (cs_l1 st2) (Key_Value k) = Some b" using held by auto
  have ex: "entry_ExpiresAt e = now + Milliseconds ttl"
    using e range now by (auto simp: resolved_def Let_def case_prod_beta expiry_value)
  have "fst (Get cache c' (k # ks') st2) = Inr (cacheResultFromEntry e (Key_Type k) CacheLayerL1)"
    by (rule Get_first_key [OF l1 c1])
       (use ok b e time ex in \<open>auto simp: resolved_def Let_def case_prod_beta emptyEntry_def\<close>)
  with err [OF p] e show ?thesis
    by (auto simp: cacheResultFromEntry_def resolved_def Let_def case_prod_beta emptyEntry_def)
qed

text \<open>
  C4. What was resolved is what a later lookup returns. With FreeCache as documented, a result
  stored under a list of distinct keys, whose entry fits the local layer, is what a lookup that
  asks for the first key finds: a hit from L1 with exactly the stored EIDs, A/B test id and
  termination cause, in every later state in which L1 still holds what the operation left under
  that key and whose clock is within the key's lifetime. The other writes of the same operation, a store that
  fails and everything else that happened in between do not matter.
\<close>

theorem PutResolved_Get:
  assumes l1: "l1_documented (ic_local cache) fits content"
    and distinct: "distinct (map Key_Value (k # ks))"
    and put: "PutResolved cache c (k # ks) result st = (err, st1)"
    and ttl: "ttl = EffectiveTTL (ic_policy cache) (Key_Type k) (Result_CacheTTL result)"
    and now: "now = UnixMilli (readings (cs_clock st) (reads (cs_clock st)))"
    and range: "in_int64 (now + Milliseconds ttl)"
    and ok: "entry_ok (ic_codec cache) (fst (resolved result ttl (cs_clock st)))"
    and b: "encode (ic_codec cache) (fst (resolved result ttl (cs_clock st))) = Some b" "fits (Key_Value k) b"
    and held: "content (cs_l1 st2) (Key_Value k) = content (cs_l1 st1) (Key_Value k)"
      "content (cs_l1 st2) (Key_Value k) \<noteq> None"
    and time: "UnixMilli (readings (cs_clock st2) (reads (cs_clock st2))) < now + Milliseconds ttl"
  shows "err = None \<and>
    fst (Get cache c' (k # ks') st2) = Inr
      \<lparr>CR_State = CacheHit, CR_Layer = CacheLayerL1, CR_KeyType = Key_Type k,
       CR_Result = emptyResult\<lparr>Result_EIDs := Result_EIDs result,
         Result_ABTestUUID := Result_ABTestUUID result,
         Result_TerminationCause := Result_TerminationCause result\<rparr>\<rparr>"
  by (rule PutResolved_then_Get [OF assms])


subsection \<open>Reference layers\<close>

text \<open>
  In-memory layers and an EID codec that meet the promises, as the tests of the package use
  them: they show that the hypotheses of the statements above and below can hold.
\<close>

definition mapL1 :: "(bytes \<Rightarrow> bytes option) freecache" where
  "mapL1 = \<lparr>fcGet = (\<lambda>k f. (f k, f)), fcSet = (\<lambda>k v t f. f(k \<mapsto> v))\<rparr>"

definition mapL2 :: "(string \<Rightarrow> bytes option) store" where
  "mapL2 =
     \<lparr>Store_Get = (\<lambda>c k s. (Inr (case s k of None \<Rightarrow> [] | Some b \<Rightarrow> b), s)),
      Store_Put = (\<lambda>c k v t s. (None, s(k \<mapsto> v)))\<rparr>"

definition referenceUID :: "UID \<Rightarrow> json" where
  "referenceUID u = JArr [JStr (UID_ID u), JStr (UID_rest u)]"

fun readUID :: "json \<Rightarrow> UID option" where
  "readUID (JArr [JStr i, JStr r]) = Some \<lparr>UID_ID = i, UID_rest = r\<rparr>"
| "readUID _ = None"

definition referenceEID :: "EID \<Rightarrow> json" where
  "referenceEID e =
     JArr [JStr (EID_Source e), JArr (map referenceUID (EID_UIDs e)), JStr (EID_rest e)]"

fun readEID :: "json \<Rightarrow> EID option" where
  "readEID (JArr [JStr s, JArr us, JStr r]) =
     map_option (\<lambda>v. \<lparr>EID_Source = s, EID_UIDs = v, EID_rest = r\<rparr>) (decodeAll readUID us)"
| "readEID _ = None"

definition referenceCodec :: eid_codec where
  "referenceCodec = \<lparr>marshalEID = (\<lambda>e. Some (referenceEID e)), unmarshalEID = readEID\<rparr>"

lemma mapL1_faithful: "l1_faithful mapL1 (\<lambda>f. f)"
  by (simp add: l1_faithful_def mapL1_def overwrites_upd)

lemma mapL1_documented: "l1_documented mapL1 (\<lambda>k v. True) (\<lambda>f. f)"
  by (simp add: l1_documented_def mapL1_faithful) (simp add: mapL1_def)

lemma mapL2_faithful: "l2_faithful mapL2 (\<lambda>s. s)"
  by (auto simp: l2_faithful_def mapL2_def overwrites_upd split: option.splits)

lemma mapL2_documented: "l2_documented mapL2 (\<lambda>s. s)"
  by (simp add: l2_documented_def mapL2_faithful) (simp add: mapL2_def)

text \<open>
  A layer of a given capacity, with FreeCache's limits on keys and entries: a write that is too
  large is refused and the old value stays.
\<close>

definition freecacheFits :: "nat \<Rightarrow> bytes \<Rightarrow> bytes \<Rightarrow> bool" where
  "freecacheFits capacity k v \<longleftrightarrow> length k \<le> 65535 \<and> length k + length v + 24 \<le> capacity div 1024"

definition boundedL1 :: "nat \<Rightarrow> (bytes \<Rightarrow> bytes option) freecache" where
  "boundedL1 capacity =
     \<lparr>fcGet = (\<lambda>k f. (f k, f)), fcSet = (\<lambda>k v t f. if freecacheFits capacity k v then f(k \<mapsto> v) else f)\<rparr>"

lemma boundedL1_documented: "l1_documented (boundedL1 capacity) (freecacheFits capacity) (\<lambda>f. f)"
  by (simp add: l1_documented_def l1_faithful_def boundedL1_def overwrites_upd overwrites_refl)

definition eid_clean :: "EID \<Rightarrow> bool" where
  "eid_clean e \<longleftrightarrow> valid_utf8 (EID_Source e) \<and> valid_utf8 (EID_rest e) \<and>
     list_all (\<lambda>u. valid_utf8 (UID_ID u) \<and> valid_utf8 (UID_rest u)) (EID_UIDs e)"

lemma decodeAll_readUID: "decodeAll readUID (map referenceUID us) = Some us"
  by (induction us) (auto simp: referenceUID_def)

lemma referenceCodec_roundtrips: "eid_clean e \<Longrightarrow> eid_roundtrips referenceCodec e"
proof -
  assume c: "eid_clean e"
  have "readEID (referenceEID e) = Some e"
    by (simp add: referenceEID_def decodeAll_readUID)
  moreover have "jsonOk (maxNestingDepth - 2) (referenceEID e)"
    using c by (auto simp: referenceEID_def referenceUID_def eid_clean_def maxNestingDepth_def list_all_iff)
  ultimately show ?thesis by (simp add: eid_roundtrips_def referenceCodec_def)
qed

subsection \<open>Negative results and in-progress markers\<close>

text \<open>
  C15. A negative result is remembered as such: with FreeCache as documented, a lookup that asks
  for the first key gives a negative answer from L1 with the metadata that was stored and no EIDs,
  in every later state in which L1 still holds what the operation left under that key and whose
  clock is within the lifetime of the negative result.
\<close>

theorem PutNegative_Get:
  assumes l1: "l1_documented (ic_local cache) fits content"
    and distinct: "distinct (map Key_Value (k # ks))"
    and put: "PutNegative cache c (k # ks) meta st = (err, st1)"
    and ttl: "ttl = NegativeTTLFor (ic_policy cache) (Meta_CacheTTL meta)"
    and now: "now = UnixMilli (readings (cs_clock st) (reads (cs_clock st)))"
    and range: "in_int64 (now + Milliseconds ttl)"
    and ok: "entry_ok (ic_codec cache) (fst (negative meta ttl (cs_clock st)))"
    and b: "encode (ic_codec cache) (fst (negative meta ttl (cs_clock st))) = Some b" "fits (Key_Value k) b"
    and held: "content (cs_l1 st2) (Key_Value k) = content (cs_l1 st1) (Key_Value k)"
      "content (cs_l1 st2) (Key_Value k) \<noteq> None"
    and time: "UnixMilli (readings (cs_clock st2) (reads (cs_clock st2))) < now + Milliseconds ttl"
  shows "err = None \<and>
    fst (Get cache c' (k # ks') st2) = Inr
      \<lparr>CR_State = CacheNegative, CR_Layer = CacheLayerL1, CR_KeyType = Key_Type k,
       CR_Result = emptyResult\<lparr>Result_ABTestUUID := Meta_ABTestUUID meta,
         Result_TerminationCause := Meta_TerminationCause meta\<rparr>\<rparr>"
proof -
  obtain e clk where e: "negative meta ttl (cs_clock st) = (e, clk)" by force
  let ?st = "writeBoth cache c (Key_Value k) e ttl (st\<lparr>cs_clock := clk\<rparr>)"
  from put e ttl have p: "st1 = putNegativeLoop cache c ttl ks meta ?st" "err = None"
    by (auto simp: PutNegative_def Let_def)
  have "content (cs_l1 st1) (Key_Value k) \<in> {None, content (cs_l1 ?st) (Key_Value k)}"
    using putNegativeLoop_other [OF l1, of "Key_Value k" ks c ttl meta ?st] distinct p by simp
  moreover have "content (cs_l1 ?st) (Key_Value k) = Some b"
    by (rule writeBoth_l1(2) [OF l1]) (use b e in simp_all)
  ultimately have c1: "content (cs_l1 st2) (Key_Value k) = Some b" using held by auto
  have ex: "entry_ExpiresAt e = now + Milliseconds ttl"
    using e range now by (auto simp: negative_def Let_def case_prod_beta expiry_value)
  have "fst (Get cache c' (k # ks') st2) = Inr (cacheResultFromEntry e (Key_Type k) CacheLayerL1)"
    by (rule Get_first_key [OF l1 c1])
       (use ok b e time ex in \<open>auto simp: negative_def Let_def case_prod_beta emptyEntry_def\<close>)
  with p(2) e show ?thesis
    by (auto simp: cacheResultFromEntry_def negative_def Let_def case_prod_beta emptyEntry_def)
qed

text \<open>A byte string that decodes to an in-progress marker.\<close>

definition marker :: "eid_codec \<Rightarrow> bytes option \<Rightarrow> bool" where
  "marker codec b \<longleftrightarrow> (\<exists>x e. b = Some x \<and> decodeEntry codec x = Some e \<and> entry_InProgress e)"

lemma decodeEntry_bytes: "decodeEntry codec x = Some e \<Longrightarrow> x \<noteq> []"
  by (auto simp: decodeEntry_def parseJSON_def expect_def skipWS_def parseScalar_def numeral_2_eq_2)

text \<open>A read that does not fail finds the live entry that is there.\<close>

lemma getFromStore_answers:
  assumes l2: "l2_documented (ic_store cache) content"
    and b: "content (cs_l2 st) key = Some b" "decodeEntry (ic_codec cache) b = Some e"
    and read: "fst (Store_Get (ic_store cache) c key (cs_l2 st)) = Inr v"
    and time: "UnixMilli (readings (cs_clock st) (reads (cs_clock st) + 2)) < entry_ExpiresAt e"
  shows "fst (getFromStore cache c key st) = Some e"
proof -
  obtain r s' where f: "Store_Get (ic_store cache) c key (cs_l2 st) = (r, s')" by force
  have "v = (case content (cs_l2 st) key of None \<Rightarrow> [] | Some v \<Rightarrow> v)"
    using l2 read unfolding l2_documented_def by blast
  with f b(1) read have r: "r = Inr b" by simp
  have "\<not> entry_ExpiresAt e \<le> UnixMilli (readings (cs_clock st) (Suc (Suc (reads (cs_clock st)))))"
    using time by simp
  with f r b(2) decodeEntry_bytes [OF b(2)] show ?thesis
    by (auto simp: getFromStore_def tick_def Now_def Let_def decode_def)
qed

text \<open>Behind a first marker, keys that hold markers or nothing change nothing.\<close>

lemma getL2Loop_markers:
  assumes l2: "l2_faithful (ic_store cache) content"
  shows "\<forall>k\<in>set keys. content (cs_l2 st) (Key_Value k) = None \<or> marker (ic_codec cache) (content (cs_l2 st) (Key_Value k)) \<Longrightarrow>
    fst (getL2Loop cache c index (Some t) keys st) = Inl (Some t)"
proof (induction keys arbitrary: index st)
  case (Cons k keys)
  obtain v st1 where g: "getFromStore cache c (Key_Value k) st = (v, st1)" by force
  note s = getFromStore_sound [OF l2 g]
  have v: "entry_InProgress e" if "v = Some e" for e
    using s that Cons.prems by (auto simp: marker_def)
  have sub: "content (cs_l2 st1) x = None \<or> content (cs_l2 st1) x = content (cs_l2 st) x" for x
    using s by (metis map_le_SomeD option.exhaust)
  have "\<forall>k\<in>set keys. content (cs_l2 st1) (Key_Value k) = None \<or> marker (ic_codec cache) (content (cs_l2 st1) (Key_Value k))"
    using Cons.prems sub by (metis list.set_intros(2))
  from Cons.IH [OF this, of "Suc index"] g v show ?case by (auto split: option.splits)
qed simp

lemma inProgress_entry:
  "inProgress ttl clk = (e, clk') \<Longrightarrow>
    entry_ok codec e \<and> entry_InProgress e \<and> clk' = snd (Now clk) \<and>
    (in_int64 (UnixMilli (readings clk (reads clk)) + Milliseconds ttl) \<longrightarrow>
      entry_ExpiresAt e = UnixMilli (readings clk (reads clk)) + Milliseconds ttl)"
  by (auto simp: inProgress_def expiry_def Now_def emptyEntry_def entry_ok_def wrap64_range wrap64_id)

text \<open>One marker, written without an error.\<close>

lemma putInProgressLoop_Cons:
  assumes l2: "l2_documented (ic_store cache) content" and ttl: "0 < ttl"
    and put: "putInProgressLoop cache c ttl fe (k # keys) st = (None, st')"
  obtains e b st1 where "inProgress ttl (cs_clock st) = (e, snd (Now (cs_clock st)))"
    "encode (ic_codec cache) e = Some b" "decodeEntry (ic_codec cache) b = Some e" "entry_InProgress e"
    "content (cs_l2 st1) (Key_Value k) = Some b"
    "\<forall>x. x \<noteq> Key_Value k \<longrightarrow> content (cs_l2 st1) x \<in> {None, content (cs_l2 st) x}"
    "putInProgressLoop cache c ttl None keys st1 = (None, st')"
proof -
  obtain e clk where e: "inProgress ttl (cs_clock st) = (e, clk)" by force
  note ie = inProgress_entry [OF e, of "ic_codec cache"]
  then obtain b where b: "encode (ic_codec cache) e = Some b" "decodeEntry (ic_codec cache) b = Some e"
    by (metis decodeEntry_encode)
  obtain w st1 where w: "writeL2 cache c (Key_Value k) b ttl (st\<lparr>cs_clock := clk\<rparr>) = (w, st1)" by force
  note fr = writeL2_frame [OF w]
  have first: "fe' = None" if "putInProgressLoop cache c ttl fe' keys s = (None, s')" for fe' s s'
    using that
  proof (induction keys arbitrary: fe' s)
    case (Cons k ks)
    then show ?case by (cases fe') (auto simp: Let_def split: prod.splits)
  qed simp
  have rec: "putInProgressLoop cache c ttl (case fe of None \<Rightarrow> w | Some x \<Rightarrow> Some x) keys st1 = (None, st')"
    using put e b(1) w by simp
  with first have "(case fe of None \<Rightarrow> w | Some x \<Rightarrow> Some x) = None" by blast
  then have "w = None" by (auto split: option.splits)
  then have "content (cs_l2 st1) (Key_Value k) = Some b"
    using fr l2 ttl by (simp add: l2_documented_def)
  moreover have "content (cs_l2 st1) x \<in> {None, content (cs_l2 st) x}" if "x \<noteq> Key_Value k" for x
    using overwrites_other [OF _ that, of b "content (cs_l2 st)" "content (cs_l2 st1)"] fr l2
    by (simp add: l2_documented_def l2_faithful_def)
  moreover have "putInProgressLoop cache c ttl None keys st1 = (None, st')"
    using rec first [OF rec] by simp
  ultimately show thesis using e ie b by (intro that [of e b st1]) simp_all
qed

lemma putInProgressLoop_markers:
  assumes l2: "l2_documented (ic_store cache) content" and ttl: "0 < ttl"
  shows "putInProgressLoop cache c ttl fe keys st = (None, st') \<Longrightarrow>
    (\<forall>x. content (cs_l2 st') x = None \<or> x \<notin> Key_Value ` set keys \<and> content (cs_l2 st') x = content (cs_l2 st) x \<or>
       x \<in> Key_Value ` set keys \<and> marker (ic_codec cache) (content (cs_l2 st') x))"
proof (induction keys arbitrary: fe st)
  case (Cons k keys)
  obtain e b st1 where s: "inProgress ttl (cs_clock st) = (e, snd (Now (cs_clock st)))"
    "encode (ic_codec cache) e = Some b" "decodeEntry (ic_codec cache) b = Some e" "entry_InProgress e"
    "content (cs_l2 st1) (Key_Value k) = Some b"
    "\<forall>x. x \<noteq> Key_Value k \<longrightarrow> content (cs_l2 st1) x \<in> {None, content (cs_l2 st) x}"
    "putInProgressLoop cache c ttl None keys st1 = (None, st')"
    by (rule putInProgressLoop_Cons [OF l2 ttl Cons.prems]) (rule that)
  have "marker (ic_codec cache) (content (cs_l2 st1) (Key_Value k))" using s(3-5) by (auto simp: marker_def)
  with Cons.IH [OF s(7)] s(6) show ?case
    by (metis image_insert insert_iff list.simps(15) singletonD)
qed simp

lemma getL1Loop_absent:
  assumes l1: "l1_faithful (ic_local cache) content"
  shows "\<forall>k\<in>set keys. content (cs_l1 st) (Key_Value k) = None \<Longrightarrow>
    \<exists>l1. getL1Loop cache index keys st = (None, st\<lparr>cs_l1 := l1\<rparr>)"
proof (induction keys arbitrary: index st)
  case Nil
  have "st = st\<lparr>cs_l1 := cs_l1 st\<rparr>" by simp
  then show ?case by (metis getL1Loop.simps(1))
next
  case (Cons k keys)
  obtain r f where f: "fcGet (ic_local cache) (Key_Value k) (cs_l1 st) = (r, f)" by force
  from l1 have "fst (fcGet (ic_local cache) (Key_Value k) (cs_l1 st)) = None \<or>
      fst (fcGet (ic_local cache) (Key_Value k) (cs_l1 st)) = content (cs_l1 st) (Key_Value k)"
    and sub: "content (snd (fcGet (ic_local cache) (Key_Value k) (cs_l1 st))) \<subseteq>\<^sub>m content (cs_l1 st)"
    unfolding l1_faithful_def by blast+
  with f Cons.prems have r: "r = None" by auto
  have "content f k' = None" if "content (cs_l1 st) k' = None" for k'
    using sub f that map_le_SomeD [of "content f" "content (cs_l1 st)" k']
    by (cases "content f k'") auto
  with Cons.prems have "\<forall>k\<in>set keys. content (cs_l1 (st\<lparr>cs_l1 := f\<rparr>)) (Key_Value k) = None" by simp
  from Cons.IH [OF this, of "Suc index"] f r show ?case by (auto simp: localGet_def)
qed

lemma PutInProgress_then_Get:
  assumes l2: "l2_documented (ic_store here) content"
    and there: "ic_store there = ic_store here" "ic_codec there = ic_codec here"
    and l1: "l1_faithful (ic_local there) lcontent"
    and distinct: "distinct (map Key_Value (k # ks))" and ttl: "0 < ttl"
    and put: "PutInProgress here c (k # ks) ttl st = (None, st1)"
    and now: "now = UnixMilli (readings (cs_clock st) (reads (cs_clock st)))"
    and range: "in_int64 (now + Milliseconds ttl)"
    and held: "content (cs_l2 st2) (Key_Value k) \<noteq> None"
      "list_all (\<lambda>x. content (cs_l2 st2) (Key_Value x) \<in> {None, content (cs_l2 st1) (Key_Value x)}) (k # ks)"
    and absent: "list_all (\<lambda>x. lcontent (cs_l1 st2) (Key_Value x) = None) (k # ks)"
    and read: "fst (Store_Get (ic_store here) c' (Key_Value k) (cs_l2 st2)) = Inr v"
    and time: "UnixMilli (readings (cs_clock st2) (reads (cs_clock st2) + 2)) < now + Milliseconds ttl"
  shows "cs_l1 st1 = cs_l1 st \<and>
    fst (Get there c' (k # ks) st2) = Inr (inProgressResult (Key_Type k) CacheLayerL2)"
proof -
  let ?codec = "ic_codec here"
  have p: "putInProgressLoop here c ttl None (k # ks) st = (None, st1)"
    using put by (simp add: PutInProgress_def)
  obtain e b s where s: "inProgress ttl (cs_clock st) = (e, snd (Now (cs_clock st)))"
    "encode (ic_codec here) e = Some b" "decodeEntry (ic_codec here) b = Some e" "entry_InProgress e"
    "content (cs_l2 s) (Key_Value k) = Some b"
    "\<forall>x. x \<noteq> Key_Value k \<longrightarrow> content (cs_l2 s) x \<in> {None, content (cs_l2 st) x}"
    "putInProgressLoop here c ttl None ks s = (None, st1)"
    by (rule putInProgressLoop_Cons [OF l2 ttl p]) (rule that)
  have ex: "entry_ExpiresAt e = now + Milliseconds ttl"
    using inProgress_entry [OF s(1)] range now by blast
  have "content (cs_l2 st1) (Key_Value k) \<in> {None, Some b}"
    using putInProgressLoop_markers [OF l2 ttl s(7)] distinct s(5) by (metis distinct.simps(2) insertCI list.set_map list.simps(9))
  with held have b2: "content (cs_l2 st2) (Key_Value k) = Some b" by auto
  have "content (cs_l2 st1) (Key_Value x) = None \<or> marker ?codec (content (cs_l2 st1) (Key_Value x))" if "x \<in> set ks" for x
    using putInProgressLoop_markers [OF l2 ttl s(7), THEN spec, of "Key_Value x"] that by auto
  with held(2) have rest: "content (cs_l2 st2) (Key_Value x) = None \<or> marker ?codec (content (cs_l2 st2) (Key_Value x))"
    if "x \<in> set ks" for x using that by (simp add: list_all_iff) metis
  obtain f where g1: "getL1Loop there 0 (k # ks) st2 = (None, st2\<lparr>cs_l1 := f\<rparr>)"
    using getL1Loop_absent [OF l1, of "k # ks" st2 0] absent by (auto simp: list_all_iff)
  have f2: "l2_faithful (ic_store there) content" using l2 there by (simp add: l2_documented_def)
  obtain w st3 where g2: "getFromStore there c' (Key_Value k) (st2\<lparr>cs_l1 := f\<rparr>) = (w, st3)" by force
  have "fst (getFromStore there c' (Key_Value k) (st2\<lparr>cs_l1 := f\<rparr>)) = Some e"
    by (rule getFromStore_answers [where content = content and b = b and v = v])
       (use l2 there b2 s(3) read time ex in simp_all)
  with g2 have w: "w = Some e" by simp
  have "content (cs_l2 st3) \<subseteq>\<^sub>m content (cs_l2 st2)" using getFromStore_sound [OF f2 g2] by simp
  then have "content (cs_l2 st3) x \<in> {None, content (cs_l2 st2) x}" for x
    by (cases "content (cs_l2 st3) x") (auto dest: map_le_SomeD)
  with rest have "\<forall>x\<in>set ks. content (cs_l2 st3) (Key_Value x) = None \<or>
      marker (ic_codec there) (content (cs_l2 st3) (Key_Value x))" using there by fastforce
  from getL2Loop_markers [OF f2 this, of c' 1 "Key_Type k"] g1 g2 w s(4)
  have "fst (Get there c' (k # ks) st2) = Inr (inProgressResult (Key_Type k) CacheLayerL2)"
    by (auto simp: Get_def split: prod.splits sum.splits option.splits)
  moreover have "cs_l1 st1 = cs_l1 st" using putInProgressLoop_l1 [of here c ttl None "k # ks" st] p by simp
  ultimately show ?thesis by blast
qed



subsection \<open>Lifetimes of what is written\<close>

text \<open>Layers that behave as the given ones and also record the writes they receive.\<close>

type_synonym puts = "(string \<times> bytes \<times> duration) list"

definition recording :: "'s store \<Rightarrow> ('s \<times> puts) store" where
  "recording base =
     \<lparr>Store_Get = (\<lambda>c k s. case Store_Get base c k (fst s) of (r, s') \<Rightarrow> (r, s', snd s)),
      Store_Put = (\<lambda>c k v t s. case Store_Put base c k v t (fst s) of
         (e, s') \<Rightarrow> (e, s', snd s @ [(k, v, t)]))\<rparr>"

definition recordingL1 :: "'f freecache \<Rightarrow> ('f \<times> (bytes \<times> bytes \<times> int) list) freecache" where
  "recordingL1 base =
     \<lparr>fcGet = (\<lambda>k f. case fcGet base k (fst f) of (r, f') \<Rightarrow> (r, f', snd f)),
      fcSet = (\<lambda>k v t f. (fcSet base k v t (fst f), snd f @ [(k, v, t)]))\<rparr>"

definition recorded ::
  "('f \<times> (bytes \<times> bytes \<times> int) list, 's \<times> puts) identityCache \<Rightarrow> bool" where
  "recorded cache \<longleftrightarrow> (\<exists>fc s. ic_local cache = recordingL1 fc \<and> ic_store cache = recording s)"

text \<open>
  The writes of a later state that are not yet in an earlier one: both layers got the same ones,
  L1 with the lifetime in whole seconds, and all of them satisfy a predicate.
\<close>

definition new_writes :: "(string \<times> bytes \<times> duration \<Rightarrow> bool) \<Rightarrow>
    ('f \<times> (bytes \<times> bytes \<times> int) list, 's \<times> puts) cacheState \<Rightarrow>
    ('f \<times> (bytes \<times> bytes \<times> int) list, 's \<times> puts) cacheState \<Rightarrow> bool" where
  "new_writes P st st' \<longleftrightarrow>
     (\<exists>new. snd (cs_l2 st') = snd (cs_l2 st) @ new \<and>
        snd (cs_l1 st') = snd (cs_l1 st) @ map (\<lambda>(k, b, ttl). (k, b, freeCacheTTLSeconds ttl)) new \<and>
        list_all P new)"

text \<open>An entry expires a lifetime after one of the readings taken between two clock states.\<close>

definition expires_after :: "clock_state \<Rightarrow> clock_state \<Rightarrow> duration \<Rightarrow> entry \<Rightarrow> bool" where
  "expires_after a b ttl e \<longleftrightarrow>
     (\<exists>i. reads a \<le> i \<and> i < reads b \<and>
        entry_ExpiresAt e = wrap64 (UnixMilli (readings a i) + Milliseconds ttl))"

lemma expires_after_mono:
  "expires_after b c ttl e \<Longrightarrow> clock_le a b \<Longrightarrow> clock_le c d \<Longrightarrow> expires_after a d ttl e"
  unfolding expires_after_def clock_le_def by (metis le_trans order_less_le_trans)

lemma new_writes_same:
  "snd (cs_l1 st') = snd (cs_l1 st) \<Longrightarrow> cs_l2 st' = cs_l2 st \<Longrightarrow> new_writes P st st'"
  by (simp add: new_writes_def)

lemma new_writes_trans: "new_writes P a b \<Longrightarrow> new_writes P b c \<Longrightarrow> new_writes P a c"
  by (auto simp: new_writes_def)

lemma new_writes_mono:
  "new_writes P a b \<Longrightarrow> (\<And>k v t. P (k, v, t) \<Longrightarrow> Q (k, v, t)) \<Longrightarrow> new_writes Q a b"
  unfolding new_writes_def list_all_iff by (metis prod_cases3)

lemma localGet_records: "recorded cache \<Longrightarrow> new_writes P st (snd (localGet cache key st))"
  by (auto simp: recorded_def recordingL1_def localGet_def new_writes_def split: option.splits prod.splits)

lemma writeBoth_records:
  assumes "recorded cache" and "\<And>b. encode (ic_codec cache) e = Some b \<Longrightarrow> P (key, b, ttl)"
  shows "new_writes P st (writeBoth cache c key e ttl st)"
proof (cases "encode (ic_codec cache) e")
  case None
  then show ?thesis by (simp add: writeBoth_def new_writes_same)
next
  case (Some b)
  with writeBoth_frame [of _ cache c key e ttl st, OF refl] assms show ?thesis
    by (auto simp: recorded_def recording_def recordingL1_def new_writes_def case_prod_beta)
qed

lemma EffectiveTTL_bounds:
  "policy_ok p \<Longrightarrow> 0 < EffectiveTTL p t d \<and> EffectiveTTL p t d \<le> CeilingFor p t"
  by (simp add: EffectiveTTL_pos EffectiveTTL_le_ceiling)

text \<open>What storing a result may write, between two clock states.\<close>

definition resolved_write :: "('f, 's) identityCache \<Rightarrow> CacheKey list \<Rightarrow> Result \<Rightarrow> clock_state \<Rightarrow>
    clock_state \<Rightarrow> string \<times> bytes \<times> duration \<Rightarrow> bool" where
  "resolved_write cache keys result clk clk' p \<longleftrightarrow>
     (case p of (k, b, ttl) \<Rightarrow>
        (\<exists>key\<in>set keys. k = Key_Value key \<and> 0 < ttl \<and> ttl \<le> CeilingFor (ic_policy cache) (Key_Type key)) \<and>
        (\<exists>e. encode (ic_codec cache) e = Some b \<and> entry_EIDs e = Result_EIDs result \<and>
           \<not> entry_Negative e \<and> \<not> entry_InProgress e \<and> expires_after clk clk' ttl e))"

lemma resolved_write_mono:
  "resolved_write cache keys result b c p \<Longrightarrow> set keys \<subseteq> set keys' \<Longrightarrow> clock_le a b \<Longrightarrow> clock_le c d \<Longrightarrow>
    resolved_write cache keys' result a d p"
  unfolding resolved_write_def by (auto intro: expires_after_mono)

lemma resolved_entry:
  "resolved result ttl clk = (e, clk') \<Longrightarrow>
    entry_EIDs e = Result_EIDs result \<and> \<not> entry_Negative e \<and> \<not> entry_InProgress e \<and>
    expires_after clk clk' ttl e \<and> clock_le clk clk'"
  by (auto simp: resolved_def expiry_def Now_def emptyEntry_def expires_after_def clock_le_def Let_def)

lemma PutResolved_writes:
  assumes pol: "policy_ok (ic_policy cache)" and rec: "recorded cache"
  shows "PutResolved cache c keys result st = (err, st') \<Longrightarrow>
    clock_le (cs_clock st) (cs_clock st') \<and>
    new_writes (resolved_write cache keys result (cs_clock st) (cs_clock st')) st st'"
proof (induction keys arbitrary: st)
  case (Cons k keys)
  let ?ttl = "EffectiveTTL (ic_policy cache) (Key_Type k) (Result_CacheTTL result)"
  obtain e clk where e: "resolved result ?ttl (cs_clock st) = (e, clk)" by force
  note en = resolved_entry [OF e]
  let ?st = "st\<lparr>cs_clock := clk\<rparr>"
  let ?st1 = "writeBoth cache c (Key_Value k) e ?ttl ?st"
  have w: "new_writes (resolved_write cache (k # keys) result (cs_clock st) clk) ?st ?st1"
    by (rule writeBoth_records [OF rec])
       (use en EffectiveTTL_bounds [OF pol] in \<open>auto simp: resolved_write_def\<close>)
  have le1: "clock_le clk (cs_clock ?st1)" using writeBoth_clock [of ?st cache c "Key_Value k" e ?ttl] by simp
  from Cons.prems e have "PutResolved cache c keys result ?st1 = (err, st')" by simp
  note IH = Cons.IH [OF this]
  have le: "clock_le (cs_clock st) (cs_clock ?st1)" "clock_le clk (cs_clock st')"
    using en le1 IH by (blast intro: clock_le_trans)+
  let ?P = "resolved_write cache (k # keys) result (cs_clock st) (cs_clock st')"
  have "new_writes ?P ?st ?st1"
    by (rule new_writes_mono [OF w]) (erule resolved_write_mono, use le in auto)
  moreover have "new_writes ?P ?st1 st'"
    by (rule new_writes_mono [OF conjunct2 [OF IH]]) (erule resolved_write_mono, use le in auto)
  ultimately have "new_writes ?P ?st st'" by (rule new_writes_trans)
  with le IH show ?case by (auto simp: new_writes_def intro: clock_le_trans)
qed (simp add: new_writes_same)


lemma alias_ttl:
  assumes "0 < ceil" "0 < rem" "in_int64 ceil"
    and "ms = (if Milliseconds ceil < rem then Milliseconds ceil else rem)"
    and "ttl = mulDuration ms time_Millisecond"
  shows "0 \<le> ttl \<and> ttl \<le> ceil \<and> Milliseconds ttl = ms \<and> ms \<le> rem"
proof -
  have c: "0 \<le> Milliseconds ceil" "Milliseconds ceil * time_Millisecond \<le> ceil"
    using assms(1) by (simp_all add: Milliseconds_nonneg Milliseconds_le)
  have ms: "0 \<le> ms" "ms \<le> Milliseconds ceil" "ms \<le> rem" using assms(2,4) c(1) by auto
  then have "ms * time_Millisecond \<le> Milliseconds ceil * time_Millisecond"
    by (simp add: time_Millisecond_def)
  with c(2) have le: "ms * time_Millisecond \<le> ceil" by linarith
  have "in_int64 (ms * time_Millisecond)"
    using le ms(1) assms(3) by (simp add: in_int64_def time_Millisecond_def)
  then have "ttl = ms * time_Millisecond" using assms(5) by (simp add: mulDuration_id)
  moreover have "0 \<le> ms * time_Millisecond" using ms(1) by (simp add: time_Millisecond_def)
  ultimately show ?thesis using le ms by (simp add: Milliseconds_unit)
qed


definition policy_range :: "TTLPolicy \<Rightarrow> bool" where
  "policy_range p \<longleftrightarrow> in_int64 (Default p) \<and> in_int64 (FirstPartyCeiling p) \<and>
     in_int64 (ThirdPartyCeiling p) \<and> in_int64 (DeviceCeiling p)"

lemma CeilingFor_range: "policy_range p \<Longrightarrow> in_int64 (CeilingFor p t)"
  by (cases t) (auto simp: policy_range_def)

text \<open>What backfilling a hit may write, between two clock states.\<close>

definition alias_write :: "('f, 's) identityCache \<Rightarrow> CacheKey list \<Rightarrow> entry \<Rightarrow> int \<Rightarrow> clock_state \<Rightarrow>
    clock_state \<Rightarrow> string \<times> bytes \<times> duration \<Rightarrow> bool" where
  "alias_write cache keys hit remaining clk clk' p \<longleftrightarrow>
     (case p of (k, b, ttl) \<Rightarrow>
        (\<exists>key\<in>set keys. k = Key_Value key \<and> ttl \<le> CeilingFor (ic_policy cache) (Key_Type key)) \<and>
        0 \<le> ttl \<and> Milliseconds ttl \<le> remaining \<and>
        (\<exists>ex. encode (ic_codec cache) (hit\<lparr>entry_ExpiresAt := ex\<rparr>) = Some b \<and>
           expires_after clk clk' ttl (hit\<lparr>entry_ExpiresAt := ex\<rparr>)))"

lemma alias_write_mono:
  "alias_write cache keys hit remaining b c p \<Longrightarrow> clock_le a b \<Longrightarrow> clock_le c d \<Longrightarrow>
    alias_write cache keys hit remaining a d p"
  unfolding alias_write_def by (auto intro: expires_after_mono)

lemma tick_expires:
  "tick st = (t, st') \<Longrightarrow>
    expires_after (cs_clock st) (cs_clock st') ttl (e\<lparr>entry_ExpiresAt := wrap64 (UnixMilli t + Milliseconds ttl)\<rparr>)"
  by (auto simp: tick_def Now_def expires_after_def)

lemma backfillLoop_alias_writes:
  assumes pol: "policy_ok (ic_policy cache)" "policy_range (ic_policy cache)"
    and rec: "recorded cache" and rem: "0 < remaining"
    and st': "st' = backfillLoop cache c hi hit remaining index keys st"
    and K: "set keys \<subseteq> set K"
  shows "new_writes (alias_write cache K hit remaining (cs_clock st) (cs_clock st')) st st'"
  using st' K
proof (induction keys arbitrary: index st)
  case (Cons k keys)
  let ?P = "\<lambda>a. alias_write cache K hit remaining (cs_clock a) (cs_clock st')"
  obtain v st1 where g: "localGet cache (Key_Value k) st = (v, st1)" by force
  have le1: "clock_le (cs_clock st) (cs_clock st1)" and w1: "new_writes Q st st1" for Q
    using localGet_frame(2) [of st cache "Key_Value k"] localGet_records [OF rec, of Q st "Key_Value k"] g by simp_all
  have later: "new_writes (?P st) a st'" if "new_writes (?P a) a st'" "clock_le (cs_clock st) (cs_clock a)" for a
    by (rule new_writes_mono [OF that(1)]) (erule alias_write_mono [OF _ that(2)], simp)
  show ?case
  proof (cases "index = hi \<or> v \<noteq> None")
    case True
    then show ?thesis
      using g Cons.prems Cons.IH [of "Suc index"] later [of st1] le1 new_writes_trans [OF w1]
      by (auto split: if_splits option.splits)
  next
    case False
    let ?ceil = "CeilingFor (ic_policy cache) (Key_Type k)"
    let ?ms = "if Milliseconds ?ceil < remaining then Milliseconds ?ceil else remaining"
    let ?ttl = "mulDuration ?ms time_Millisecond"
    obtain t st2 where t: "tick st1 = (t, st2)" by force
    have le2: "clock_le (cs_clock st1) (cs_clock st2)" and w2: "new_writes Q st1 st2" for Q
      using tick_simps(2,3,5) [of st1] t by (simp_all add: new_writes_same)
    let ?e = "hit\<lparr>entry_ExpiresAt := wrap64 (UnixMilli t + ?ms)\<rparr>"
    let ?st3 = "writeBoth cache c (Key_Value k) ?e ?ttl st2"
    have le3: "clock_le (cs_clock st2) (cs_clock ?st3)" by (rule writeBoth_clock)
    have s': "st' = backfillLoop cache c hi hit remaining (Suc index) keys ?st3"
      using Cons.prems(1) False g t by (simp add: Let_def)
    have le4: "clock_le (cs_clock ?st3) (cs_clock st')" unfolding s' by (rule backfillLoop_clock)
    have b: "0 \<le> ?ttl \<and> ?ttl \<le> ?ceil \<and> Milliseconds ?ttl = ?ms \<and> ?ms \<le> remaining"
      by (rule alias_ttl [OF CeilingFor_pos [OF pol(1)] rem CeilingFor_range [OF pol(2)] refl refl])
    have "expires_after (cs_clock st1) (cs_clock st2) ?ttl ?e"
      using tick_expires [OF t, of ?ttl hit] b by simp
    then have "expires_after (cs_clock st) (cs_clock st') ?ttl ?e"
      by (rule expires_after_mono) (use le1 le3 le4 in \<open>blast intro: clock_le_trans\<close>)+
    then have "new_writes (?P st) st2 ?st3"
      by (intro writeBoth_records [OF rec]) (use Cons.prems(2) b in \<open>auto simp: alias_write_def\<close>)
    moreover have "new_writes (?P st) ?st3 st'"
      by (rule later [OF Cons.IH [OF s']]) (use Cons.prems(2) le1 le2 le3 in \<open>auto intro: clock_le_trans\<close>)
    ultimately show ?thesis using w1 w2 by (blast intro: new_writes_trans)
  qed
qed (simp add: new_writes_same)


subsection \<open>The cache meets the enricher's contract\<close>

definition identityCacheOps :: "('f, 's) identityCache \<Rightarrow> ('f, 's) cacheState CacheOps" where
  "identityCacheOps cache =
     \<lparr>ops_Get = Get cache, ops_PutResolved = PutResolved cache, ops_PutNegative = PutNegative cache,
      ops_PutInProgress = PutInProgress cache\<rparr>"

lemma PutResolved_no_error: "fst (PutResolved cache c keys result st) = None"
  by (induction keys arbitrary: st) (auto simp: Let_def split: prod.splits)

lemma Get_result_cases:
  "\<exists>r. fst (Get cache c keys st) = Inr r \<and>
    (r = missResult \<or> (\<exists>t. r = inProgressResult t CacheLayerL2) \<or>
     (\<exists>e t layer. r = cacheResultFromEntry e t layer \<and> layer \<in> {CacheLayerL1, CacheLayerL2} \<and>
       \<not> entry_InProgress e))"
proof -
  have l1: "\<not> entry_InProgress e" if "getL1Loop cache i ks s = (Some (j, k, e), s')" for i ks s j k e s'
    using that by (induction cache i ks s rule: getL1Loop.induct) (auto split: prod.splits option.splits if_splits)
  have l2: "\<not> entry_InProgress e" if "getL2Loop cache c i ip ks s = (Inr (j, k, e), s')" for i ip ks s j k e s'
    using that by (induction cache c i ip ks s rule: getL2Loop.induct)
      (auto split: prod.splits option.splits if_splits)
  show ?thesis
  proof (cases "keys = []")
    case False
    obtain a s1 where g1: "getL1Loop cache 0 keys st = (a, s1)" by force
    show ?thesis
    proof (cases a)
      case (Some t)
      then obtain i k e where a: "a = Some (i, k, e)" by (cases t) auto
      with g1 False have "fst (Get cache c keys st) = Inr (cacheResultFromEntry e (Key_Type k) CacheLayerL1)"
        by (simp add: Get_def)
      with l1 [OF g1 [unfolded a]] show ?thesis by blast
    next
      case None
      obtain b s2 where g2: "getL2Loop cache c 0 None keys s1 = (b, s2)" by force
      show ?thesis
      proof (cases b)
        case (Inl ip)
        with None g1 g2 False show ?thesis by (cases ip) (auto simp: Get_def)
      next
        case (Inr t)
        then obtain i k e where b: "b = Inr (i, k, e)" by (cases t) auto
        with None g1 g2 False
        have "fst (Get cache c keys st) = Inr (cacheResultFromEntry e (Key_Type k) CacheLayerL2)"
          by (simp add: Get_def)
        with l2 [OF g2 [unfolded b]] show ?thesis by blast
      qed
    qed
  qed (simp add: Get_def)
qed

interpretation ic: enrichment_cache "identityCacheOps cache" for cache
proof
  fix c keys st
  show "\<exists>r. fst (ops_Get (identityCacheOps cache) c keys st) = Inr r"
    using Get_result_cases [of cache c keys st] by (auto simp: identityCacheOps_def)
next
  fix c keys st r
  assume "fst (ops_Get (identityCacheOps cache) c keys st) = Inr r"
  with Get_result_cases [of cache c keys st]
  have r: "r = missResult \<or> (\<exists>t. r = inProgressResult t CacheLayerL2) \<or>
     (\<exists>e t layer. r = cacheResultFromEntry e t layer \<and> layer \<in> {CacheLayerL1, CacheLayerL2} \<and>
       \<not> entry_InProgress e)"
    by (auto simp: identityCacheOps_def)
  then show "CR_State r \<in> {CacheMiss, CacheHit, CacheNegative, CacheInProgress}"
    "CR_State r = CacheMiss \<longleftrightarrow> CR_Layer r = CacheLayerNone"
    "CR_State r = CacheNegative \<Longrightarrow> Result_EIDs (CR_Result r) = []"
    by (auto simp: missResult_def inProgressResult_def cacheResultFromEntry_def Let_def emptyResult_def
        split: if_splits)
qed (simp_all add: identityCacheOps_def PutResolved_no_error PutNegative_def)

end
