(* ===== verification/CacheSamples.thy ===== *)
theory CacheSamples
  imports IdentityCache
begin

text \<open>
  A sample configuration, cache and states on the reference layers, and each statement of
  \<^verbatim>\<open>IdentityCache\<close> at them.
\<close>

lemma PutResolved_clock: "clock_le (cs_clock st) (cs_clock (snd (PutResolved cache c ks result st)))"
proof (induction ks arbitrary: st)
  case (Cons k ks)
  let ?ttl = "EffectiveTTL (ic_policy cache) (Key_Type k) (Result_CacheTTL result)"
  obtain v clk where v: "resolved result ?ttl (cs_clock st) = (v, clk)" by force
  then have 1: "clock_le (cs_clock st) clk"
    by (auto simp: resolved_def expiry_def Now_def clock_le_def)
  have "clock_le clk (cs_clock (writeBoth cache c (Key_Value k) v ?ttl (st\<lparr>cs_clock := clk\<rparr>)))"
    using writeBoth_frame [of _ cache c "Key_Value k" v ?ttl "st\<lparr>cs_clock := clk\<rparr>", OF refl] by simp
  with 1 Cons.IH v show ?case by (simp add: Let_def) (blast intro: clock_le_trans)
qed simp

lemma putNegativeLoop_clock: "clock_le (cs_clock st) (cs_clock (putNegativeLoop cache c ttl ks meta st))"
proof (induction ks arbitrary: st)
  case (Cons k ks)
  obtain v clk where v: "negative meta ttl (cs_clock st) = (v, clk)" by force
  then have 1: "clock_le (cs_clock st) clk"
    by (auto simp: negative_def expiry_def Now_def clock_le_def)
  have "clock_le clk (cs_clock (writeBoth cache c (Key_Value k) v ttl (st\<lparr>cs_clock := clk\<rparr>)))"
    using writeBoth_frame [of _ cache c "Key_Value k" v ttl "st\<lparr>cs_clock := clk\<rparr>", OF refl] by simp
  with 1 Cons.IH v show ?case by (simp add: Let_def) (blast intro: clock_le_trans)
qed simp

definition sampleConfig :: CacheConfig where
  "sampleConfig =
     \<lparr>Enabled = True, Provider = ''redis'', TTLSeconds = 3600, MaxKeys = 5, MaxSize = 0,
      TTLCeilingFirstPartySeconds = 7200, TTLCeilingThirdPartySeconds = 1800,
      TTLCeilingDeviceSeconds = 600, NegativeTTLSeconds = 60\<rparr>"

definition sampleCache :: "(bytes \<Rightarrow> bytes option, string \<Rightarrow> bytes option) identityCache" where
  "sampleCache = \<lparr>ic_local = mapL1, ic_store = mapL2, ic_policy = Config_TTLPolicy sampleConfig,
     ic_codec = referenceCodec\<rparr>"

text \<open>The same cache over an L1 of a given capacity.\<close>

definition boundedCache :: "nat \<Rightarrow> (bytes \<Rightarrow> bytes option, string \<Rightarrow> bytes option) identityCache" where
  "boundedCache capacity = sampleCache\<lparr>ic_local := boundedL1 capacity\<rparr>"

definition recordingCache ::
  "((bytes \<Rightarrow> bytes option) \<times> (bytes \<times> bytes \<times> int) list, (string \<Rightarrow> bytes option) \<times> puts) identityCache" where
  "recordingCache = \<lparr>ic_local = recordingL1 mapL1, ic_store = recording mapL2,
     ic_policy = Config_TTLPolicy sampleConfig, ic_codec = referenceCodec\<rparr>"

text \<open>A clock that stands still, in nanoseconds.\<close>

definition stillClock :: "int \<Rightarrow> clock_state" where
  "stillClock t = \<lparr>readings = (\<lambda>_. t), reads = 0\<rparr>"

definition sampleKeys :: "CacheKey list" where
  "sampleKeys = [\<lparr>Key_Value = ''p1'', Key_Type = CacheKeyFirstParty\<rparr>,
     \<lparr>Key_Value = ''d1'', Key_Type = CacheKeyDevice\<rparr>]"

definition sampleEID :: EID where
  "sampleEID = \<lparr>EID_Source = ''s'', EID_UIDs = [\<lparr>UID_ID = ''u'', UID_rest = []\<rparr>], EID_rest = []\<rparr>"

definition sampleResult :: Result where
  "sampleResult = emptyResult\<lparr>Result_EIDs := [sampleEID], Result_ABTestUUID := ''A'',
     Result_TerminationCause := Some 5\<rparr>"

definition emptyState :: "(bytes \<Rightarrow> bytes option, string \<Rightarrow> bytes option) cacheState" where
  "emptyState = \<lparr>cs_l1 = Map.empty, cs_l2 = Map.empty, cs_clock = stillClock 0, cs_events = []\<rparr>"

definition recordingState ::
  "((bytes \<Rightarrow> bytes option) \<times> (bytes \<times> bytes \<times> int) list, (string \<Rightarrow> bytes option) \<times> puts) cacheState" where
  "recordingState =
     \<lparr>cs_l1 = (Map.empty, []), cs_l2 = (Map.empty, []), cs_clock = stillClock 0, cs_events = []\<rparr>"

lemma samplePolicy:
  "Config_TTLPolicy sampleConfig =
     \<lparr>Default = 3600000000000, FirstPartyCeiling = 7200000000000,
      ThirdPartyCeiling = 1800000000000, DeviceCeiling = 600000000000,
      NegativeTTL = 60000000000\<rparr>"
  by (simp add: Config_TTLPolicy_def sampleConfig_def Let_def mulDuration_def time_Second_def wrap64_small)

lemma sampleEID_ok: "eid_roundtrips referenceCodec sampleEID"
  by (rule referenceCodec_roundtrips)
     (simp add: eid_clean_def sampleEID_def isASCII_valid_utf8 isASCII_def)

lemmas sample_defs = sampleCache_def recordingCache_def sampleKeys_def sampleResult_def emptyState_def
  recordingState_def stillClock_def emptyResult_def emptyEntry_def samplePolicy

lemma sampleCache_layers:
  "l1_documented (ic_local sampleCache) (\<lambda>k v. True) (\<lambda>f. f)" "l1_faithful (ic_local sampleCache) (\<lambda>f. f)"
  "l2_faithful (ic_store sampleCache) (\<lambda>s. s)" "l2_documented (ic_store sampleCache) (\<lambda>s. s)"
  by (simp_all add: sampleCache_def mapL1_documented mapL1_faithful mapL2_faithful mapL2_documented)

text \<open>A state whose L1 holds one entry, with an expiry of two seconds, under the first key.\<close>

definition sampleEntry :: entry where
  "sampleEntry = emptyEntry\<lparr>entry_EIDs := [sampleEID], entry_ExpiresAt := 2000\<rparr>"

lemma sampleEntry_ok: "entry_ok referenceCodec sampleEntry"
  by (simp add: entry_ok_def sampleEntry_def emptyEntry_def sampleEID_ok in_int64_def
      isASCII_valid_utf8 isASCII_def)

definition warmState :: "(bytes \<Rightarrow> bytes option, string \<Rightarrow> bytes option) cacheState" where
  "warmState = emptyState\<lparr>cs_l1 := (Map.empty)(''p1'' := encode referenceCodec sampleEntry)\<rparr>"

theorem Get_serves_live_entry_witness:
  "\<exists>res index key e. fst (Get sampleCache Background sampleKeys warmState) = Inr res \<and>
    CR_State res = CacheHit \<and> res = cacheResultFromEntry e (Key_Type key) CacheLayerL1 \<and>
    served sampleCache (cs_l1 warmState) (cs_clock warmState)
      (cs_clock (snd (Get sampleCache Background sampleKeys warmState))) sampleKeys index key e"
proof -
  obtain b where b: "encode referenceCodec sampleEntry = Some b"
    using decodeEntry_encode [OF sampleEntry_ok] by metis
  have r: "fst (Get sampleCache Background sampleKeys warmState) =
      Inr (cacheResultFromEntry sampleEntry CacheKeyFirstParty CacheLayerL1)"
    unfolding sampleKeys_def
    by (rule Get_first_key [OF sampleCache_layers(1), where k = "\<lparr>Key_Value = ''p1'', Key_Type = CacheKeyFirstParty\<rparr>", simplified])
       (use b sampleEntry_ok in \<open>simp_all add: warmState_def sampleEntry_def sample_defs UnixMilli_def\<close>)
  let ?res = "cacheResultFromEntry sampleEntry CacheKeyFirstParty CacheLayerL1"
  have "CR_State ?res = CacheHit" "CR_Layer ?res = CacheLayerL1"
    by (simp_all add: cacheResultFromEntry_def Let_def sampleEntry_def emptyEntry_def)
  with Get_serves_live_entry [OF sampleCache_layers(2,3) surjective_pairing,
      of Background sampleKeys warmState] r
  show ?thesis by simp
qed

text \<open>Layers that lose nothing on their own, as the reference ones do.\<close>

lemma writeBoth_keeps:
  assumes "\<And>k v t f x. f x \<noteq> None \<Longrightarrow> fcSet (ic_local cache) k v t f x \<noteq> None"
    and "cs_l1 st x \<noteq> None"
  shows "cs_l1 (writeBoth cache c key e ttl st) x \<noteq> None"
  using writeBoth_frame [of _ cache c key e ttl st, OF refl] assms by (auto split: option.splits)

lemma PutResolved_keeps:
  assumes "\<And>k v t f x. f x \<noteq> None \<Longrightarrow> fcSet (ic_local cache) k v t f x \<noteq> None"
  shows "cs_l1 st x \<noteq> None \<Longrightarrow> cs_l1 (snd (PutResolved cache c ks result st)) x \<noteq> None"
proof (induction ks arbitrary: st)
  case (Cons k ks)
  have "cs_l1 (writeBoth cache c key e ttl (st\<lparr>cs_clock := clk\<rparr>)) x \<noteq> None" for key e ttl clk
    by (rule writeBoth_keeps [OF assms]) (use Cons.prems in simp_all)
  then show ?case unfolding PutResolved.simps Let_def case_prod_beta by (rule Cons.IH)
qed simp

lemma putNegativeLoop_keeps:
  assumes "\<And>k v t f x. f x \<noteq> None \<Longrightarrow> fcSet (ic_local cache) k v t f x \<noteq> None"
  shows "cs_l1 st x \<noteq> None \<Longrightarrow> cs_l1 (putNegativeLoop cache c ttl ks meta st) x \<noteq> None"
proof (induction ks arbitrary: st)
  case (Cons k ks)
  have "cs_l1 (writeBoth cache c key e ttl (st\<lparr>cs_clock := clk\<rparr>)) x \<noteq> None" for key e clk
    by (rule writeBoth_keeps [OF assms]) (use Cons.prems in simp_all)
  then show ?case unfolding putNegativeLoop.simps Let_def case_prod_beta by (rule Cons.IH)
qed simp

lemma putInProgressLoop_stores:
  assumes put: "\<And>c k v t s. fst (Store_Put (ic_store cache) c k v t s) = None"
    "\<And>c k v t s. content (snd (Store_Put (ic_store cache) c k v t s)) = (content s)(k \<mapsto> v)"
  shows "\<exists>st'. putInProgressLoop cache c ttl None keys st = (None, st') \<and>
    dom (content (cs_l2 st')) = Key_Value ` set keys \<union> dom (content (cs_l2 st))"
proof (induction keys arbitrary: st)
  case (Cons k keys)
  obtain e clk where e: "inProgress ttl (cs_clock st) = (e, clk)" by force
  obtain b where b: "encode (ic_codec cache) e = Some b"
    using inProgress_entry [OF e, of "ic_codec cache"] by (metis decodeEntry_encode)
  obtain err st1 where w: "writeL2 cache c (Key_Value k) b ttl (st\<lparr>cs_clock := clk\<rparr>) = (err, st1)" by force
  from writeL2_frame [OF w] put have "err = None" "dom (content (cs_l2 st1)) = insert (Key_Value k) (dom (content (cs_l2 st)))"
    by simp_all
  with Cons.IH [of st1] e b w show ?case by auto
qed simp

lemma first_key_written:
  assumes "l1_documented (ic_local cache) fits (\<lambda>f. f)"
    and "\<And>k v t f x. f x \<noteq> None \<Longrightarrow> fcSet (ic_local cache) k v t f x \<noteq> None"
    and "ttl = EffectiveTTL (ic_policy cache) (Key_Type k) (Result_CacheTTL result)"
    and "encode (ic_codec cache) (fst (resolved result ttl (cs_clock st))) = Some b" "fits (Key_Value k) b"
  shows "cs_l1 (snd (PutResolved cache c (k # ks) result st)) (Key_Value k) \<noteq> None"
proof -
  obtain e clk where e: "resolved result ttl (cs_clock st) = (e, clk)" by force
  have "cs_l1 (writeBoth cache c (Key_Value k) e ttl (st\<lparr>cs_clock := clk\<rparr>)) (Key_Value k) = Some b"
    by (rule writeBoth_l1(2) [OF assms(1)]) (use assms(4,5) e in simp_all)
  then show ?thesis using PutResolved_keeps [OF assms(2)] e assms(3) by simp
qed

text \<open>
  One second before the end of its lifetime an entry is still found, in an L1 that is large
  enough for it.
\<close>

theorem PutResolved_Get_witness:
  "\<exists>capacity. fst (Get (boundedCache capacity) Background sampleKeys
      ((snd (PutResolved (boundedCache capacity) Background sampleKeys sampleResult emptyState))
        \<lparr>cs_clock := stillClock 3599000000000\<rparr>)) = Inr
      \<lparr>CR_State = CacheHit, CR_Layer = CacheLayerL1, CR_KeyType = CacheKeyFirstParty,
       CR_Result = sampleResult\<rparr>"
proof -
  let ?k = "\<lparr>Key_Value = ''p1'', Key_Type = CacheKeyFirstParty\<rparr>"
  let ?ks = "[\<lparr>Key_Value = ''d1'', Key_Type = CacheKeyDevice\<rparr>]"
  let ?e = "fst (resolved sampleResult 3600000000000 (cs_clock emptyState))"
  have ok: "entry_ok referenceCodec ?e"
    by (simp add: entry_ok_def resolved_def expiry_def Now_def sample_defs sampleEID_ok
        isASCII_valid_utf8 isASCII_def wrap64_range) (simp add: in_int64_def)
  then obtain b where b: "encode referenceCodec ?e = Some b" using decodeEntry_encode by metis
  let ?n = "1024 * (length b + 26)"
  let ?cache = "boundedCache ?n"
  have l1: "l1_documented (ic_local ?cache) (freecacheFits ?n) (\<lambda>f. f)"
    by (simp add: boundedCache_def boundedL1_documented)
  have fits: "freecacheFits ?n (Key_Value ?k) b" by (simp add: freecacheFits_def)
  have codec: "ic_codec ?cache = referenceCodec" by (simp add: boundedCache_def sampleCache_def)
  have ttl: "3600000000000 = EffectiveTTL (ic_policy ?cache) (Key_Type ?k) (Result_CacheTTL sampleResult)"
    by (simp add: boundedCache_def sample_defs EffectiveTTL_def)
  have now: "0 = UnixMilli (readings (cs_clock emptyState) (reads (cs_clock emptyState)))"
    by (simp add: sample_defs UnixMilli_def)
  have keep: "f x \<noteq> None \<Longrightarrow> fcSet (ic_local ?cache) k v t f x \<noteq> None" for k v t f x
    by (simp add: boundedCache_def boundedL1_def)
  let ?put = "PutResolved ?cache Background (?k # ?ks) sampleResult emptyState"
  let ?st2 = "(snd ?put)\<lparr>cs_clock := stillClock 3599000000000\<rparr>"
  have ok': "entry_ok (ic_codec ?cache) ?e" and b': "encode (ic_codec ?cache) ?e = Some b"
    using ok b codec by simp_all
  have same: "cs_l1 ?st2 (Key_Value ?k) = cs_l1 (snd ?put) (Key_Value ?k)" by (simp del: PutResolved.simps)
  have held: "cs_l1 ?st2 (Key_Value ?k) \<noteq> None"
    unfolding same by (rule first_key_written [OF l1 keep ttl b' fits])
  have time: "UnixMilli (readings (cs_clock ?st2) (reads (cs_clock ?st2))) < 0 + Milliseconds 3600000000000"
    by (simp add: stillClock_def UnixMilli_def Milliseconds_def time_Millisecond_def)
  have range: "in_int64 (0 + Milliseconds 3600000000000)"
    by (simp add: Milliseconds_def time_Millisecond_def in_int64_def)
  have "distinct (map Key_Value (?k # ?ks))" by simp
  from PutResolved_Get [OF l1 this prod.collapse [symmetric] ttl now range ok' b' fits same held time,
      where c' = Background and ks' = ?ks]
  have "fst (Get ?cache Background sampleKeys
      ((snd (PutResolved ?cache Background sampleKeys sampleResult emptyState))
        \<lparr>cs_clock := stillClock 3599000000000\<rparr>)) = Inr
      \<lparr>CR_State = CacheHit, CR_Layer = CacheLayerL1, CR_KeyType = CacheKeyFirstParty,
       CR_Result = sampleResult\<rparr>"
    by (simp add: sampleKeys_def sampleResult_def emptyResult_def del: PutResolved.simps)
  then show ?thesis by blast
qed

theorem PutNegative_Get_witness:
  "fst (Get sampleCache Background sampleKeys ((snd (PutNegative sampleCache Background sampleKeys
      \<lparr>Meta_CacheTTL = 0, Meta_ABTestUUID = ''A'', Meta_TerminationCause = Some 5\<rparr> emptyState))
        \<lparr>cs_clock := stillClock 59000000000\<rparr>)) = Inr
      \<lparr>CR_State = CacheNegative, CR_Layer = CacheLayerL1, CR_KeyType = CacheKeyFirstParty,
       CR_Result = sampleResult\<lparr>Result_EIDs := []\<rparr>\<rparr>"
proof -
  let ?k = "\<lparr>Key_Value = ''p1'', Key_Type = CacheKeyFirstParty\<rparr>"
  let ?ks = "[\<lparr>Key_Value = ''d1'', Key_Type = CacheKeyDevice\<rparr>]"
  let ?meta = "\<lparr>Meta_CacheTTL = 0, Meta_ABTestUUID = ''A'', Meta_TerminationCause = Some 5\<rparr>"
  let ?put = "PutNegative sampleCache Background (?k # ?ks) ?meta emptyState"
  have ttl: "60000000000 = NegativeTTLFor (ic_policy sampleCache) (Meta_CacheTTL ?meta)"
    by (simp add: sample_defs NegativeTTLFor_def)
  have now: "0 = UnixMilli (readings (cs_clock emptyState) (reads (cs_clock emptyState)))"
    by (simp add: sample_defs UnixMilli_def)
  obtain e clk where e: "negative ?meta 60000000000 (cs_clock emptyState) = (e, clk)" by force
  have ok: "entry_ok (ic_codec sampleCache) (fst (negative ?meta 60000000000 (cs_clock emptyState)))"
    by (simp add: entry_ok_def negative_def expiry_def Now_def sample_defs
        isASCII_valid_utf8 isASCII_def wrap64_range) (simp add: in_int64_def)
  then obtain b where b: "encode (ic_codec sampleCache) (fst (negative ?meta 60000000000 (cs_clock emptyState))) = Some b"
    using decodeEntry_encode by metis
  have keep: "f x \<noteq> None \<Longrightarrow> fcSet (ic_local sampleCache) k v t f x \<noteq> None" for k v t f x
    by (simp add: sampleCache_def mapL1_def)
  let ?st2 = "(snd ?put)\<lparr>cs_clock := stillClock 59000000000\<rparr>"
  have "cs_l1 (writeBoth sampleCache Background (Key_Value ?k) e 60000000000 (emptyState\<lparr>cs_clock := clk\<rparr>)) (Key_Value ?k) = Some b"
    by (rule writeBoth_l1(2) [OF sampleCache_layers(1)]) (use b e in simp_all)
  then have held: "cs_l1 ?st2 (Key_Value ?k) \<noteq> None"
    using putNegativeLoop_keeps [OF keep, where ks = ?ks and ttl = 60000000000] e ttl [symmetric]
    by (simp add: PutNegative_def putNegativeLoop.simps(2) [of _ _ _ ?k] del: putNegativeLoop.simps)
  have time: "UnixMilli (readings (cs_clock ?st2) (reads (cs_clock ?st2))) < 0 + Milliseconds 60000000000"
    by (simp add: stillClock_def UnixMilli_def Milliseconds_def time_Millisecond_def)
  have range: "in_int64 (0 + Milliseconds 60000000000)"
    by (simp add: Milliseconds_def time_Millisecond_def in_int64_def)
  have "distinct (map Key_Value (?k # ?ks))" by simp
  from PutNegative_Get [OF sampleCache_layers(1) this prod.collapse [symmetric] ttl now range ok b TrueI _ held time,
      where c' = Background and ks' = ?ks]
  show ?thesis by (simp add: sampleKeys_def sampleResult_def emptyResult_def PutNegative_def del: putNegativeLoop.simps)
qed


lemma samplePolicy_ok: "policy_ok (Config_TTLPolicy sampleConfig)" "policy_range (Config_TTLPolicy sampleConfig)"
  by (simp_all add: samplePolicy policy_ok_def policy_range_def in_int64_def)

lemma recordingCache_ok: "recorded recordingCache" "policy_ok (ic_policy recordingCache)"
  "policy_range (ic_policy recordingCache)"
  using samplePolicy_ok by (auto simp: recorded_def recordingCache_def)



end
