(* ===== verification/UserAgent.thy ===== *)
theory UserAgent
  imports GoText
begin

text \<open>
  \<^verbatim>\<open>enrichment/user_agent.go\<close>: the user-agent segment of the device key.

  The rules are regular expressions of package \<^verbatim>\<open>regexp\<close>. A match is found as that package
  documents it: of the leftmost matches, the one a backtracking search tries first. The
  matcher below lists the matches at a position in that order. An input is decoded once
  into its code points, each with the bytes it came from.
\<close>

subsection \<open>Regular expressions\<close>

datatype rset = Lit char | Digit | Space | SpaceSlash | NotNewline

datatype regex =
    REmpty
  | RSet rset
  | RStar rset
  | RSeq regex regex
  | RAlt regex regex
  | RCap regex

definition lowerRune :: "nat \<Rightarrow> nat" where
  "lowerRune r = (if 65 \<le> r \<and> r \<le> 90 then r + 32 else r)"

text \<open>
  Under \<^verbatim>\<open>(?i)\<close> a letter matches its whole folding orbit: both cases, and for k and s also the
  Kelvin sign and the long s.
\<close>

fun inSet :: "rset \<Rightarrow> nat \<Rightarrow> bool" where
  "inSet (Lit c) r \<longleftrightarrow>
     lowerRune r = lowerRune (byte c) \<or> byte c = 107 \<and> r = 0x212A \<or> byte c = 115 \<and> r = 0x17F"
| "inSet Digit r \<longleftrightarrow> 48 \<le> r \<and> r \<le> 57"
| "inSet Space r \<longleftrightarrow> r = 9 \<or> r = 10 \<or> r = 12 \<or> r = 13 \<or> r = 32"
| "inSet SpaceSlash r \<longleftrightarrow> r = 9 \<or> r = 10 \<or> r = 12 \<or> r = 13 \<or> r = 32 \<or> r = 47"
| "inSet NotNewline r \<longleftrightarrow> r \<noteq> 10"

type_synonym chunk = "nat \<times> string"

abbreviation textOf :: "chunk list \<Rightarrow> string" where
  "textOf cs \<equiv> concat (map snd cs)"

fun chunksFrom :: "(nat \<times> nat) list \<Rightarrow> string \<Rightarrow> chunk list" where
  "chunksFrom [] s = []"
| "chunksFrom ((r, w) # rs) s = (r, take w s) # chunksFrom rs (drop w s)"

definition chunks :: "string \<Rightarrow> chunk list" where
  "chunks s = chunksFrom (runesOf s) s"

text \<open>The greedy repetitions of a set, the longest first.\<close>

fun starMatches :: "rset \<Rightarrow> chunk list \<Rightarrow> (chunk list \<times> chunk list) list" where
  "starMatches p [] = [([], [])]"
| "starMatches p (x # xs) =
     (if inSet p (fst x) then map (\<lambda>(c, rest). (x # c, rest)) (starMatches p xs) else []) @
     [([], x # xs)]"

text \<open>The matches at the head of the input: what is consumed, the groups, the rest.\<close>

primrec matchAt :: "regex \<Rightarrow> chunk list \<Rightarrow> (chunk list \<times> string list \<times> chunk list) list" where
  "matchAt REmpty xs = [([], [], xs)]"
| "matchAt (RSet p) xs =
     (case xs of [] \<Rightarrow> [] | x # rest \<Rightarrow> if inSet p (fst x) then [([x], [], rest)] else [])"
| "matchAt (RStar p) xs = map (\<lambda>(c, rest). (c, [], rest)) (starMatches p xs)"
| "matchAt (RSeq a b) xs =
     concat (map (\<lambda>(c, g, rest).
       map (\<lambda>(c', g', rest'). (c @ c', g @ g', rest')) (matchAt b rest)) (matchAt a xs))"
| "matchAt (RAlt a b) xs = matchAt a xs @ matchAt b xs"
| "matchAt (RCap a) xs = map (\<lambda>(c, g, rest). (c, textOf c # g, rest)) (matchAt a xs)"

fun findFrom :: "regex \<Rightarrow> chunk list \<Rightarrow> string list option" where
  "findFrom r xs =
     (case matchAt r xs of
        (c, g, _) # _ \<Rightarrow> Some (textOf c # g)
      | [] \<Rightarrow> (case xs of [] \<Rightarrow> None | _ # rest \<Rightarrow> findFrom r rest))"

declare findFrom.simps [simp del]

definition FindStringSubmatch :: "regex \<Rightarrow> string \<Rightarrow> string list option" where
  "FindStringSubmatch r s = findFrom r (chunks s)"

subsection \<open>The rule tables\<close>

fun literal :: "string \<Rightarrow> regex" where
  "literal [] = REmpty"
| "literal (c # s) = RSeq (RSet (Lit c)) (literal s)"

fun oneOf :: "string list \<Rightarrow> regex" where
  "oneOf [] = REmpty"
| "oneOf [s] = literal s"
| "oneOf (s # ss) = RAlt (literal s) (oneOf ss)"

definition repeat1 :: "rset \<Rightarrow> regex" where
  "repeat1 p = RSeq (RSet p) (RStar p)"

definition number :: regex where
  "number = RCap (repeat1 Digit)"

record userAgentRule =
  rule_pattern :: regex
  rule_family :: string
  rule_version :: bool

definition userAgentRule_of :: "regex \<Rightarrow> string \<Rightarrow> bool \<Rightarrow> userAgentRule" where
  "userAgentRule_of p f v = \<lparr>rule_pattern = p, rule_family = f, rule_version = v\<rparr>"

definition operatingSystemRules :: "userAgentRule list" where
  "operatingSystemRules =
     [userAgentRule_of (RSeq (oneOf [''iphone os'', ''cpu os'']) (RSeq (repeat1 Space) number)) ''iOS'' True,
      userAgentRule_of (RSeq (literal ''mac os x'') (RSeq (repeat1 Space) number)) ''MacOSX'' True,
      userAgentRule_of (RSeq (literal ''android'') (RSeq (repeat1 SpaceSlash) number)) ''Android'' True,
      userAgentRule_of (RSeq (literal ''windows nt'') (RSeq (repeat1 Space) number)) ''Windows'' True,
      userAgentRule_of (literal ''cros'') ''ChromeOS'' False,
      userAgentRule_of (literal ''linux'') ''Linux'' False]"

definition browserRules :: "userAgentRule list" where
  "browserRules =
     [userAgentRule_of (RSeq (literal ''edg'') (RSeq (RAlt (oneOf [''e'', ''ios'', ''a'']) REmpty)
        (RSeq (literal ''/'') number))) ''Edge'' True,
      userAgentRule_of (RSeq (oneOf [''opr'', ''opera'']) (RSeq (literal ''/'') number)) ''Opera'' True,
      userAgentRule_of (RSeq (literal ''samsungbrowser/'') number) ''SamsungBrowser'' True,
      userAgentRule_of (RSeq (oneOf [''firefox'', ''fxios'']) (RSeq (literal ''/'') number)) ''Firefox'' True,
      userAgentRule_of (RSeq (oneOf [''crios'', ''chromium'', ''chrome'']) (RSeq (literal ''/'') number))
        ''Chrome'' True,
      userAgentRule_of (RSeq (literal ''version/'') (RSeq number
        (RSeq (RStar NotNewline) (literal ''safari'')))) ''Safari'' True]"

definition deviceRules :: "userAgentRule list" where
  "deviceRules =
     [userAgentRule_of (literal ''ipad'') ''iPad'' False,
      userAgentRule_of (literal ''ipod'') ''iPod'' False,
      userAgentRule_of (literal ''iphone'') ''iPhone'' False,
      userAgentRule_of (RSeq (literal ''pixel'') (RSeq (repeat1 Space) number)) ''Pixel'' True,
      userAgentRule_of (RSeq (literal ''nexus'') (RSeq (repeat1 Space) number)) ''Nexus'' True,
      userAgentRule_of (literal ''macintosh'') ''Mac'' False]"

subsection \<open>The segment\<close>

definition matchedVersion :: "userAgentRule \<Rightarrow> string list \<Rightarrow> string" where
  "matchedVersion rule matches =
     (if rule_version rule \<and> length matches > 1 then matches ! 1 else [])"

text \<open>Removing every match of \<^verbatim>\<open>\s+\<close> removes exactly the bytes of that class.\<close>

definition userAgentToken :: "string \<Rightarrow> string \<Rightarrow> string" where
  "userAgentToken fam version = filter (\<lambda>b. \<not> inSet Space (byte b)) (fam @ version)"

fun matchUserAgentRules :: "string \<Rightarrow> userAgentRule list \<Rightarrow> string" where
  "matchUserAgentRules userAgent [] = []"
| "matchUserAgentRules userAgent (rule # rules) =
     (case FindStringSubmatch (rule_pattern rule) userAgent of
        Some matches \<Rightarrow> userAgentToken (rule_family rule) (matchedVersion rule matches)
      | None \<Rightarrow> matchUserAgentRules userAgent rules)"

fun browserTokenLoop :: "bool \<Rightarrow> string \<Rightarrow> userAgentRule list \<Rightarrow> string" where
  "browserTokenLoop mobile userAgent [] = []"
| "browserTokenLoop mobile userAgent (rule # rules) =
     (case FindStringSubmatch (rule_pattern rule) userAgent of
        None \<Rightarrow> browserTokenLoop mobile userAgent rules
      | Some matches \<Rightarrow>
          (let fam = rule_family rule;
               fam = (if mobile \<and> (fam = ''Chrome'' \<or> fam = ''Safari'') then ''Mobile'' @ fam else fam)
           in userAgentToken fam (matchedVersion rule matches)))"

definition browserToken :: "unicode \<Rightarrow> string \<Rightarrow> string" where
  "browserToken u userAgent =
     browserTokenLoop (Contains (ToLower u userAgent) ''mobile'') userAgent browserRules"

definition normalizeUserAgent :: "unicode \<Rightarrow> string \<Rightarrow> string" where
  "normalizeUserAgent u ua =
     (let userAgent = TrimSpace ua in
      if userAgent = [] then []
      else
        Join (filter (\<lambda>value. value \<noteq> [])
          [matchUserAgentRules userAgent operatingSystemRules, browserToken u userAgent,
           matchUserAgentRules userAgent deviceRules]) ''_'')"

subsection \<open>Groups are digits\<close>

text \<open>A pattern whose groups all enclose digits only.\<close>

primrec digitGroups :: "regex \<Rightarrow> bool" where
  "digitGroups REmpty = True"
| "digitGroups (RSet p) = True"
| "digitGroups (RStar p) = True"
| "digitGroups (RSeq a b) = (digitGroups a \<and> digitGroups b)"
| "digitGroups (RAlt a b) = (digitGroups a \<and> digitGroups b)"
| "digitGroups (RCap a) = (a = repeat1 Digit)"

text \<open>What decoding guarantees of a chunk: an ASCII code point comes from that one byte.\<close>

definition chunk_ok :: "chunk \<Rightarrow> bool" where
  "chunk_ok x \<longleftrightarrow> (fst x < 128 \<longrightarrow> snd x = [chr (fst x)])"

lemma DecodeRune_small: "fst (DecodeRune (a # s)) < 128 \<Longrightarrow> DecodeRune (a # s) = (byte a, 1)"
  by (rule ccontr) (auto split: list.splits if_splits simp: seqLen_def isCont_def secondOk_def)

lemma chunks_ok: "list_all chunk_ok (chunks s)"
  unfolding chunks_def
proof (induction s rule: runesOf.induct)
  case (1 s)
  show ?case
  proof (cases s)
    case (Cons a t)
    obtain r w where d: "DecodeRune s = (r, w)" by force
    have "chunk_ok (r, take w s)"
      using DecodeRune_small [of a t] Cons d by (auto simp: chunk_ok_def)
    with 1 [of] Cons d show ?thesis by (subst runesOf.simps) simp
  qed (simp add: runesOf.simps)
qed

lemma starMatches_set:
  "(c, rest) \<in> set (starMatches p xs) \<Longrightarrow> xs = c @ rest \<and> list_all (\<lambda>x. inSet p (fst x)) c"
  by (induction p xs arbitrary: c rest rule: starMatches.induct) (auto split: if_splits)

lemma matchAt_split: "(c, g, rest) \<in> set (matchAt r xs) \<Longrightarrow> xs = c @ rest"
  by (induction r arbitrary: c g rest xs)
     (fastforce split: list.splits if_splits dest: starMatches_set)+

lemma repeat1_Digit:
  assumes "(c, g, rest) \<in> set (matchAt (repeat1 Digit) xs)"
  shows "g = [] \<and> list_all (\<lambda>x. inSet Digit (fst x)) c"
  using assms by (auto simp: repeat1_def split: list.splits if_splits dest!: starMatches_set)

lemma digit_chunks:
  assumes "list_all chunk_ok c" "list_all (\<lambda>x. inSet Digit (fst x)) c"
  shows "\<forall>b\<in>set (textOf c). isDigit b"
  using assms by (induction c) (auto simp: chunk_ok_def isDigit_def)

lemma matchAt_groups:
  "\<lbrakk>(c, g, rest) \<in> set (matchAt r xs); list_all chunk_ok xs; digitGroups r\<rbrakk> \<Longrightarrow>
    \<forall>t\<in>set g. \<forall>b\<in>set t. isDigit b"
proof (induction r arbitrary: c g rest xs)
  case (RSeq a b)
  then obtain c1 g1 r1 c2 g2 where 1: "(c1, g1, r1) \<in> set (matchAt a xs)"
      "(c2, g2, rest) \<in> set (matchAt b r1)" "g = g1 @ g2" by auto
  from matchAt_split [OF 1(1)] RSeq.prems have "list_all chunk_ok r1" by simp
  with RSeq.IH(1) [OF 1(1)] RSeq.IH(2) [OF 1(2)] RSeq.prems 1(3) show ?case by auto
next
  case (RAlt a b)
  then show ?case by auto
next
  case (RCap a)
  then obtain g' where g: "(c, g', rest) \<in> set (matchAt (repeat1 Digit) xs)" "g = textOf c # g'"
    by auto
  from repeat1_Digit [OF g(1)] matchAt_split [OF g(1)] RCap.prems digit_chunks [of c] g(2)
  show ?case by auto
qed (auto split: list.splits if_splits)

lemma findFrom_groups:
  "\<lbrakk>findFrom r xs = Some (m # g); list_all chunk_ok xs; digitGroups r\<rbrakk> \<Longrightarrow>
    \<forall>t\<in>set g. \<forall>b\<in>set t. isDigit b"
proof (induction r xs rule: findFrom.induct)
  case (1 r xs)
  show ?case
  proof (cases "matchAt r xs")
    case Nil
    with 1 show ?thesis by (cases xs) (simp_all add: findFrom.simps [of r xs] findFrom.simps [of r "[]"] findFrom.simps [of r "_ # _"])
  next
    case (Cons q qs)
    obtain c g' rest where q: "q = (c, g', rest)" by (cases q)
    with 1 Cons have "g = g'" by (auto simp: findFrom.simps [of r xs])
    moreover have "(c, g', rest) \<in> set (matchAt r xs)" using Cons q by simp
    ultimately show ?thesis using matchAt_groups 1 by blast
  qed
qed

lemma findFrom_not_Nil: "findFrom r xs \<noteq> Some []"
  by (induction r xs rule: findFrom.induct) (subst findFrom.simps, auto split: list.splits)

lemma version_digits:
  assumes "digitGroups (rule_pattern rule)" "FindStringSubmatch (rule_pattern rule) s = Some matches"
  shows "\<forall>b\<in>set (matchedVersion rule matches). isDigit b"
proof (cases matches)
  case (Cons m g)
  with assms findFrom_groups [of "rule_pattern rule" "chunks s" m g] chunks_ok [of s]
  show ?thesis by (cases g) (auto simp: FindStringSubmatch_def matchedVersion_def)
qed (simp add: matchedVersion_def)

lemma digitGroups_literal [simp]: "digitGroups (literal s)"
  by (induction s) simp_all

lemma digitGroups_repeat1 [simp]: "digitGroups (repeat1 p)"
  by (simp add: repeat1_def)

lemma digitGroups_number [simp]: "digitGroups number"
  by (simp add: number_def)

definition rule_ok :: "userAgentRule \<Rightarrow> bool" where
  "rule_ok rule \<longleftrightarrow> digitGroups (rule_pattern rule) \<and> (\<forall>c\<in>set (rule_family rule). isAlnum c)"

lemma rules_ok:
  "list_all rule_ok operatingSystemRules" "list_all rule_ok browserRules" "list_all rule_ok deviceRules"
  by (simp_all add: rule_ok_def operatingSystemRules_def browserRules_def deviceRules_def
      userAgentRule_of_def isAlnum_def)

subsection \<open>The alphabet of the segment\<close>

lemma isDigit_isAlnum: "isDigit c \<Longrightarrow> isAlnum c"
  by (simp add: isDigit_def isAlnum_def)

lemma isAlnum_visible: "isAlnum c \<Longrightarrow> isVisible c"
  by (auto simp: isAlnum_def isVisible_def)

lemma isAlnum_not_Space: "isAlnum c \<Longrightarrow> \<not> inSet Space (byte c)"
  by (auto simp: isAlnum_def)

lemma userAgentToken_id:
  "\<forall>c\<in>set fam. isAlnum c \<Longrightarrow> \<forall>c\<in>set ver. isAlnum c \<Longrightarrow> userAgentToken fam ver = fam @ ver"
  unfolding userAgentToken_def by (rule filter_True) (use isAlnum_not_Space in auto)

lemma rule_token:
  assumes "rule_ok rule" "FindStringSubmatch (rule_pattern rule) s = Some matches"
    and "\<forall>c\<in>set pre. isAlnum c"
  shows "userAgentToken (pre @ rule_family rule) (matchedVersion rule matches) =
      pre @ rule_family rule @ matchedVersion rule matches \<and>
    (\<forall>c\<in>set (matchedVersion rule matches). isDigit c)"
  using assms version_digits [of rule s matches]
  by (subst userAgentToken_id) (auto simp: rule_ok_def intro: isDigit_isAlnum)

lemma matchUserAgentRules_alnum:
  "list_all rule_ok rules \<Longrightarrow> \<forall>c\<in>set (matchUserAgentRules s rules). isAlnum c"
proof (induction rules)
  case (Cons rule rules)
  then show ?case
    using rule_token [of rule s _ "[]"]
    by (auto split: option.splits simp: rule_ok_def intro: isDigit_isAlnum)
qed simp

lemma browserTokenLoop_alnum:
  "list_all rule_ok rules \<Longrightarrow> \<forall>c\<in>set (browserTokenLoop mobile s rules). isAlnum c"
proof (induction rules)
  case (Cons rule rules)
  have "\<forall>c\<in>set ''Mobile''. isAlnum c" by (simp add: isAlnum_def)
  with Cons show ?case
    using rule_token [of rule s _ "[]"] rule_token [of rule s _ "''Mobile''"]
    by (auto split: option.splits simp: rule_ok_def Let_def intro: isDigit_isAlnum)
qed simp

lemma Join_chars:
  "c \<in> set (Join ss sep) \<Longrightarrow> c \<in> set sep \<or> (\<exists>s\<in>set ss. c \<in> set s)"
  by (induction ss sep rule: Join.induct) auto

text \<open>
  C28. The user-agent segment of a device key is a clean token: it holds ASCII letters,
  digits and underscores only, so the trimming that the key builder applies to it changes
  nothing.
\<close>

theorem normalizeUserAgent_alphabet:
  "list_all (\<lambda>c. isAlnum c \<or> c = CHR ''_'') (normalizeUserAgent u ua) \<and>
   TrimSpace (normalizeUserAgent u ua) = normalizeUserAgent u ua"
proof -
  have a: "\<forall>c\<in>set (normalizeUserAgent u ua). isAlnum c \<or> c = CHR ''_''"
    using matchUserAgentRules_alnum [OF rules_ok(1)] matchUserAgentRules_alnum [OF rules_ok(3)]
      browserTokenLoop_alnum [OF rules_ok(2)]
    by (fastforce simp: normalizeUserAgent_def browserToken_def Let_def dest: Join_chars
        split: if_splits)
  moreover have "TrimSpace (normalizeUserAgent u ua) = normalizeUserAgent u ua"
    by (rule TrimSpace_all_visible) (use a isAlnum_visible in \<open>force simp: isVisible_def\<close>)
  ultimately show ?thesis by (simp add: list_all_iff)
qed

subsection \<open>Letter case does not matter\<close>

definition lowerChunk :: "chunk \<Rightarrow> chunk" where
  "lowerChunk x = (lowerRune (fst x), map lowerByte (snd x))"

lemma lowerRune_idem [simp]: "lowerRune (lowerRune r) = lowerRune r"
  by (simp add: lowerRune_def)

lemma inSet_lower [simp]: "inSet p (lowerRune r) = inSet p r"
  by (cases p) (auto simp: lowerRune_def split: if_splits)

lemma textOf_lower:
  "textOf (map lowerChunk c) = map lowerByte (textOf c)"
  "concat (map (\<lambda>x. snd (lowerChunk x)) c) = map lowerByte (textOf c)"
  by (induction c) (simp_all add: lowerChunk_def)

lemma starMatches_lower:
  "starMatches p (map lowerChunk xs) =
    map (\<lambda>(c, rest). (map lowerChunk c, map lowerChunk rest)) (starMatches p xs)"
  by (induction p xs rule: starMatches.induct)
     (auto simp: lowerChunk_def comp_def case_prod_beta split: if_splits)

lemma matchAt_lower:
  "matchAt r (map lowerChunk xs) =
    map (\<lambda>(c, g, rest). (map lowerChunk c, map (map lowerByte) g, map lowerChunk rest)) (matchAt r xs)"
proof (induction r arbitrary: xs)
  case (RSet p)
  then show ?case by (cases xs) (auto simp: lowerChunk_def)
next
  case (RStar p)
  then show ?case by (simp add: starMatches_lower comp_def case_prod_beta)
next
  case (RSeq a b)
  then show ?case by (simp add: comp_def case_prod_beta map_concat)
next
  case (RCap a)
  then show ?case by (simp add: comp_def case_prod_beta textOf_lower(2))
qed simp_all

lemma findFrom_lower:
  "findFrom r (map lowerChunk xs) = map_option (map (map lowerByte)) (findFrom r xs)"
proof (induction r xs rule: findFrom.induct)
  case (1 r xs)
  show ?case
  proof (cases "matchAt r xs")
    case Nil
    with 1 show ?thesis
      by (cases xs) (simp_all add: findFrom.simps [of r "[]"] findFrom.simps [of r "_ # _"]
          matchAt_lower [of r "_ # _", simplified])
  next
    case (Cons q qs)
    then show ?thesis
      by (simp add: findFrom.simps [of r xs] findFrom.simps [of r "map lowerChunk xs"] matchAt_lower
          case_prod_beta comp_def textOf_lower(2))
  qed
qed

lemma isASCII_Cons [simp]: "isASCII (c # s) \<longleftrightarrow> byte c < 128 \<and> isASCII s"
  by (simp add: isASCII_def)

lemma byte_lowerByte: "byte (lowerByte c) = lowerRune (byte c)"
  by (simp add: lowerByte_def lowerRune_def)

lemma isASCII_lower [simp]: "isASCII (map lowerByte s) = isASCII s"
  by (induction s) (auto simp: isASCII_def byte_lowerByte lowerRune_def split: if_splits)

lemma chunks_ASCII: "isASCII s \<Longrightarrow> chunks s = map (\<lambda>c. (byte c, [c])) s"
proof -
  have "chunksFrom (map (\<lambda>c. (byte c, 1)) s) s = map (\<lambda>c. (byte c, [c])) s" for s :: string
    by (induction s) simp_all
  then show "isASCII s \<Longrightarrow> chunks s = map (\<lambda>c. (byte c, [c])) s"
    by (simp add: chunks_def isASCII_runesOf)
qed

lemma FindStringSubmatch_lower:
  "isASCII s \<Longrightarrow> FindStringSubmatch r (map lowerByte s) =
    map_option (map (map lowerByte)) (FindStringSubmatch r s)"
  using findFrom_lower [of r "chunks s"]
  by (simp add: FindStringSubmatch_def chunks_ASCII comp_def lowerChunk_def byte_lowerByte)

lemma lowerByte_digits: "\<forall>c\<in>set s. isDigit c \<Longrightarrow> map lowerByte s = s"
  by (rule map_idI) (auto simp: isDigit_def lowerByte_def)

lemma matchedVersion_lower:
  assumes "rule_ok rule" "FindStringSubmatch (rule_pattern rule) s = Some matches"
  shows "matchedVersion rule (map (map lowerByte) matches) = matchedVersion rule matches"
proof -
  have "matchedVersion rule (map (map lowerByte) matches) = map lowerByte (matchedVersion rule matches)"
    by (simp add: matchedVersion_def)
  also have "\<dots> = matchedVersion rule matches"
    by (rule lowerByte_digits) (use assms version_digits [of rule s matches] in \<open>simp add: rule_ok_def\<close>)
  finally show ?thesis .
qed

lemma matchUserAgentRules_lower:
  "\<lbrakk>isASCII s; list_all rule_ok rules\<rbrakk> \<Longrightarrow>
    matchUserAgentRules (map lowerByte s) rules = matchUserAgentRules s rules"
  by (induction rules) (auto simp: FindStringSubmatch_lower matchedVersion_lower split: option.splits)

lemma browserTokenLoop_lower:
  "\<lbrakk>isASCII s; list_all rule_ok rules\<rbrakk> \<Longrightarrow>
    browserTokenLoop m (map lowerByte s) rules = browserTokenLoop m s rules"
  by (induction rules) (auto simp: FindStringSubmatch_lower matchedVersion_lower split: option.splits)

lemma lowerByte_idem [simp]: "lowerByte (lowerByte c) = lowerByte c"
  by (simp add: lowerByte_def)

lemma isSpace_lower [simp]:
  "isSpace1 (lowerByte a) = isSpace1 a" "isSpace2 (lowerByte a) (lowerByte b) = isSpace2 a b"
  "isSpace3 (lowerByte a) (lowerByte b) (lowerByte c) = isSpace3 a b c"
  unfolding isSpace1_def isSpace2_def isSpace3_def byte_lowerByte
  by (auto simp: lowerRune_def split: if_splits)

lemma leadingSpace_lower [simp]: "leadingSpace (map lowerByte s) = leadingSpace s"
  by (induction s rule: leadingSpace.induct) simp_all

lemma trailingSpaceRev_lower [simp]: "trailingSpaceRev (map lowerByte s) = trailingSpaceRev s"
  by (induction s rule: trailingSpaceRev.induct) simp_all

lemma TrimLeft_lower: "TrimLeft (map lowerByte s) = map lowerByte (TrimLeft s)"
proof (induction s rule: TrimLeft.induct)
  case (1 s)
  then show ?case
    by (simp add: TrimLeft.simps [of s] TrimLeft.simps [of "map lowerByte s"] drop_map)
qed

lemma TrimRightRev_lower: "TrimRightRev (map lowerByte s) = map lowerByte (TrimRightRev s)"
proof (induction s rule: TrimRightRev.induct)
  case (1 s)
  then show ?case
    by (simp add: TrimRightRev.simps [of s] TrimRightRev.simps [of "map lowerByte s"] drop_map)
qed

lemma TrimSpace_lower: "TrimSpace (map lowerByte s) = map lowerByte (TrimSpace s)"
  by (simp add: TrimSpace_def TrimLeft_lower TrimRightRev_lower rev_map)

lemma TrimLeft_subset: "set (TrimLeft s) \<subseteq> set s"
proof (induction s rule: TrimLeft.induct)
  case (1 s)
  then show ?case by (subst TrimLeft.simps) (auto dest: in_set_dropD)
qed

lemma TrimRightRev_subset: "set (TrimRightRev s) \<subseteq> set s"
proof (induction s rule: TrimRightRev.induct)
  case (1 s)
  then show ?case by (subst TrimRightRev.simps) (auto dest: in_set_dropD)
qed

lemma isASCII_TrimSpace: "isASCII s \<Longrightarrow> isASCII (TrimSpace s)"
  using TrimLeft_subset [of s] TrimRightRev_subset [of "rev (TrimLeft s)"]
  by (auto simp: isASCII_def TrimSpace_def)

lemma normalizeUserAgent_lower:
  assumes "isASCII ua"
  shows "normalizeUserAgent u (map lowerByte ua) = normalizeUserAgent u ua"
  using isASCII_TrimSpace [OF assms] rules_ok
  by (simp add: normalizeUserAgent_def browserToken_def TrimSpace_lower ToLower_def comp_def
      matchUserAgentRules_lower browserTokenLoop_lower Let_def)

text \<open>
  Two ASCII user agents that differ in the case of their letters only give the same
  segment, so they address the same cached device.
\<close>

lemma normalizeUserAgent_case_insensitive:
  assumes "isASCII a" and "isASCII b" and "map lowerByte a = map lowerByte b"
  shows "normalizeUserAgent u a = normalizeUserAgent u b"
  using normalizeUserAgent_lower [OF assms(1), of u] normalizeUserAgent_lower [OF assms(2), of u]
    assms(3) by simp

definition asciiCase :: unicode where
  "asciiCase = \<lparr>runeToUpper = (\<lambda>r. if 97 \<le> r \<and> r \<le> 122 then r - 32 else r), runeToLower = lowerRune\<rparr>"

lemma normalizeUserAgent_case_insensitive_sample:
  "normalizeUserAgent asciiCase ''LINUX; Pixel 7'' = normalizeUserAgent asciiCase ''Linux; pixel 7''"
  by (rule normalizeUserAgent_case_insensitive) (simp_all add: isASCII_def lowerByte_def char_of_eq_iff)

lemma normalizeUserAgent_example:
  "matchUserAgentRules ''iPhone OS 17_2'' operatingSystemRules = ''iOS17''"
  by (simp add: operatingSystemRules_def userAgentRule_of_def FindStringSubmatch_def chunks_ASCII
      isASCII_def findFrom.simps repeat1_def number_def lowerRune_def matchedVersion_def userAgentToken_def)

end
