(* ===== verification/Params.thy ===== *)
theory Params
  imports Json Contracts "HOL-Library.AList" "HOL-Library.Char_ord" "HOL-Library.List_Lexorder"
    "HOL-Library.Multiset"
begin

text \<open>
  \<^verbatim>\<open>enrichment/params.go\<close> and \<^verbatim>\<open>enrichment/ua_hints.go\<close>: the URL of an S2S call.

  A \<^verbatim>\<open>strings.Builder\<close> is the string written so far. A Go map from strings to strings is an
  association list; Go iterates over a map in an order that the runtime chooses, so the
  functions that do so take it as an argument \<open>order\<close>, a rearrangement of the keys.
\<close>

subsection \<open>Query parameters\<close>

definition notBlank :: "string \<Rightarrow> bool" where
  "notBlank value \<longleftrightarrow> TrimSpace value \<noteq> []"

definition encodeParameter :: "string \<Rightarrow> string" where
  "encodeParameter value = ReplaceByte (QueryEscape value) (CHR ''+'') ''%20''"

definition appendParameter :: "string \<Rightarrow> string \<Rightarrow> string \<Rightarrow> string" where
  "appendParameter builder name value =
     (if \<not> notBlank value then builder
      else builder @ ''&'' @ name @ ''='' @ encodeParameter value)"

definition iiqSource :: string where
  "iiqSource = ''intentiq.com''"

definition apiSource :: string where
  "apiSource = ''pbsgo''"

subsection \<open>Structured user-agent hints\<close>

type_synonym hints = "(string \<times> string) list"

definition highEntropyUAHintsSource :: int where
  "highEntropyUAHintsSource = 2"

definition quoteHint :: "string \<Rightarrow> string" where
  "quoteHint value = [CHR 0x22] @ value @ [CHR 0x22]"

definition putQuotedHint :: "hints \<Rightarrow> string \<Rightarrow> string \<Rightarrow> hints" where
  "putQuotedHint hints key value =
     (if notBlank value then AList.update key (quoteHint value) hints else hints)"

definition indexValue :: "hints \<Rightarrow> string \<Rightarrow> string" where
  "indexValue m k = (case map_of m k of None \<Rightarrow> [] | Some v \<Rightarrow> v)"

definition putBrandList :: "(string list \<Rightarrow> string list) \<Rightarrow> hints \<Rightarrow> string \<Rightarrow> hints \<Rightarrow> hints" where
  "putBrandList order hints key versions =
     (if length versions = 0 then hints
      else
        (let brands = sort (order (map fst versions));
             values = map (\<lambda>brand. quoteHint brand @ '';v='' @ quoteHint (indexValue versions brand)) brands
         in AList.update key (Join values '', '') hints))"

definition majorOf :: "string \<Rightarrow> string" where
  "majorOf fullVersion =
     (let separator = length (takeWhile (\<lambda>c. c \<noteq> CHR ''.'') fullVersion)
      in if separator < length fullVersion \<and> separator > 0 then take separator fullVersion
         else fullVersion)"

fun browserVersions :: "BrandVersion list \<Rightarrow> hints \<Rightarrow> hints \<Rightarrow> hints \<times> hints" where
  "browserVersions [] majorVersions fullVersions = (majorVersions, fullVersions)"
| "browserVersions (browser # browsers) majorVersions fullVersions =
     (if \<not> notBlank (Brand browser) \<or> length (Version browser) = 0
      then browserVersions browsers majorVersions fullVersions
      else
        (let fullVersion = Join (Version browser) ''.''
         in browserVersions browsers
              (AList.update (Brand browser) (majorOf fullVersion) majorVersions)
              (AList.update (Brand browser) fullVersion fullVersions)))"

definition appendBrowserHints ::
  "(string list \<Rightarrow> string list) \<Rightarrow> hints \<Rightarrow> BrandVersion list \<Rightarrow> hints" where
  "appendBrowserHints order hints browsers =
     (let (majorVersions, fullVersions) = browserVersions browsers [] [] in
      putBrandList order (putBrandList order hints ''0'' majorVersions) ''8'' fullVersions)"

definition appendPlatformHints :: "hints \<Rightarrow> BrandVersion option \<Rightarrow> hints" where
  "appendPlatformHints hints platform =
     (case platform of None \<Rightarrow> hints
      | Some p \<Rightarrow>
          if \<not> notBlank (Brand p) then hints
          else
            (let hints = AList.update ''2'' (quoteHint (Brand p)) hints in
             if length (Version p) > 0
             then AList.update ''6'' (quoteHint (Join (Version p) ''.'')) hints else hints))"

text \<open>\<^verbatim>\<open>json.Marshal\<close> of a map writes its members by increasing key.\<close>

definition marshalHints :: "hints \<Rightarrow> string" where
  "marshalHints hints = jsonText (JObj (map (\<lambda>(k, v). (k, JStr v)) (sort_key fst hints)))"

definition collectHints :: "(string list \<Rightarrow> string list) \<Rightarrow> UserAgentObj \<Rightarrow> hints" where
  "collectHints order userAgent =
     (let hints = appendBrowserHints order [] (Browsers userAgent);
          hints = (case Mobile userAgent of None \<Rightarrow> hints
                   | Some m \<Rightarrow> AList.update ''1'' (''?'' @ Itoa m) hints);
          hints = appendPlatformHints hints (Platform userAgent);
          hints = putQuotedHint hints ''3'' (Architecture userAgent);
          hints = putQuotedHint hints ''4'' (Bitness userAgent)
      in putQuotedHint hints ''5'' (Model userAgent))"

definition buildUAHints :: "(string list \<Rightarrow> string list) \<Rightarrow> UserAgentObj option \<Rightarrow> string" where
  "buildUAHints order sua =
     (case sua of None \<Rightarrow> []
      | Some userAgent \<Rightarrow>
          if UA_Source userAgent \<noteq> highEntropyUAHintsSource then []
          else (let hints = collectHints order userAgent in
                if length hints = 0 then [] else marshalHints hints))"

subsection \<open>The request\<close>

definition appendDeviceID :: "unicode \<Rightarrow> string \<Rightarrow> Device \<Rightarrow> string" where
  "appendDeviceID u builder device =
     (if \<not> notBlank (IFA device) \<or> Lmt device = Some 1 then builder
      else
        (let (pcid, idType) =
               (if DeviceType device = 3 \<or> DeviceType device = 7 then (ToUpper u (IFA device), ''8'')
                else (IFA device, ''4''))
         in appendParameter (appendParameter builder ''pcid'' pcid) ''idtype'' idType))"

definition resolveRef :: "BidRequest \<Rightarrow> string" where
  "resolveRef request =
     (case BidRequest_Site request of
        Some site \<Rightarrow> if notBlank (Domain site) then Domain site else Page site
      | None \<Rightarrow>
          (case BidRequest_App request of
             Some app \<Rightarrow> if notBlank (Bundle app) then Bundle app else App_Name app
           | None \<Rightarrow> []))"

fun firstNotBlankUID :: "UID list \<Rightarrow> string option" where
  "firstNotBlankUID [] = None"
| "firstNotBlankUID (uid # uids) =
     (if notBlank (UID_ID uid) then Some (UID_ID uid) else firstNotBlankUID uids)"

fun resolveIIQUIDLoop :: "EID list \<Rightarrow> string" where
  "resolveIIQUIDLoop [] = []"
| "resolveIIQUIDLoop (eid # eids) =
     (if EID_Source eid \<noteq> iiqSource then resolveIIQUIDLoop eids
      else case firstNotBlankUID (EID_UIDs eid) of
             Some value \<Rightarrow> value
           | None \<Rightarrow> resolveIIQUIDLoop eids)"

definition resolveIIQUID :: "User option \<Rightarrow> string" where
  "resolveIIQUID user =
     (case user of None \<Rightarrow> [] | Some us \<Rightarrow> resolveIIQUIDLoop (User_EIDs us))"

record regsExtension =
  Ext_GDPR :: "int option"
  Ext_USPrivacy :: string

definition regsExtensionField :: "string \<Rightarrow> json \<Rightarrow> regsExtension \<Rightarrow> regsExtension option" where
  "regsExtensionField k j e =
     (if isField ''gdpr'' k then map_option (\<lambda>v. e\<lparr>Ext_GDPR := v\<rparr>) (decodeIntPtr 8 j)
      else if isField ''us_privacy'' k then
        map_option (\<lambda>v. e\<lparr>Ext_USPrivacy := v\<rparr>) (decodeString j (Ext_USPrivacy e))
      else Some e)"

definition decodeRegsExtension :: "bytes \<Rightarrow> regsExtension option" where
  "decodeRegsExtension ext =
     (if length ext > 0 then
        (case parseJSON ext of None \<Rightarrow> None
         | Some j \<Rightarrow> decodeStruct regsExtensionField j \<lparr>Ext_GDPR = None, Ext_USPrivacy = []\<rparr>)
      else None)"

definition joinGPPSID :: "int list \<Rightarrow> string" where
  "joinGPPSID sectionIDs = (if length sectionIDs = 0 then [] else Join (map Itoa sectionIDs) '','')"

definition appendPrivacyParameters :: "string \<Rightarrow> Regs option \<Rightarrow> string" where
  "appendPrivacyParameters builder regs =
     (case regs of None \<Rightarrow> builder
      | Some r \<Rightarrow>
          (let extension = decodeRegsExtension (Regs_Ext r);
               builder =
                 (case GDPR r of
                    Some g \<Rightarrow> appendParameter builder ''gdpr'' (Itoa g)
                  | None \<Rightarrow>
                      (case extension of
                         None \<Rightarrow> builder
                       | Some e \<Rightarrow>
                           (case Ext_GDPR e of
                              None \<Rightarrow> builder
                            | Some g \<Rightarrow> appendParameter builder ''gdpr'' (Itoa g))));
               builder =
                 (if notBlank (USPrivacy r) then appendParameter builder ''us_privacy'' (USPrivacy r)
                  else case extension of
                         None \<Rightarrow> builder
                       | Some e \<Rightarrow> appendParameter builder ''us_privacy'' (Ext_USPrivacy e))
           in appendParameter (appendParameter builder ''gpp'' (GPP r))
                ''gpp_sid'' (joinGPPSID (GPPSID r))))"

definition userExtensionField :: "string \<Rightarrow> json \<Rightarrow> string option \<Rightarrow> string option option" where
  "userExtensionField k j c = (if isField ''consent'' k then decodeStringPtr j else Some c)"

definition resolveConsent :: "User option \<Rightarrow> string" where
  "resolveConsent user =
     (case user of None \<Rightarrow> []
      | Some us \<Rightarrow>
          if notBlank (Consent us) then Consent us
          else if length (User_Ext us) = 0 then []
          else
            (case parseJSON (User_Ext us) of None \<Rightarrow> []
             | Some j \<Rightarrow>
                 (case decodeStruct userExtensionField j None of
                    Some (Some consent) \<Rightarrow> consent
                  | _ \<Rightarrow> [])))"

definition buildS2SRequest ::
  "unicode \<Rightarrow> (string list \<Rightarrow> string list) \<Rightarrow> Request \<Rightarrow> string \<times> string" where
  "buildS2SRequest u order input =
     (let builder = Endpoint input @ (if Contains (Endpoint input) ''?'' then ''&'' else ''?'');
          builder = builder @ ''at'' @ ''=39'';
          builder = appendParameter builder ''mi'' ''10'';
          builder = appendParameter builder ''dpi'' (PartnerID input);
          builder = appendParameter builder ''pt'' ''17'';
          builder = appendParameter builder ''dpn'' ''1'';
          builder = appendParameter builder ''srvrReq'' ''true'';
          builder = appendParameter builder ''source'' apiSource
      in case Auction input of
           None \<Rightarrow> (builder, [])
         | Some request \<Rightarrow>
             (let builder =
                    (case BidRequest_Device request of
                       None \<Rightarrow> builder
                     | Some device \<Rightarrow>
                         (let builder = appendParameter builder ''ip'' (IP device);
                              builder = appendParameter builder ''ipv6'' (IPv6 device);
                              builder = appendParameter builder ''uas'' (UA device);
                              builder = appendParameter builder ''uh'' (buildUAHints order (SUA device))
                          in appendDeviceID u builder device));
                  builder = appendParameter builder ''ref'' (resolveRef request);
                  builder = appendParameter builder ''iiquid'' (resolveIIQUID (BidRequest_User request));
                  builder = appendPrivacyParameters builder (BidRequest_Regs request)
              in (builder, resolveConsent (BidRequest_User request))))"

subsection \<open>What the query says\<close>

text \<open>
  A query string is parsed by splitting at every ampersand, splitting each piece at its first
  equals sign, and percent-decoding the value.
\<close>

fun splitAt :: "char \<Rightarrow> string \<Rightarrow> string list" where
  "splitAt c [] = [[]]"
| "splitAt c (x # xs) =
     (if x = c then [] # splitAt c xs
      else case splitAt c xs of [] \<Rightarrow> [[x]] | p # ps \<Rightarrow> (x # p) # ps)"

definition parsePair :: "string \<Rightarrow> string \<times> string" where
  "parsePair p =
     (takeWhile (\<lambda>c. c \<noteq> CHR ''='') p, percentDecode (drop 1 (dropWhile (\<lambda>c. c \<noteq> CHR ''='') p)))"

definition parseQuery :: "string \<Rightarrow> (string \<times> string) list" where
  "parseQuery q = map parsePair (splitAt (CHR ''&'') q)"

text \<open>The parameters that a request stands for, blank ones left out.\<close>

type_synonym params = "(string \<times> string) list"

definition present :: "params \<Rightarrow> params" where
  "present ps = filter (\<lambda>p. notBlank (snd p)) ps"

definition idParameters :: "unicode \<Rightarrow> Device \<Rightarrow> params" where
  "idParameters u device =
     (if notBlank (IFA device) \<and> Lmt device \<noteq> Some 1 then
        (if DeviceType device \<in> {3, 7} then [(''pcid'', ToUpper u (IFA device)), (''idtype'', ''8'')]
         else [(''pcid'', IFA device), (''idtype'', ''4'')])
      else [])"

definition deviceParameters :: "unicode \<Rightarrow> (string list \<Rightarrow> string list) \<Rightarrow> Device \<Rightarrow> params" where
  "deviceParameters u order device =
     [(''ip'', IP device), (''ipv6'', IPv6 device), (''uas'', UA device),
      (''uh'', buildUAHints order (SUA device))] @ idParameters u device"

definition gdprOf :: "Regs \<Rightarrow> string" where
  "gdprOf r =
     (case GDPR r of Some g \<Rightarrow> Itoa g
      | None \<Rightarrow> (case Option.bind (decodeRegsExtension (Regs_Ext r)) Ext_GDPR of
          Some g \<Rightarrow> Itoa g | None \<Rightarrow> []))"

definition usPrivacyOf :: "Regs \<Rightarrow> string" where
  "usPrivacyOf r =
     (if notBlank (USPrivacy r) then USPrivacy r
      else case decodeRegsExtension (Regs_Ext r) of None \<Rightarrow> [] | Some e \<Rightarrow> Ext_USPrivacy e)"

definition privacyParameters :: "Regs \<Rightarrow> params" where
  "privacyParameters r =
     [(''gdpr'', gdprOf r), (''us_privacy'', usPrivacyOf r), (''gpp'', GPP r),
      (''gpp_sid'', joinGPPSID (GPPSID r))]"

definition s2sParameters :: "unicode \<Rightarrow> (string list \<Rightarrow> string list) \<Rightarrow> Request \<Rightarrow> params" where
  "s2sParameters u order input =
     present
       ([(''at'', ''39''), (''mi'', ''10''), (''dpi'', PartnerID input), (''pt'', ''17''),
         (''dpn'', ''1''), (''srvrReq'', ''true''), (''source'', ''pbsgo'')] @
        (case Auction input of None \<Rightarrow> []
         | Some request \<Rightarrow>
             (case BidRequest_Device request of None \<Rightarrow> [] | Some d \<Rightarrow> deviceParameters u order d) @
             [(''ref'', resolveRef request), (''iiquid'', resolveIIQUID (BidRequest_User request))] @
             (case BidRequest_Regs request of None \<Rightarrow> [] | Some r \<Rightarrow> privacyParameters r)))"

subsection \<open>Escaped values\<close>

lemma upperHex_clean: "d < 16 \<Longrightarrow> isUnreserved (upperHex d)"
  by (simp add: isUnreserved_def isAlnum_def upperHex_def)

lemma encodeParameter_Nil [simp]: "encodeParameter [] = []"
  by (simp add: encodeParameter_def QueryEscape_def ReplaceByte_def)

lemma encodeParameter_Cons:
  "encodeParameter (c # s) =
     (if isUnreserved c then [c]
      else [CHR ''%'', upperHex (byte c div 16), upperHex (byte c mod 16)]) @ encodeParameter s"
proof -
  have "byte c div 16 < 16" using nat_of_char_less_256 [of c] by linarith
  moreover have "upperHex d \<noteq> CHR ''+''" if "d < 16" for d
    using upperHex_clean [OF that] isUnreserved_percent(2) by metis
  moreover have "upperHex (32 div 16) = CHR ''2''" "upperHex (32 mod 16) = CHR ''0''"
    by (simp_all add: upperHex_def char_of_eq_iff)
  ultimately show ?thesis
    using isUnreserved_percent
    by (cases "c = CHR '' ''")
       (auto simp: encodeParameter_def QueryEscape_def ReplaceByte_def queryEscapeByte_def
          isUnreserved_def isAlnum_def)
qed

lemma percentDecode_encodeParameter: "percentDecode (encodeParameter s) = s"
proof (induction s)
  case (Cons c s)
  have "c \<noteq> CHR ''%''" if "isUnreserved c" using that isUnreserved_percent(1) by metis
  then show ?case
    using Cons by (auto simp: encodeParameter_Cons percentDecode_literal percentDecode_escape
        simp del: percentDecode.simps)
qed simp

lemma encodeParameter_alphabet: "x \<in> set (encodeParameter s) \<Longrightarrow> isUnreserved x \<or> x = CHR ''%''"
proof (induction s)
  case (Cons c s)
  have "byte c div 16 < 16" using nat_of_char_less_256 [of c] by linarith
  with Cons show ?case by (auto simp: encodeParameter_Cons upperHex_clean split: if_splits)
qed simp


subsection \<open>The query parses back\<close>

definition query :: "params \<Rightarrow> string" where
  "query ps = Join (map (\<lambda>p. fst p @ ''='' @ encodeParameter (snd p)) ps) ''&''"

lemma Join_snoc: "Join (xs @ [x]) sep = (if xs = [] then x else Join xs sep @ sep @ x)"
  by (induction xs sep rule: Join.induct) auto

lemma splitAt_clean: "c \<notin> set p \<Longrightarrow> splitAt c p = [p]"
  by (induction p) auto

lemma splitAt_append: "c \<notin> set p \<Longrightarrow> splitAt c (p @ c # q) = p # splitAt c q"
  by (induction p) auto

lemma splitAt_Join:
  "ps \<noteq> [] \<Longrightarrow> \<forall>p\<in>set ps. c \<notin> set p \<Longrightarrow> splitAt c (Join ps [c]) = ps"
  by (induction ps "[c]" rule: Join.induct) (simp_all add: splitAt_clean splitAt_append)

lemma parsePair_encode:
  "CHR ''='' \<notin> set n \<Longrightarrow> parsePair (n @ ''='' @ encodeParameter v) = (n, v)"
proof -
  assume n: "CHR ''='' \<notin> set n"
  have "takeWhile (\<lambda>c. c \<noteq> CHR ''='') (n @ ''='' @ encodeParameter v) = n"
    "dropWhile (\<lambda>c. c \<noteq> CHR ''='') (n @ ''='' @ encodeParameter v) = ''='' @ encodeParameter v"
    using n by (auto simp: takeWhile_append dropWhile_append)
  then show ?thesis by (simp add: parsePair_def percentDecode_encodeParameter)
qed

definition clean_names :: "params \<Rightarrow> bool" where
  "clean_names ps \<longleftrightarrow> list_all (\<lambda>p. CHR ''&'' \<notin> set (fst p) \<and> CHR ''='' \<notin> set (fst p)) ps"

lemma encodeParameter_no_separator: "CHR ''&'' \<notin> set (encodeParameter v)"
  using encodeParameter_alphabet [of "CHR ''&''" v] isUnreserved_percent by auto

lemma parseQuery_query:
  assumes "ps \<noteq> []" "clean_names ps"
  shows "parseQuery (query ps) = ps"
proof -
  let ?enc = "\<lambda>p. fst p @ ''='' @ encodeParameter (snd p)"
  have q: "query ps = Join (map ?enc ps) ''&''" by (simp add: query_def)
  have "splitAt (CHR ''&'') (query ps) = map ?enc ps"
    unfolding q using assms encodeParameter_no_separator
    by (intro splitAt_Join) (auto simp: clean_names_def list_all_iff)
  moreover have "map parsePair (map ?enc ps) = map (\<lambda>p. p) ps"
    using assms(2) unfolding map_map comp_def
    by (intro map_cong refl) (auto simp: clean_names_def list_all_iff parsePair_encode [simplified])
  ultimately show ?thesis by (simp add: parseQuery_def)
qed

lemma notBlank_Nil [simp]: "\<not> notBlank []"
  by (simp add: notBlank_def)

lemma notBlank_visible: "\<exists>c\<in>set s. isVisible c \<Longrightarrow> notBlank s"
  by (auto simp: notBlank_def dest: TrimSpace_visible)

lemma notBlank_constants [simp]:
  "notBlank ''39''" "notBlank ''10''" "notBlank ''17''" "notBlank ''1''" "notBlank ''true''"
  "notBlank ''pbsgo''" "notBlank ''4''" "notBlank ''8''"
  by (rule notBlank_visible, simp add: isVisible_def)+

lemma present_at: "present ((''at'', ''39'') # ps) = (''at'', ''39'') # present ps"
  by (simp add: present_def)

text \<open>The builder holds the present parameters of a list that starts with the first one.\<close>

definition written :: "string \<Rightarrow> params \<Rightarrow> string" where
  "written pre ps = pre @ query (present ((''at'', ''39'') # ps))"

lemma appendParameter_written: "appendParameter (written pre ps) n v = written pre (ps @ [(n, v)])"
  by (simp add: written_def present_at)
     (simp add: appendParameter_def query_def present_def Join_snoc flip: append_Cons)

lemma written_blank: "\<not> notBlank v \<Longrightarrow> written pre (ps @ [(n, v)]) = written pre ps"
  by (simp add: written_def present_def)

lemma appendDeviceID_written:
  "appendDeviceID u (written pre ps) d = written pre (ps @ idParameters u d)"
  by (simp add: appendDeviceID_def appendParameter_written idParameters_def)

lemma appendPrivacyParameters_written:
  "appendPrivacyParameters (written pre ps) regs =
    written pre (ps @ (case regs of None \<Rightarrow> [] | Some r \<Rightarrow> privacyParameters r))"
proof (cases regs)
  case (Some r)
  let ?x = "decodeRegsExtension (Regs_Ext r)"
  have 1: "(case GDPR r of Some g \<Rightarrow> appendParameter (written pre ps) ''gdpr'' (Itoa g)
      | None \<Rightarrow> (case ?x of None \<Rightarrow> written pre ps
        | Some e \<Rightarrow> (case Ext_GDPR e of None \<Rightarrow> written pre ps
          | Some g \<Rightarrow> appendParameter (written pre ps) ''gdpr'' (Itoa g)))) =
      written pre (ps @ [(''gdpr'', gdprOf r)])"
    by (auto simp: gdprOf_def appendParameter_written written_blank split: option.split)
  have 2: "(if notBlank (USPrivacy r) then appendParameter (written pre qs) ''us_privacy'' (USPrivacy r)
      else case ?x of None \<Rightarrow> written pre qs
        | Some e \<Rightarrow> appendParameter (written pre qs) ''us_privacy'' (Ext_USPrivacy e)) =
      written pre (qs @ [(''us_privacy'', usPrivacyOf r)])" for qs
    by (auto simp: usPrivacyOf_def appendParameter_written written_blank split: option.split)
  show ?thesis
    unfolding appendPrivacyParameters_def Some option.case Let_def 1 2
    by (simp add: appendParameter_written privacyParameters_def)
qed (simp add: appendPrivacyParameters_def)

definition endpointPrefix :: "Request \<Rightarrow> string" where
  "endpointPrefix input = Endpoint input @ (if Contains (Endpoint input) ''?'' then ''&'' else ''?'')"

lemma buildS2SRequest_query:
  "fst (buildS2SRequest u order input) = endpointPrefix input @ query (s2sParameters u order input)"
proof -
  have start: "endpointPrefix input @ ''at'' @ ''=39'' = written (endpointPrefix input) []"
    by (simp add: written_def present_def query_def encodeParameter_Cons isUnreserved_def isAlnum_def)
  show ?thesis
    unfolding buildS2SRequest_def Let_def endpointPrefix_def [symmetric] append_assoc start
      appendParameter_written appendDeviceID_written
    by (simp add: written_def s2sParameters_def deviceParameters_def apiSource_def
        appendPrivacyParameters_written [unfolded written_def] appendParameter_written [unfolded written_def]
        split: option.split)
qed

lemma clean_names_append: "clean_names (a @ b) \<longleftrightarrow> clean_names a \<and> clean_names b"
  by (simp add: clean_names_def)

lemma clean_parts:
  "clean_names (idParameters u d)" "clean_names (privacyParameters r)"
  "clean_names (deviceParameters u order d)"
  by (simp_all add: clean_names_def idParameters_def privacyParameters_def deviceParameters_def)

lemma s2sParameters_clean: "clean_names (s2sParameters u order input)"
proof -
  have "clean_names ps \<Longrightarrow> clean_names (present ps)" for ps
    by (auto simp: clean_names_def present_def list_all_iff)
  moreover have "clean_names [(''at'', ''39''), (''mi'', ''10''), (''dpi'', a), (''pt'', ''17''),
      (''dpn'', ''1''), (''srvrReq'', ''true''), (''source'', ''pbsgo'')]"
    "clean_names [(''ref'', b), (''iiquid'', c)]" "clean_names []" for a b c
    by (simp_all add: clean_names_def)
  ultimately show ?thesis
    unfolding s2sParameters_def by (auto simp: clean_parts clean_names_append split: option.split
        simp del: append.append_Cons)
qed

lemma buildS2SRequest_readable:
  "\<exists>q. fst (buildS2SRequest u order input) = endpointPrefix input @ q \<and>
     parseQuery q = s2sParameters u order input"
proof -
  have "(''at'', ''39'') \<in> set (s2sParameters u order input)"
    by (simp add: s2sParameters_def present_at)
  then have "s2sParameters u order input \<noteq> []" by auto
  from parseQuery_query [OF this s2sParameters_clean] buildS2SRequest_query show ?thesis by blast
qed

text \<open>
  C19. The S2S URL carries exactly the parameters of the request: what follows the endpoint
  and the separator parses, by splitting and percent-decoding, to the list of the non-blank
  parameters in their order, whatever bytes the partner id, the user agent, the consent
  strings or the identifiers hold. No value can add, hide or change a parameter.
\<close>

theorem buildS2SRequest_parses:
  "\<exists>q. fst (buildS2SRequest u order input) = endpointPrefix input @ q \<and>
     parseQuery q = s2sParameters u order input"
  by (rule buildS2SRequest_readable)


subsection \<open>The order of map iteration does not show\<close>

definition rearranges :: "(string list \<Rightarrow> string list) \<Rightarrow> bool" where
  "rearranges order \<longleftrightarrow> (\<forall>xs. mset (order xs) = mset xs)"

lemma sort_rearranged: "rearranges order \<Longrightarrow> sort (order xs) = sort xs"
  by (rule properties_for_sort) (simp_all add: rearranges_def)

lemma buildUAHints_order:
  assumes "rearranges order"
  shows "buildUAHints order = buildUAHints id"
proof -
  have "putBrandList order = putBrandList id"
    by (intro ext) (simp add: putBrandList_def sort_rearranged [OF assms])
  then have c: "collectHints order = collectHints id"
    by (intro ext) (simp add: collectHints_def appendBrowserHints_def)
  show ?thesis by (intro ext) (unfold buildUAHints_def c, rule refl)
qed

text \<open>
  C29. The S2S request does not depend on the order in which the runtime iterates over the
  maps of user-agent brands: any two orders give the same URL and the same consent value.
\<close>

theorem buildS2SRequest_deterministic:
  assumes "rearranges order" and "rearranges order'"
  shows "buildS2SRequest u order input = buildS2SRequest u order' input"
  unfolding buildS2SRequest_def buildUAHints_order [OF assms(1)] buildUAHints_order [OF assms(2)] ..

definition sampleDevice :: Device where
  "sampleDevice =
     \<lparr>IP = ''1.2.3.4'', IPv6 = [], UA = ''Linux'',
      SUA = Some \<lparr>UA_Source = 2,
        Browsers = [\<lparr>Brand = ''b'', Version = [''1'', ''2'']\<rparr>, \<lparr>Brand = ''a'', Version = [''3'']\<rparr>],
        Mobile = Some 0, Platform = None, Architecture = [], Bitness = [], Model = []\<rparr>,
      IFA = ''ifa'', Lmt = None, DeviceType = 3\<rparr>"

definition sampleAuction :: BidRequest where
  "sampleAuction =
     \<lparr>BidRequest_ID = ''r'', BidRequest_Site = None, BidRequest_App = None, BidRequest_User = None,
      BidRequest_Device = Some sampleDevice, BidRequest_Regs = None\<rparr>"

definition sampleRequest :: Request where
  "sampleRequest =
     \<lparr>PartnerID = ''p&q'', Endpoint = ''h'', Auction = Some sampleAuction, Timeout = time_Second,
      WaitTimeout = None, CacheEnabled = True\<rparr>"

theorem buildS2SRequest_deterministic_witness:
  "buildS2SRequest \<lparr>runeToUpper = id, runeToLower = id\<rparr> rev sampleRequest =
    buildS2SRequest \<lparr>runeToUpper = id, runeToLower = id\<rparr> id sampleRequest"
  by (rule buildS2SRequest_deterministic) (simp_all add: rearranges_def)

end
