(* ===== verification/CacheKeys.thy ===== *)
theory CacheKeys
  imports UserAgent Params
begin

text \<open>
  \<^verbatim>\<open>enrichment/cache_keys.go\<close>: the cache keys of an auction, in their order of preference.
\<close>

definition sharedIDCacheSources :: "string list" where
  "sharedIDCacheSources = [''pubcid.org'', ''sharedid.org'']"

abbreviation cacheKey :: "string \<Rightarrow> CacheKeyType \<Rightarrow> CacheKey" where
  "cacheKey value keyType \<equiv> \<lparr>Key_Value = value, Key_Type = keyType\<rparr>"

fun appendUIDKeys :: "CacheKey list \<Rightarrow> UID list \<Rightarrow> string \<Rightarrow> CacheKeyType \<Rightarrow> CacheKey list" where
  "appendUIDKeys keys [] namespace keyType = keys"
| "appendUIDKeys keys (uid # uids) namespace keyType =
     (if \<not> notBlank (UID_ID uid) then appendUIDKeys keys uids namespace keyType
      else appendUIDKeys (keys @ [cacheKey (namespace @ '':'' @ UID_ID uid) keyType]) uids namespace keyType)"

fun appendMatchingEIDKeys ::
  "CacheKey list \<Rightarrow> EID list \<Rightarrow> string \<Rightarrow> CacheKeyType \<Rightarrow> (string \<Rightarrow> bool) \<Rightarrow> CacheKey list" where
  "appendMatchingEIDKeys keys [] namespace keyType matches = keys"
| "appendMatchingEIDKeys keys (eid # eids) namespace keyType matches =
     (if EID_Source eid = [] \<or> \<not> matches (EID_Source eid)
      then appendMatchingEIDKeys keys eids namespace keyType matches
      else appendMatchingEIDKeys (appendUIDKeys keys (EID_UIDs eid) namespace keyType) eids
             namespace keyType matches)"

definition appendMAIDKey :: "unicode \<Rightarrow> CacheKey list \<Rightarrow> Device option \<Rightarrow> CacheKey list" where
  "appendMAIDKey u keys device =
     (case device of None \<Rightarrow> keys
      | Some d \<Rightarrow>
          if \<not> notBlank (IFA d) \<or> Lmt d = Some 1 then keys
          else
            (let ifa = (if DeviceType d = 3 \<or> DeviceType d = 7 then ToUpper u (IFA d) else IFA d)
             in keys @ [cacheKey (''maid:'' @ ifa) CacheKeyFirstParty]))"

fun appendOtherEIDKeys :: "unicode \<Rightarrow> CacheKey list \<Rightarrow> EID list \<Rightarrow> CacheKey list" where
  "appendOtherEIDKeys u keys [] = keys"
| "appendOtherEIDKeys u keys (eid # eids) =
     (if EID_Source eid = [] \<or> EID_Source eid = iiqSource \<or> EID_Source eid \<in> set sharedIDCacheSources
      then appendOtherEIDKeys u keys eids
      else appendOtherEIDKeys u
             (appendUIDKeys keys (EID_UIDs eid) (ToLower u (EID_Source eid)) CacheKeyFirstParty) eids)"

definition appendDeviceKey :: "unicode \<Rightarrow> CacheKey list \<Rightarrow> Device option \<Rightarrow> CacheKey list" where
  "appendDeviceKey u keys device =
     (case device of None \<Rightarrow> keys
      | Some d \<Rightarrow>
          (let ip = (if \<not> notBlank (IP d) then IPv6 d else IP d);
               fields = filter notBlank [IFA d, TrimSpace (normalizeUserAgent u (UA d)), ip]
           in if length fields = 0 then keys
              else keys @ [cacheKey (''dev:'' @ Join fields ''_'') CacheKeyDevice]))"

fun deduplicateLoop ::
  "int \<Rightarrow> string list \<Rightarrow> CacheKey list \<Rightarrow> CacheKey list \<Rightarrow> CacheKey list" where
  "deduplicateLoop maxKeys seen result [] = result"
| "deduplicateLoop maxKeys seen result (key # keys) =
     (if Key_Value key \<in> set seen then deduplicateLoop maxKeys seen result keys
      else
        (let seen = Key_Value key # seen; result = result @ [key]
         in if maxKeys > 0 \<and> int (length result) \<ge> maxKeys then result
            else deduplicateLoop maxKeys seen result keys))"

definition deduplicateAndCapKeys :: "CacheKey list \<Rightarrow> int \<Rightarrow> CacheKey list" where
  "deduplicateAndCapKeys keys maxKeys =
     (if length keys = 0 then [] else deduplicateLoop maxKeys [] [] keys)"

definition extractCacheKeys :: "unicode \<Rightarrow> BidRequest option \<Rightarrow> int \<Rightarrow> CacheKey list" where
  "extractCacheKeys u req maxKeys =
     (case req of None \<Rightarrow> []
      | Some request \<Rightarrow>
          (let eids = (case BidRequest_User request of None \<Rightarrow> [] | Some us \<Rightarrow> User_EIDs us);
               keys = appendMatchingEIDKeys [] eids ''iiq'' CacheKeyThirdParty
                        (\<lambda>source. source = iiqSource);
               keys = appendMatchingEIDKeys keys eids ''pubcid'' CacheKeyFirstParty
                        (\<lambda>source. source \<in> set sharedIDCacheSources);
               keys = appendMAIDKey u keys (BidRequest_Device request);
               keys = appendOtherEIDKeys u keys eids;
               keys = appendDeviceKey u keys (BidRequest_Device request)
           in deduplicateAndCapKeys keys maxKeys))"

subsection \<open>The keys, group by group\<close>

definition uidKeys :: "string \<Rightarrow> CacheKeyType \<Rightarrow> UID list \<Rightarrow> CacheKey list" where
  "uidKeys namespace keyType uids =
     map (\<lambda>i. cacheKey (namespace @ '':'' @ i) keyType) (filter notBlank (map UID_ID uids))"

definition iiqKeys :: "EID list \<Rightarrow> CacheKey list" where
  "iiqKeys eids = concat (map (\<lambda>e. uidKeys ''iiq'' CacheKeyThirdParty (EID_UIDs e))
     (filter (\<lambda>e. EID_Source e = iiqSource) eids))"

definition sharedKeys :: "EID list \<Rightarrow> CacheKey list" where
  "sharedKeys eids = concat (map (\<lambda>e. uidKeys ''pubcid'' CacheKeyFirstParty (EID_UIDs e))
     (filter (\<lambda>e. EID_Source e \<in> set sharedIDCacheSources) eids))"

definition otherKeys :: "unicode \<Rightarrow> EID list \<Rightarrow> CacheKey list" where
  "otherKeys u eids = concat (map (\<lambda>e. uidKeys (ToLower u (EID_Source e)) CacheKeyFirstParty (EID_UIDs e))
     (filter (\<lambda>e. EID_Source e \<notin> {[], iiqSource} \<union> set sharedIDCacheSources) eids))"

definition candidateKeys :: "unicode \<Rightarrow> BidRequest \<Rightarrow> CacheKey list" where
  "candidateKeys u request =
     (let eids = (case BidRequest_User request of None \<Rightarrow> [] | Some us \<Rightarrow> User_EIDs us);
          device = BidRequest_Device request
      in iiqKeys eids @ sharedKeys eids @ appendMAIDKey u [] device @ otherKeys u eids @
         appendDeviceKey u [] device)"

fun firstByValue :: "CacheKey list \<Rightarrow> CacheKey list" where
  "firstByValue [] = []"
| "firstByValue (k # ks) = k # firstByValue (filter (\<lambda>x. Key_Value x \<noteq> Key_Value k) ks)"

lemma appendUIDKeys_eq: "appendUIDKeys keys uids ns t = keys @ uidKeys ns t uids"
  by (induction keys uids ns t rule: appendUIDKeys.induct) (simp_all add: uidKeys_def)

lemma appendMatchingEIDKeys_eq:
  "\<not> m [] \<Longrightarrow> appendMatchingEIDKeys keys eids ns t m =
    keys @ concat (map (\<lambda>e. uidKeys ns t (EID_UIDs e)) (filter (\<lambda>e. m (EID_Source e)) eids))"
  by (induction keys eids ns t m rule: appendMatchingEIDKeys.induct) (auto simp: appendUIDKeys_eq)

lemma appendOtherEIDKeys_eq: "appendOtherEIDKeys u keys eids = keys @ otherKeys u eids"
  by (induction u keys eids rule: appendOtherEIDKeys.induct) (auto simp: appendUIDKeys_eq otherKeys_def)

lemma appendMAIDKey_eq: "appendMAIDKey u keys d = keys @ appendMAIDKey u [] d"
  by (simp add: appendMAIDKey_def Let_def split: option.splits)

lemma appendDeviceKey_eq: "appendDeviceKey u keys d = keys @ appendDeviceKey u [] d"
  by (simp add: appendDeviceKey_def Let_def split: option.splits)

lemma extractCacheKeys_candidates:
  "extractCacheKeys u (Some request) maxKeys = deduplicateAndCapKeys (candidateKeys u request) maxKeys"
proof -
  have "iiqSource \<noteq> []" "[] \<notin> set sharedIDCacheSources"
    by (simp_all add: iiqSource_def sharedIDCacheSources_def)
  then show ?thesis
    by (simp add: extractCacheKeys_def candidateKeys_def Let_def appendMatchingEIDKeys_eq iiqKeys_def
        sharedKeys_def appendOtherEIDKeys_eq appendMAIDKey_eq [of u "_ @ _"] appendDeviceKey_eq [of u "_ @ _"])
qed

definition capKeys :: "int \<Rightarrow> CacheKey list \<Rightarrow> CacheKey list" where
  "capKeys maxKeys keys = (if maxKeys > 0 then take (nat maxKeys) keys else keys)"

lemma deduplicateLoop_eq:
  "maxKeys \<le> 0 \<or> int (length result) < maxKeys \<Longrightarrow>
    deduplicateLoop maxKeys seen result keys =
      capKeys maxKeys (result @ firstByValue (filter (\<lambda>k. Key_Value k \<notin> set seen) keys))"
proof (induction maxKeys seen result keys rule: deduplicateLoop.induct)
  case (1 maxKeys seen result)
  then show ?case by (auto simp: capKeys_def)
next
  case (2 maxKeys seen result key keys)
  have f: "filter (\<lambda>x. Key_Value x \<noteq> Key_Value key) (filter (\<lambda>k. Key_Value k \<notin> set seen) keys) =
      filter (\<lambda>k. Key_Value k \<notin> set (Key_Value key # seen)) keys"
    by (simp add: conj_commute)
  show ?case
  proof (cases "Key_Value key \<in> set seen \<or> \<not> (maxKeys > 0 \<and> int (length (result @ [key])) \<ge> maxKeys)")
    case True
    with 2 show ?thesis by (auto simp: f [simplified])
  next
    case False
    with 2(3) have "nat maxKeys = Suc (length result)" "maxKeys > 0" by auto
    with False show ?thesis by (simp add: capKeys_def)
  qed
qed

lemma extractCacheKeys_dedup:
  "extractCacheKeys u (Some request) maxKeys = capKeys maxKeys (firstByValue (candidateKeys u request))"
  by (simp add: extractCacheKeys_candidates deduplicateAndCapKeys_def deduplicateLoop_eq capKeys_def)

text \<open>
  C21. The cache keys of an auction are the candidate keys (the IntentIQ ids, the shared ids,
  the advertising id, the other ids, the device composite, in this order), each value kept
  at its first occurrence only, cut to the configured number when that is positive.
\<close>

theorem extractCacheKeys_spec:
  "extractCacheKeys u (Some request) maxKeys = capKeys maxKeys (firstByValue (candidateKeys u request))"
  by (rule extractCacheKeys_dedup)

lemma firstByValue_subset: "set (firstByValue ks) \<subseteq> set ks"
  by (induction ks rule: firstByValue.induct) auto

lemma firstByValue_distinct: "distinct (map Key_Value (firstByValue ks))"
proof (induction ks rule: firstByValue.induct)
  case (2 k ks)
  have "Key_Value k \<notin> Key_Value ` set (firstByValue (filter (\<lambda>x. Key_Value x \<noteq> Key_Value k) ks))"
    using firstByValue_subset [of "filter (\<lambda>x. Key_Value x \<noteq> Key_Value k) ks"] by auto
  with 2 show ?case by simp
qed simp

lemma uidKeys_colon: "k \<in> set (uidKeys ns t uids) \<Longrightarrow> CHR '':'' \<in> set (Key_Value k) \<and> Key_Type k = t"
  by (auto simp: uidKeys_def)

lemma candidateKeys_colon: "k \<in> set (candidateKeys u request) \<Longrightarrow> CHR '':'' \<in> set (Key_Value k)"
  by (auto simp: candidateKeys_def Let_def iiqKeys_def sharedKeys_def otherKeys_def appendMAIDKey_def
      appendDeviceKey_def dest: uidKeys_colon split: option.splits if_splits)

lemma capKeys_take: "\<exists>n. capKeys m ks = take n ks"
  by (metis capKeys_def order_refl take_all)

lemma extractCacheKeys_distinct: "distinct (map Key_Value (extractCacheKeys u req maxKeys))"
proof (cases req)
  case (Some request)
  obtain n where n: "capKeys maxKeys (firstByValue (candidateKeys u request)) =
      take n (firstByValue (candidateKeys u request))" using capKeys_take by blast
  have "extractCacheKeys u req maxKeys = capKeys maxKeys (firstByValue (candidateKeys u request))"
    using Some by (simp add: extractCacheKeys_dedup)
  with n show ?thesis by (simp add: distinct_take firstByValue_distinct flip: take_map)
qed (simp add: extractCacheKeys_def)

text \<open>
  The key list that the cache gets is well formed: the values are pairwise distinct (as
  the storing operations rely on), none of them is blank, and a positive limit bounds their
  number.
\<close>

lemma extractCacheKeys_wf:
  "distinct (map Key_Value (extractCacheKeys u req maxKeys)) \<and>
   (\<forall>k\<in>set (extractCacheKeys u req maxKeys). notBlank (Key_Value k)) \<and>
   (maxKeys > 0 \<longrightarrow> int (length (extractCacheKeys u req maxKeys)) \<le> maxKeys)"
proof (cases req)
  case None
  then show ?thesis by (simp add: extractCacheKeys_def)
next
  case (Some request)
  let ?ks = "firstByValue (candidateKeys u request)"
  obtain n where n: "capKeys maxKeys ?ks = take n ?ks" using capKeys_take by blast
  have "distinct (map Key_Value (take n ?ks))"
    by (simp add: distinct_take firstByValue_distinct flip: take_map)
  moreover have "notBlank (Key_Value k)" if "k \<in> set (take n ?ks)" for k
  proof -
    have "k \<in> set (candidateKeys u request)" using that firstByValue_subset in_set_takeD by fastforce
    then show ?thesis
      by (intro notBlank_visible) (auto intro!: bexI [of _ "CHR '':''"] candidateKeys_colon simp: isVisible_def)
  qed
  moreover have "maxKeys > 0 \<longrightarrow> int (length (capKeys maxKeys ?ks)) \<le> maxKeys"
    by (auto simp: capKeys_def)
  ultimately show ?thesis using n Some by (simp add: extractCacheKeys_dedup)
qed

lemma firstByValue_values: "Key_Value ` set (firstByValue ks) = Key_Value ` set ks"
  by (induction ks rule: firstByValue.induct) (auto simp: image_iff)

text \<open>The \<^verbatim>\<open>maid\<close> keys that the \<^verbatim>\<open>pcid\<close> parameters of a query stand for.\<close>

definition pcidKeys :: "(string \<times> string) list \<Rightarrow> CacheKey list" where
  "pcidKeys ps = map (\<lambda>p. cacheKey (''maid:'' @ snd p) CacheKeyFirstParty) (filter (\<lambda>p. fst p = ''pcid'') ps)"

lemma appendMAIDKey_pcid:
  assumes "Auction input = Some request"
    and "\<And>d. BidRequest_Device request = Some d \<Longrightarrow> notBlank (IFA d) \<Longrightarrow> notBlank (ToUpper u (IFA d))"
  shows "appendMAIDKey u [] (BidRequest_Device request) = pcidKeys (s2sParameters u order input)"
  using assms
  by (auto simp: pcidKeys_def appendMAIDKey_def s2sParameters_def present_def deviceParameters_def idParameters_def
      privacyParameters_def Let_def
      split: option.splits)

text \<open>
  C27. The advertising id that a lookup uses is the one that the S2S call sends. Parse the query
  of the URL that the call requests: the \<^verbatim>\<open>maid\<close> keys of its \<^verbatim>\<open>pcid\<close> parameters, with the value as
  it was sent, are exactly what stands in the auction's cache keys between the ids of the
  shared sources and those of the others, before the first of equal values is kept and the list is cut.
  Without a limit on the number of keys none of them is lost. (The upper case of a non-blank
  advertising id is not blank.)
\<close>

theorem maid_key_matches_pcid:
  assumes "Auction input = Some request"
    and "\<And>d. BidRequest_Device request = Some d \<Longrightarrow> notBlank (IFA d) \<Longrightarrow> notBlank (ToUpper u (IFA d))"
    and "eids = (case BidRequest_User request of None \<Rightarrow> [] | Some us \<Rightarrow> User_EIDs us)"
  shows "\<exists>q. fst (buildS2SRequest u order input) = endpointPrefix input @ q \<and>
    extractCacheKeys u (Some request) maxKeys =
      capKeys maxKeys (firstByValue (iiqKeys eids @ sharedKeys eids @ pcidKeys (parseQuery q) @
        otherKeys u eids @ appendDeviceKey u [] (BidRequest_Device request))) \<and>
    (maxKeys \<le> 0 \<longrightarrow>
      Key_Value ` set (pcidKeys (parseQuery q)) \<subseteq> Key_Value ` set (extractCacheKeys u (Some request) maxKeys))"
proof -
  obtain q where q: "fst (buildS2SRequest u order input) = endpointPrefix input @ q"
    "parseQuery q = s2sParameters u order input" using buildS2SRequest_readable by blast
  then have maid: "appendMAIDKey u [] (BidRequest_Device request) = pcidKeys (parseQuery q)"
    using appendMAIDKey_pcid [OF assms(1,2)] by simp
  have "Key_Value ` set (pcidKeys (parseQuery q)) \<subseteq> Key_Value ` set (extractCacheKeys u (Some request) maxKeys)"
    if "maxKeys \<le> 0"
    using that maid by (simp add: extractCacheKeys_dedup capKeys_def firstByValue_values candidateKeys_def Let_def) auto
  moreover have "candidateKeys u request = iiqKeys eids @ sharedKeys eids @ pcidKeys (parseQuery q) @
      otherKeys u eids @ appendDeviceKey u [] (BidRequest_Device request)"
    using maid assms(3) by (simp add: candidateKeys_def Let_def)
  ultimately show ?thesis using q(1) extractCacheKeys_dedup [of u request maxKeys] by metis
qed


lemma extractCacheKeys_wf_sample:
  "list_all (\<lambda>k. notBlank (Key_Value k)) (extractCacheKeys asciiCase (Some sampleAuction) 1) \<and>
   int (length (extractCacheKeys asciiCase (Some sampleAuction) 1)) \<le> 1"
  using extractCacheKeys_wf [of asciiCase "Some sampleAuction" 1] by (simp add: list_all_iff)

theorem maid_key_matches_pcid_witness:
  "\<exists>q. fst (buildS2SRequest asciiCase id sampleRequest) = endpointPrefix sampleRequest @ q \<and>
    extractCacheKeys asciiCase (Some sampleAuction) 2 =
      capKeys 2 (firstByValue (pcidKeys (parseQuery q) @ appendDeviceKey asciiCase [] (Some sampleDevice)))"
proof -
  have "notBlank (ToUpper asciiCase (IFA sampleDevice))"
    by (rule notBlank_visible)
       (simp add: sampleDevice_def ToUpper_def isASCII_def upperByte_def isVisible_def)
  then have "BidRequest_Device sampleAuction = Some d \<Longrightarrow> notBlank (IFA d) \<Longrightarrow> notBlank (ToUpper asciiCase (IFA d))" for d
    by (simp add: sampleAuction_def)
  from maid_key_matches_pcid [of sampleRequest sampleAuction asciiCase, OF _ this refl, of id 2] show ?thesis
    by (auto simp: sampleAuction_def sampleRequest_def iiqKeys_def sharedKeys_def otherKeys_def)
qed

end
