(* ===== verification/S2S.thy ===== *)
theory S2S
  imports Entry Errors
begin

text \<open>
  \<^verbatim>\<open>iiqapi/s2s/response.go\<close>, \<^verbatim>\<open>iiqapi/s2s/client.go\<close>, \<^verbatim>\<open>iiqapi/reporting/client.go\<close>: the two HTTP
  clients and the S2S response.

  The HTTP library is a parameter: whether a request can be made for a URL, and what sending
  it gives. Raw JSON is kept as the value it parses to.
\<close>

section \<open>The S2S response\<close>

record Response =
  Resp_Data :: "json option"
  Resp_ResolvedEIDs :: "EID list option"
  Resp_CacheTTL :: "int option"
  Resp_ABTestUUID :: string
  Resp_TC :: "int option"
  Resp_Status :: int
  Resp_EmptyBody :: bool

definition emptyResponse :: Response where
  "emptyResponse =
     \<lparr>Resp_Data = None, Resp_ResolvedEIDs = None, Resp_CacheTTL = None, Resp_ABTestUUID = [],
      Resp_TC = None, Resp_Status = 0, Resp_EmptyBody = False\<rparr>"

text \<open>The slice of a struct's \<^verbatim>\<open>eids\<close> field: nil when the member is absent or null.\<close>

definition eidsField :: "eid_codec \<Rightarrow> string \<Rightarrow> json \<Rightarrow> EID list option \<Rightarrow> EID list option option" where
  "eidsField codec k j eids =
     (if isField ''eids'' k then
        (case j of JNull \<Rightarrow> Some None | _ \<Rightarrow> map_option Some (decodeSlice (unmarshalEID codec) j))
      else Some eids)"

definition Response_EIDs :: "eid_codec \<Rightarrow> Response \<Rightarrow> EID list option" where
  "Response_EIDs codec r =
     (case Resp_ResolvedEIDs r of
        Some eids \<Rightarrow> Some eids
      | None \<Rightarrow>
          (case Resp_Data r of
             None \<Rightarrow> None
           | Some raw \<Rightarrow>
               (case decodeStruct (eidsField codec) raw None of
                  None \<Rightarrow> None
                | Some eids \<Rightarrow> eids)))"

definition Response_TTL :: "Response \<Rightarrow> duration" where
  "Response_TTL r =
     (case Resp_CacheTTL r of None \<Rightarrow> 0 | Some t \<Rightarrow> mulDuration t time_Millisecond)"

section \<open>Decoding\<close>

definition metaField :: "string \<Rightarrow> json \<Rightarrow> Response \<Rightarrow> Response option" where
  "metaField k j r =
     (if isField ''cttl'' k then map_option (\<lambda>v. r\<lparr>Resp_CacheTTL := v\<rparr>) (decodeIntPtr 64 j)
      else if isField ''abTestUuid'' k then
        map_option (\<lambda>v. r\<lparr>Resp_ABTestUUID := v\<rparr>) (decodeString j (Resp_ABTestUUID r))
      else if isField ''tc'' k then map_option (\<lambda>v. r\<lparr>Resp_TC := v\<rparr>) (decodeIntPtr 64 j)
      else Some r)"

text \<open>The wire struct of \<^verbatim>\<open>decodeResponse\<close>: \<^verbatim>\<open>data\<close> is an object with \<^verbatim>\<open>eids\<close>.\<close>

definition wireField :: "eid_codec \<Rightarrow> string \<Rightarrow> json \<Rightarrow> Response \<Rightarrow> Response option" where
  "wireField codec k j r =
     (if isField ''data'' k then
        map_option (\<lambda>v. r\<lparr>Resp_ResolvedEIDs := v\<rparr>)
          (decodeStruct (eidsField codec) j (Resp_ResolvedEIDs r))
      else metaField k j r)"

text \<open>The \<^verbatim>\<open>Response\<close> struct itself: \<^verbatim>\<open>data\<close> is kept raw.\<close>

definition responseField :: "string \<Rightarrow> json \<Rightarrow> Response \<Rightarrow> Response option" where
  "responseField k j r =
     (if isField ''data'' k then Some (r\<lparr>Resp_Data := Some j\<rparr>) else metaField k j r)"

definition decodeResponse :: "eid_codec \<Rightarrow> bytes \<Rightarrow> go_error + Response" where
  "decodeResponse codec body =
     (case parseJSON body of
        None \<Rightarrow> Inl (PlainError ''invalid JSON'')
      | Some j \<Rightarrow>
          (case decodeStruct (wireField codec) j emptyResponse of
             Some wire \<Rightarrow> Inr wire
           | None \<Rightarrow>
               (case decodeStruct responseField j emptyResponse of
                  None \<Rightarrow> Inl (PlainError ''json: cannot unmarshal'')
                | Some result \<Rightarrow>
                    Inr (result\<lparr>Resp_ResolvedEIDs := Response_EIDs codec result\<rparr>))))"

section \<open>The clients\<close>

record http_response =
  StatusCode :: int
  Body :: bytes
  ReadError :: "go_error option"

text \<open>\<open>Do\<close> also gets the header that carries the consent, when there is one.\<close>

record http =
  NewRequest :: "string \<Rightarrow> go_error option"
  Do :: "ctx \<Rightarrow> string \<Rightarrow> string option \<Rightarrow> go_error + http_response"

text \<open>\<^verbatim>\<open>strings.Fields\<close>: the maximal runs without white space.\<close>

fun fieldsFrom :: "nat \<Rightarrow> string \<Rightarrow> string \<Rightarrow> string list" where
  "fieldsFrom 0 word s = (if word = [] then [] else [word])"
| "fieldsFrom (Suc n) word s =
     (case s of
        [] \<Rightarrow> (if word = [] then [] else [word])
      | c # t \<Rightarrow>
          if leadingSpace s > 0 then
            (if word = [] then [] else [word]) @ fieldsFrom n [] (drop (leadingSpace s) s)
          else fieldsFrom n (word @ [c]) t)"

definition Fields :: "string \<Rightarrow> string list" where
  "Fields s = fieldsFrom (length s) [] s"

definition maxErrorSnippetSize :: nat where
  "maxErrorSnippetSize = 1024"

definition apiError :: "ErrorKind \<Rightarrow> int \<Rightarrow> string \<Rightarrow> go_error \<Rightarrow> go_error" where
  "apiError kind status snippet err = APIError kind status snippet (Some err)"

definition doError :: "go_error option \<Rightarrow> go_error \<Rightarrow> go_error" where
  "doError ctxError err =
     apiError
       (if isDeadlineExceeded err \<or> (case ctxError of None \<Rightarrow> False | Some e \<Rightarrow> isDeadlineExceeded e)
        then ErrorTimeout else ErrorTransport) 0 [] err"

text \<open>
  \<open>now\<close> is the instant at which the call to \<^verbatim>\<open>Do\<close> has returned, when the context's own error is
  looked at.
\<close>

definition Resolve ::
  "eid_codec \<Rightarrow> http \<Rightarrow> int \<Rightarrow> ctx \<Rightarrow> string \<Rightarrow> string \<Rightarrow> go_error + Response" where
  "Resolve codec client now c requestURL consent =
     (case NewRequest client requestURL of
        Some err \<Rightarrow> Inl (apiError ErrorRequest 0 [] err)
      | None \<Rightarrow>
          (case Do client c requestURL (if consent \<noteq> [] then Some consent else None) of
             Inl err \<Rightarrow> Inl (doError (ctxErr now c) err)
           | Inr resp \<Rightarrow>
               if StatusCode resp < 200 \<or> StatusCode resp \<ge> 300 then
                 Inl (apiError ErrorStatus (StatusCode resp)
                        (Join (Fields (take maxErrorSnippetSize (Body resp))) '' '')
                        (PlainError (''resolution API returned '' @ Itoa (StatusCode resp))))
               else case ReadError resp of
                 Some err \<Rightarrow> Inl (apiError ErrorBodyRead (StatusCode resp) [] err)
               | None \<Rightarrow>
                   if length (TrimSpace (Body resp)) = 0 then
                     Inr (emptyResponse\<lparr>Resp_Status := StatusCode resp, Resp_EmptyBody := True\<rparr>)
                   else case decodeResponse codec (Body resp) of
                     Inl err \<Rightarrow> Inl (apiError ErrorParse (StatusCode resp) [] err)
                   | Inr result \<Rightarrow> Inr (result\<lparr>Resp_Status := StatusCode resp\<rparr>)))"

definition client_ReportImpression :: "http \<Rightarrow> int \<Rightarrow> ctx \<Rightarrow> string \<Rightarrow> go_error option" where
  "client_ReportImpression client now c requestURL =
     (case NewRequest client requestURL of
        Some err \<Rightarrow> Some (apiError ErrorRequest 0 [] err)
      | None \<Rightarrow>
          (case Do client c requestURL None of
             Inl err \<Rightarrow> Some (doError (ctxErr now c) err)
           | Inr resp \<Rightarrow>
               if StatusCode resp < 200 \<or> StatusCode resp \<ge> 300 then
                 Some (apiError ErrorStatus (StatusCode resp) []
                   (PlainError (''reporting API returned '' @ Itoa (StatusCode resp) @ '': '' @ Body resp)))
               else None))"

section \<open>Every failure is classified\<close>

text \<open>
  C22. A failed S2S call always carries a label: the error is the API's own, its kind says
  which stage failed, a status is attached exactly when a response with a status was read,
  and an expired deadline is a timeout and never a transport failure.
\<close>

theorem Resolve_error_classified:
  assumes "Resolve codec client now c url consent = Inl err"
    and "sent = Do client c url (if consent \<noteq> [] then Some consent else None)"
  shows "\<exists>kind status. asAPIError err = Some (kind, status) \<and>
    (NewRequest client url \<noteq> None \<longrightarrow> kind = ErrorRequest \<and> status = 0) \<and>
    (\<forall>e. NewRequest client url = None \<and> sent = Inl e \<longrightarrow> status = 0 \<and>
       kind = (if isDeadlineExceeded e \<or> ctxErr now c = Some DeadlineExceeded
               then ErrorTimeout else ErrorTransport)) \<and>
    (\<forall>resp. NewRequest client url = None \<and> sent = Inr resp \<longrightarrow> status = StatusCode resp \<and>
       (kind = ErrorStatus \<longleftrightarrow> \<not> (200 \<le> StatusCode resp \<and> StatusCode resp < 300)) \<and>
       (kind = ErrorBodyRead \<longleftrightarrow> 200 \<le> StatusCode resp \<and> StatusCode resp < 300 \<and> ReadError resp \<noteq> None) \<and>
       kind \<in> {ErrorStatus, ErrorBodyRead, ErrorParse})"
proof -
  have ctx: "(case ctxErr now c of None \<Rightarrow> False | Some e \<Rightarrow> isDeadlineExceeded e) \<longleftrightarrow>
      ctxErr now c = Some DeadlineExceeded"
    by (auto simp: ctxErr_def split: option.splits)
  note R = assms(1) [unfolded Resolve_def assms(2) [symmetric]]
  show ?thesis
  proof (cases "NewRequest client url")
    case None
    show ?thesis
    proof (cases sent)
      case (Inl e)
      with None R show ?thesis by (auto simp: apiError_def doError_def ctx)
    next
      case (Inr resp)
      with None R show ?thesis by (auto simp: apiError_def split: option.splits sum.splits if_splits)
    qed
  qed (use R in \<open>auto simp: apiError_def\<close>)
qed

text \<open>An HTTP library that answers every request in the same way.\<close>

definition answering :: "go_error + http_response \<Rightarrow> http" where
  "answering a = \<lparr>NewRequest = (\<lambda>_. None), Do = (\<lambda>_ _ _. a)\<rparr>"

theorem Resolve_error_classified_witness:
  "\<exists>err. Resolve \<lparr>marshalEID = (\<lambda>_. None), unmarshalEID = (\<lambda>_. None)\<rparr>
     (answering (Inr \<lparr>StatusCode = 503, Body = [], ReadError = None\<rparr>)) 0 Background ''u'' [] = Inl err \<and>
     asAPIError err = Some (ErrorStatus, 503)"
  using Resolve_error_classified [of "\<lparr>marshalEID = (\<lambda>_. None), unmarshalEID = (\<lambda>_. None)\<rparr>"
      "answering (Inr \<lparr>StatusCode = 503, Body = [], ReadError = None\<rparr>)" 0 Background "''u''" "[]" _
      "Inr \<lparr>StatusCode = 503, Body = [], ReadError = None\<rparr>"]
  by (auto simp: Resolve_def answering_def)

section \<open>What a successful call gives\<close>

lemma metaField_keeps:
  "metaField k j r = Some r' \<Longrightarrow> Resp_Data r' = Resp_Data r \<and> Resp_EmptyBody r' = Resp_EmptyBody r \<and>
    Resp_ResolvedEIDs r' = Resp_ResolvedEIDs r"
  by (auto simp: metaField_def split: if_splits)

lemma wireField_keeps:
  "wireField codec k j r = Some r' \<Longrightarrow> Resp_Data r' = Resp_Data r \<and> Resp_EmptyBody r' = Resp_EmptyBody r"
  using metaField_keeps by (auto simp: wireField_def split: if_splits)

lemma responseField_keeps:
  "responseField k j r = Some r' \<Longrightarrow> Resp_EmptyBody r' = Resp_EmptyBody r \<and>
    Resp_ResolvedEIDs r' = Resp_ResolvedEIDs r"
  using metaField_keeps by (auto simp: responseField_def split: if_splits)

lemma decodeMembers_keeps:
  assumes "\<And>k j a a'. f k j a = Some a' \<Longrightarrow> P a' = P a"
  shows "decodeMembers f kvs a = Some a' \<Longrightarrow> P a' = P a"
proof (induction kvs arbitrary: a)
  case (Cons kv kvs)
  obtain k j where kv: "kv = (k, j)" by (cases kv)
  with Cons.prems obtain b where "f k j a = Some b" "decodeMembers f kvs b = Some a'"
    by (auto split: option.splits)
  with Cons.IH assms show ?case by metis
qed simp

lemma decodeStruct_keeps:
  assumes "\<And>k j a a'. f k j a = Some a' \<Longrightarrow> P a' = P a"
  shows "decodeStruct f j a = Some a' \<Longrightarrow> P a' = P a"
  using decodeMembers_keeps [of f P, OF assms] by (cases j) (auto simp: decodeStruct_def)

lemma decodeResponse_not_empty:
  assumes "decodeResponse codec body = Inr r"
  shows "\<not> Resp_EmptyBody r"
proof -
  have "Resp_EmptyBody r' = Resp_EmptyBody emptyResponse"
    if "decodeStruct (wireField codec) j emptyResponse = Some r'" for j r'
    using decodeStruct_keeps [of "wireField codec" Resp_EmptyBody, OF _ that] wireField_keeps by blast
  moreover have "Resp_EmptyBody r' = Resp_EmptyBody emptyResponse"
    if "decodeStruct responseField j emptyResponse = Some r'" for j r'
    using decodeStruct_keeps [of responseField Resp_EmptyBody, OF _ that] responseField_keeps by blast
  ultimately show ?thesis
    using assms by (auto simp: decodeResponse_def emptyResponse_def split: option.splits)
qed

text \<open>
  C23. What a successful call returns is what the answer says. It comes from an answer of the
  HTTP library with a 2xx status, read without an error. When the body is blank the response is
  the empty one, marked as such, with no ids, no lifetime and no termination cause; otherwise
  it is the decoded body, not marked as empty. Either way it has the status of the answer.
\<close>

theorem Resolve_success:
  assumes "Resolve codec client now c url consent = Inr r"
  shows "\<exists>resp. NewRequest client url = None \<and>
    Do client c url (if consent \<noteq> [] then Some consent else None) = Inr resp \<and>
    200 \<le> StatusCode resp \<and> StatusCode resp < 300 \<and> ReadError resp = None \<and>
    Resp_Status r = StatusCode resp \<and> (Resp_EmptyBody r \<longleftrightarrow> TrimSpace (Body resp) = []) \<and>
    (if TrimSpace (Body resp) = []
     then Response_EIDs codec r = None \<and> Response_TTL r = 0 \<and> Resp_TC r = None \<and> Resp_ABTestUUID r = []
     else \<exists>decoded. decodeResponse codec (Body resp) = Inr decoded \<and> r = decoded\<lparr>Resp_Status := StatusCode resp\<rparr>)"
proof -
  from assms obtain resp where d: "NewRequest client url = None"
      "Do client c url (if consent \<noteq> [] then Some consent else None) = Inr resp"
      "200 \<le> StatusCode resp" "StatusCode resp < 300" "ReadError resp = None"
    and r: "TrimSpace (Body resp) = [] \<and> r = emptyResponse\<lparr>Resp_Status := StatusCode resp, Resp_EmptyBody := True\<rparr> \<or>
      TrimSpace (Body resp) \<noteq> [] \<and>
        (\<exists>r'. decodeResponse codec (Body resp) = Inr r' \<and> r = r'\<lparr>Resp_Status := StatusCode resp\<rparr>)"
    by (auto simp: Resolve_def split: option.splits sum.splits if_splits)
  from r show ?thesis
  proof (elim disjE conjE exE)
    assume "TrimSpace (Body resp) = []" "r = emptyResponse\<lparr>Resp_Status := StatusCode resp, Resp_EmptyBody := True\<rparr>"
    with d show ?thesis by (auto simp: emptyResponse_def Response_EIDs_def Response_TTL_def)
  next
    fix r'
    assume "TrimSpace (Body resp) \<noteq> []" "decodeResponse codec (Body resp) = Inr r'"
      "r = r'\<lparr>Resp_Status := StatusCode resp\<rparr>"
    with d decodeResponse_not_empty show ?thesis by auto
  qed
qed

text \<open>A JSON answer with a termination cause and an A/B test id, and a blank one.\<close>

definition sampleBody :: bytes where
  "sampleBody = jsonText (JObj [(''tc'', JNum (Itoa 5)), (''abTestUuid'', JStr ''A'')])"

definition noIDs :: eid_codec where
  "noIDs = \<lparr>marshalEID = (\<lambda>_. None), unmarshalEID = (\<lambda>_. None)\<rparr>"

definition sampleAnswer :: "bytes \<Rightarrow> http" where
  "sampleAnswer body = answering (Inr \<lparr>StatusCode = 200, Body = body, ReadError = None\<rparr>)"

lemma sampleBody_decoded:
  "decodeResponse noIDs sampleBody = Inr (emptyResponse\<lparr>Resp_TC := Some 5, Resp_ABTestUUID := ''A''\<rparr>)"
proof -
  have "parseJSON sampleBody = Some (JObj [(''tc'', JNum (Itoa 5)), (''abTestUuid'', JStr ''A'')])"
    unfolding sampleBody_def
    by (rule parseJSON_jsonText) (simp add: maxNestingDepth_def isASCII_valid_utf8 isASCII_def scanNumber_Itoa)
  moreover have "parseInt 64 (Itoa 5) = Some 5" by (rule parseInt_Itoa) simp_all
  ultimately show ?thesis
    by (simp add: decodeResponse_def decodeStruct_def wireField_def metaField_def isField_ASCII isASCII_def
        upperByte_def emptyResponse_def)
qed

lemma sampleBody_visible: "TrimSpace sampleBody \<noteq> []"
  by (rule TrimSpace_visible [of "CHR ''{''"]) (simp_all add: sampleBody_def isVisible_def)

theorem Resolve_success_witness:
  "\<exists>r r'. Resolve noIDs (sampleAnswer sampleBody) 0 Background ''u'' [] = Inr r \<and>
    \<not> Resp_EmptyBody r \<and> Resp_Status r = 200 \<and> Resp_TC r = Some 5 \<and> Resp_ABTestUUID r = ''A'' \<and>
    Resolve noIDs (sampleAnswer []) 0 Background ''u'' [] = Inr r' \<and> Resp_EmptyBody r' \<and> Resp_TC r' = None"
proof -
  have "\<exists>r. Resolve noIDs (sampleAnswer sampleBody) 0 Background ''u'' [] = Inr r"
    "\<exists>r. Resolve noIDs (sampleAnswer []) 0 Background ''u'' [] = Inr r"
    using sampleBody_decoded by (simp_all add: Resolve_def sampleAnswer_def answering_def)
  then obtain r r' where r: "Resolve noIDs (sampleAnswer sampleBody) 0 Background ''u'' [] = Inr r"
    "Resolve noIDs (sampleAnswer []) 0 Background ''u'' [] = Inr r'" by blast
  from Resolve_success [OF r(1)] have "\<not> Resp_EmptyBody r \<and> Resp_Status r = 200 \<and> Resp_TC r = Some 5 \<and> Resp_ABTestUUID r = ''A''"
    using sampleBody_visible sampleBody_decoded by (auto simp: sampleAnswer_def answering_def)
  moreover from Resolve_success [OF r(2)] have "Resp_EmptyBody r' \<and> Resp_TC r' = None"
    by (auto simp: sampleAnswer_def answering_def)
  ultimately show ?thesis using r by blast
qed

end
