(* ===== verification/Limiter.thy ===== *)
theory Limiter
  imports Prelude "HOL-Library.Multiset"
begin

text \<open>
  \<^verbatim>\<open>enrichment/limiter.go\<close> and the admission protocol that the enricher and the reporter build
  on such a limiter.

  A limiter is a buffered channel of empty structs: all there is to know of one is its
  capacity and the number of elements in it. A blocking operation has no result (\<open>None\<close>) in
  the states in which it blocks.
\<close>

section \<open>The limiter of background S2S work\<close>

record s2sLimiter =
  lim_cap :: nat
  lim_len :: nat

definition newS2SLimiter :: "int \<Rightarrow> s2sLimiter" where
  "newS2SLimiter maximum =
     (if maximum \<le> 0 then \<lparr>lim_cap = 0, lim_len = 0\<rparr> else \<lparr>lim_cap = nat maximum, lim_len = 0\<rparr>)"

definition TryAcquire :: "s2sLimiter \<Rightarrow> bool \<times> s2sLimiter" where
  "TryAcquire limiter =
     (if lim_len limiter < lim_cap limiter then (True, limiter\<lparr>lim_len := lim_len limiter + 1\<rparr>)
      else (False, limiter))"

definition Release :: "s2sLimiter \<Rightarrow> s2sLimiter option" where
  "Release limiter =
     (if lim_len limiter = 0 then None else Some (limiter\<lparr>lim_len := lim_len limiter - 1\<rparr>))"

text \<open>One round of the loop of \<^verbatim>\<open>Drain\<close>: the send blocks while the channel is full.\<close>

definition DrainSend :: "s2sLimiter \<Rightarrow> s2sLimiter option" where
  "DrainSend limiter =
     (if lim_len limiter < lim_cap limiter then Some (limiter\<lparr>lim_len := lim_len limiter + 1\<rparr>)
      else None)"

section \<open>What a limiter promises\<close>

locale permit_channel =
  fixes capOf :: "'l \<Rightarrow> nat" and lenOf :: "'l \<Rightarrow> nat"
    and attempt :: "'l \<Rightarrow> bool \<times> 'l" and release :: "'l \<Rightarrow> 'l option" and send :: "'l \<Rightarrow> 'l option"
  assumes attempt_result: "fst (attempt l) \<longleftrightarrow> lenOf l < capOf l"
    and attempt_len: "lenOf (snd (attempt l)) = (if lenOf l < capOf l then Suc (lenOf l) else lenOf l)"
    and attempt_cap: "capOf (snd (attempt l)) = capOf l"
    and release_blocks: "release l = None \<longleftrightarrow> lenOf l = 0"
    and release_len: "release l = Some l' \<Longrightarrow> Suc (lenOf l') = lenOf l \<and> capOf l' = capOf l"
    and send_blocks: "send l = None \<longleftrightarrow> \<not> lenOf l < capOf l"
    and send_len: "send l = Some l' \<Longrightarrow> lenOf l' = Suc (lenOf l) \<and> capOf l' = capOf l"
begin

lemma attempt_within: "lenOf l \<le> capOf l \<Longrightarrow> lenOf (snd (attempt l)) \<le> capOf (snd (attempt l))"
  by (simp add: attempt_len attempt_cap)

lemma send_within: "send l = Some l' \<Longrightarrow> lenOf l' \<le> capOf l'"
  using send_blocks [of l] send_len [of l l'] by auto

lemma acquire_release:
  "lenOf l < capOf l \<Longrightarrow> \<exists>l'. release (snd (attempt l)) = Some l' \<and> lenOf l' = lenOf l \<and> capOf l' = capOf l"
  using release_blocks [of "snd (attempt l)"] release_len [of "snd (attempt l)"]
  by (cases "release (snd (attempt l))") (auto simp: attempt_len attempt_cap)

text \<open>
  Sends that all succeed fill the channel: draining a limiter takes as many permits as are
  free.
\<close>

fun sends :: "nat \<Rightarrow> 'l \<Rightarrow> 'l option" where
  "sends 0 l = Some l"
| "sends (Suc n) l = (case send l of None \<Rightarrow> None | Some l' \<Rightarrow> sends n l')"

lemma sends_len: "sends n l = Some l' \<Longrightarrow> lenOf l' = lenOf l + n \<and> capOf l' = capOf l"
  by (induction n arbitrary: l) (auto split: option.splits dest!: send_len)

lemma drain_idle: "lenOf l = 0 \<Longrightarrow> \<exists>l'. sends (capOf l) l = Some l' \<and> lenOf l' = capOf l'"
proof -
  have "n + lenOf l \<le> capOf l \<Longrightarrow> \<exists>l'. sends n l = Some l'" for n
  proof (induction n arbitrary: l)
    case (Suc n)
    then obtain l1 where "send l = Some l1" using send_blocks [of l] by (cases "send l") auto
    moreover from this Suc show ?case using send_len [of l l1] by fastforce
  qed simp
  then show "lenOf l = 0 \<Longrightarrow> ?thesis" using sends_len by fastforce
qed

end

interpretation s2s: permit_channel lim_cap lim_len TryAcquire Release DrainSend
  by unfold_locales (auto simp: TryAcquire_def Release_def DrainSend_def split: if_splits)

section \<open>The admission protocol\<close>

text \<open>
  Work is admitted by a caller that takes a permit, looks at the closing flag once more, and
  then either starts the work or gives the permit back. Shutting down raises the flag and
  starts, once, a drainer that takes every permit for good. The state counts the callers
  between taking a permit and the second look, those about to give it back, and the pieces
  of work that run.
\<close>

datatype drain = NotDraining | Draining nat | Drained

primrec taken :: "nat \<Rightarrow> drain \<Rightarrow> nat" where
  "taken c NotDraining = 0"
| "taken c (Draining k) = k"
| "taken c Drained = c"

record admission =
  adm_cap :: nat
  adm_len :: nat
  adm_closing :: bool
  adm_drain :: drain
  adm_holding :: nat
  adm_leaving :: nat
  adm_working :: nat

inductive adm_step :: "admission \<Rightarrow> admission \<Rightarrow> bool" where
  adm_acquire: "adm_len s < adm_cap s \<Longrightarrow>
    adm_step s (s\<lparr>adm_len := Suc (adm_len s), adm_holding := Suc (adm_holding s)\<rparr>)"
| adm_admit: "adm_holding s = Suc h \<Longrightarrow> \<not> adm_closing s \<Longrightarrow>
    adm_step s (s\<lparr>adm_holding := h, adm_working := Suc (adm_working s)\<rparr>)"
| adm_decline: "adm_holding s = Suc h \<Longrightarrow> adm_closing s \<Longrightarrow>
    adm_step s (s\<lparr>adm_holding := h, adm_leaving := Suc (adm_leaving s)\<rparr>)"
| adm_giveBack: "adm_leaving s = Suc h \<Longrightarrow> adm_len s = Suc n \<Longrightarrow>
    adm_step s (s\<lparr>adm_leaving := h, adm_len := n\<rparr>)"
| adm_finish: "adm_working s = Suc h \<Longrightarrow> adm_len s = Suc n \<Longrightarrow>
    adm_step s (s\<lparr>adm_working := h, adm_len := n\<rparr>)"
| adm_close: "adm_step s (s\<lparr>adm_closing := True\<rparr>)"
| adm_startDrain: "adm_closing s \<Longrightarrow> adm_drain s = NotDraining \<Longrightarrow>
    adm_step s (s\<lparr>adm_drain := Draining 0\<rparr>)"
| adm_takePermit: "adm_drain s = Draining k \<Longrightarrow> k < adm_cap s \<Longrightarrow> adm_len s < adm_cap s \<Longrightarrow>
    adm_step s (s\<lparr>adm_drain := Draining (Suc k), adm_len := Suc (adm_len s)\<rparr>)"
| adm_endDrain: "adm_drain s = Draining k \<Longrightarrow> k = adm_cap s \<Longrightarrow>
    adm_step s (s\<lparr>adm_drain := Drained\<rparr>)"

inductive_cases adm_stepE: "adm_step s t"

inductive_simps adm_step_records:
  "adm_step \<lparr>adm_cap = c, adm_len = n, adm_closing = b, adm_drain = d, adm_holding = h, adm_leaving = l, adm_working = w\<rparr>
     \<lparr>adm_cap = c', adm_len = n', adm_closing = b', adm_drain = d', adm_holding = h', adm_leaving = l', adm_working = w'\<rparr>"

definition adm_init :: "nat \<Rightarrow> admission" where
  "adm_init c =
     \<lparr>adm_cap = c, adm_len = 0, adm_closing = False, adm_drain = NotDraining, adm_holding = 0,
      adm_leaving = 0, adm_working = 0\<rparr>"

definition holders :: "admission \<Rightarrow> nat" where
  "holders s = adm_holding s + adm_leaving s + adm_working s"

definition adm_inv :: "admission \<Rightarrow> bool" where
  "adm_inv s \<longleftrightarrow>
     adm_len s = holders s + taken (adm_cap s) (adm_drain s) \<and> adm_len s \<le> adm_cap s \<and>
     (adm_drain s \<noteq> NotDraining \<longrightarrow> adm_closing s)"

lemma adm_inv_init: "adm_inv (adm_init c)"
  by (simp add: adm_inv_def adm_init_def holders_def)

lemma adm_inv_step: "adm_step s t \<Longrightarrow> adm_inv s \<Longrightarrow> adm_inv t"
  by (erule adm_step.cases) (auto simp: adm_inv_def holders_def)

lemma adm_cap_step: "adm_step s t \<Longrightarrow> adm_cap t = adm_cap s"
  by (erule adm_step.cases) auto

lemma adm_inv_bounds:
  "adm_inv s \<Longrightarrow> adm_working s \<le> adm_cap s"
  "adm_inv s \<Longrightarrow> 0 < holders s \<Longrightarrow> 0 < adm_len s"
  "adm_inv s \<Longrightarrow> adm_drain s = Drained \<Longrightarrow> holders s = 0"
  by (auto simp: adm_inv_def holders_def)

text \<open>Closing is for good, and once it is seen no work is added.\<close>

lemma adm_closing_step:
  "adm_step s t \<Longrightarrow> adm_closing s \<Longrightarrow> adm_closing t \<and> adm_working t \<le> adm_working s"
  by (erule adm_step.cases) auto

lemma adm_drained_step: "adm_step s t \<Longrightarrow> adm_drain s = Drained \<Longrightarrow> adm_drain t = Drained"
  by (erule adm_step.cases) auto

text \<open>
  A drain can always be completed: the callers and the work that hold permits give them
  back, one step at a time, and the drainer takes them.
\<close>

definition drain_measure :: "admission \<Rightarrow> nat" where
  "drain_measure s = 3 * adm_holding s + 2 * adm_leaving s + 2 * adm_working s +
     (case adm_drain s of NotDraining \<Rightarrow> adm_cap s + 2 | Draining k \<Rightarrow> adm_cap s - k + 1 | Drained \<Rightarrow> 0)"

lemma drain_progress:
  assumes "adm_inv s" "adm_closing s" "adm_drain s \<noteq> Drained"
  shows "\<exists>t. adm_step s t \<and> drain_measure t < drain_measure s"
proof -
  consider (h) h where "adm_holding s = Suc h" | (l) h where "adm_leaving s = Suc h"
    | (w) h where "adm_working s = Suc h" | (none) "holders s = 0"
    by (auto simp: holders_def) (metis not0_implies_Suc)
  then show ?thesis
  proof cases
    case h
    with adm_decline [OF h assms(2)] show ?thesis
      by (intro exI conjI) (auto simp: drain_measure_def split: drain.split)
  next
    case l
    with assms(1) obtain n where "adm_len s = Suc n"
      using adm_inv_bounds(2) [of s] by (auto simp: holders_def gr0_conv_Suc)
    from adm_giveBack [OF l this] l show ?thesis
      by (intro exI conjI) (auto simp: drain_measure_def split: drain.split)
  next
    case w
    with assms(1) obtain n where "adm_len s = Suc n"
      using adm_inv_bounds(2) [of s] by (auto simp: holders_def gr0_conv_Suc)
    from adm_finish [OF w this] w show ?thesis
      by (intro exI conjI) (auto simp: drain_measure_def split: drain.split)
  next
    case none
    show ?thesis
    proof (cases "adm_drain s")
      case NotDraining
      from adm_startDrain [OF assms(2) this] NotDraining show ?thesis
        by (intro exI conjI) (auto simp: drain_measure_def)
    next
      case (Draining k)
      show ?thesis
      proof (cases "k < adm_cap s")
        case True
        with none assms(1) Draining have "adm_len s < adm_cap s" by (simp add: adm_inv_def)
        from adm_takePermit [OF Draining True this] Draining True show ?thesis
          by (intro exI conjI) (auto simp: drain_measure_def)
      next
        case False
        with assms(1) Draining have "k = adm_cap s" by (simp add: adm_inv_def)
        from adm_endDrain [OF Draining this] Draining show ?thesis
          by (intro exI conjI) (auto simp: drain_measure_def)
      qed
    qed (use assms(3) in simp)
  qed
qed

lemma drain_completes:
  "adm_inv s \<Longrightarrow> adm_closing s \<Longrightarrow> \<exists>t. adm_step\<^sup>*\<^sup>* s t \<and> adm_drain t = Drained"
proof (induction "drain_measure s" arbitrary: s rule: less_induct)
  case less
  show ?case
  proof (cases "adm_drain s = Drained")
    case False
    with drain_progress less.prems obtain t where t: "adm_step s t" "drain_measure t < drain_measure s"
      by blast
    with less.hyps [OF t(2)] less.prems adm_inv_step adm_closing_step
    show ?thesis by (meson converse_rtranclp_into_rtranclp)
  qed blast
qed

section \<open>Systems that follow the protocol\<close>

text \<open>
  A system follows the protocol when its steps, seen through a view of its state as an
  admission state, are protocol steps or leave the view as it is. An invariant of the
  system may help to show it.
\<close>

locale admission_system =
  fixes step :: "'s \<Rightarrow> 's \<Rightarrow> bool" and init :: "'s \<Rightarrow> bool" and inv :: "'s \<Rightarrow> bool"
    and view :: "'s \<Rightarrow> admission"
  assumes init_inv: "init s \<Longrightarrow> inv s" and init_view: "init s \<Longrightarrow> \<exists>c. view s = adm_init c"
    and step_inv: "inv s \<Longrightarrow> step s t \<Longrightarrow> inv t"
    and step_view: "inv s \<Longrightarrow> step s t \<Longrightarrow> view t = view s \<or> adm_step (view s) (view t)"
begin

inductive reachable :: "'s \<Rightarrow> bool" where
  start: "init s \<Longrightarrow> reachable s"
| move: "reachable s \<Longrightarrow> step s t \<Longrightarrow> reachable t"

lemma reachable_inv: "reachable s \<Longrightarrow> inv s \<and> adm_inv (view s)"
proof (induction rule: reachable.induct)
  case (start s)
  then show ?case using init_inv init_view adm_inv_init by metis
next
  case (move s t)
  then show ?case using step_inv step_view adm_inv_step by metis
qed

lemma reachable_steps: "step\<^sup>*\<^sup>* s t \<Longrightarrow> reachable s \<Longrightarrow> reachable t"
  by (induction rule: rtranclp_induct) (auto intro: move)

lemma working_bounded: "reachable s \<Longrightarrow> adm_working (view s) \<le> adm_cap (view s)"
  using adm_inv_bounds(1) reachable_inv by blast

lemma holder_has_permit: "reachable s \<Longrightarrow> 0 < holders (view s) \<Longrightarrow> 0 < adm_len (view s)"
  using adm_inv_bounds(2) reachable_inv by blast

lemma no_work_after_close:
  assumes "step\<^sup>*\<^sup>* s t" "reachable s" "adm_closing (view s)"
  shows "adm_closing (view t) \<and> adm_working (view t) \<le> adm_working (view s)"
  using assms
proof (induction rule: rtranclp_induct)
  case (step t u)
  then have IH: "adm_closing (view t)" "adm_working (view t) \<le> adm_working (view s)" by auto
  have "inv t" using reachable_inv reachable_steps [OF step.hyps(1) step.prems(1)] by blast
  from step_view [OF this step.hyps(2)] adm_closing_step [of "view t" "view u"] IH show ?case by fastforce
qed simp

lemma drained_stays:
  assumes "step\<^sup>*\<^sup>* s t" "reachable s" "adm_drain (view s) = Drained"
  shows "adm_drain (view t) = Drained"
  using assms
proof (induction rule: rtranclp_induct)
  case (step t u)
  have "inv t" using reachable_inv reachable_steps [OF step.hyps(1) step.prems(1)] by blast
  from step_view [OF this step.hyps(2)] adm_drained_step [of "view t" "view u"] step show ?case by auto
qed simp

lemma drained_idle:
  assumes "reachable s" "adm_drain (view s) = Drained" "step\<^sup>*\<^sup>* s t"
  shows "holders (view t) = 0"
  using adm_inv_bounds(3) reachable_inv reachable_steps drained_stays assms by blast

end

section \<open>Completion\<close>

text \<open>
  When every state in which a call waits can be left towards one that is closer to the end of
  the drain, and the call returns once the drain has ended, the call can be made to return.
\<close>

locale drain_progress =
  fixes step :: "'s \<Rightarrow> 's \<Rightarrow> bool" and reached waits ended returned :: "'s \<Rightarrow> bool" and distance :: "'s \<Rightarrow> nat"
  assumes move: "reached s \<Longrightarrow> step s t \<Longrightarrow> reached t"
    and return: "reached s \<Longrightarrow> waits s \<Longrightarrow> ended s \<Longrightarrow> \<exists>t. step s t \<and> returned t"
    and progress: "reached s \<Longrightarrow> waits s \<Longrightarrow> \<not> ended s \<Longrightarrow> \<exists>t. step s t \<and> waits t \<and> distance t < distance s"
begin

lemma completes: "reached s \<Longrightarrow> waits s \<Longrightarrow> \<exists>t. step\<^sup>*\<^sup>* s t \<and> returned t"
proof (induction "distance s" arbitrary: s rule: less_induct)
  case less
  show ?case
  proof (cases "ended s")
    case True
    with return [OF less.prems] show ?thesis by blast
  next
    case False
    with progress [OF less.prems] obtain t where t: "step s t" "waits t" "distance t < distance s" by blast
    from less.hyps [OF t(3) move [OF less.prems(1) t(1)] t(2)] t(1)
    show ?thesis by (meson converse_rtranclp_into_rtranclp)
  qed
qed

end

end
