(* ===== verification/Enricher.thy ===== *)
theory Enricher
  imports CacheInterface CacheKeys S2S Limiter
begin

text \<open>
  \<^verbatim>\<open>enrichment/resolver.go\<close>: the enricher, handler by handler.

  The functions of this theory are what one goroutine does between two points at which it
  can be interleaved with another: each takes the state of the cache, returns it updated,
  and lists the calls on the host's metrics and logger in order. What the S2S API answers
  to a call, and how long it took, are arguments. \<^verbatim>\<open>EnricherSystem\<close> composes them.
\<close>

section \<open>What the host observes\<close>

datatype NotEnrichedReason =
    ReasonNoIDs
  | ReasonNoIDsCached
  | ReasonUnresolved
  | ReasonInProgress
  | ReasonNoEndpoint
  | ReasonWaitExpired
  | ReasonBackgroundLimit

datatype CacheLookupResult = CacheLookupHit | CacheLookupMiss

datatype enricher_event =
    EnrichRequest string
  | Enriched string
  | NotEnriched string NotEnrichedReason
  | APIRequestDuration string duration
  | APISuccess string
  | APIErrorCount string string int
  | CacheLookup string CacheLookupResult CacheLayer
  | BackgroundCapacity int
  | BackgroundStarted
  | BackgroundFinished
  | EnrichWarn string

section \<open>The enricher\<close>

definition ErrShuttingDown :: go_error where
  "ErrShuttingDown = PlainError ''identity enricher is shutting down''"

definition errS2SRequired :: go_error where
  "errS2SRequired = PlainError ''S2S API is required''"

definition errNegativeBackgroundS2SLimit :: go_error where
  "errNegativeBackgroundS2SLimit = PlainError ''max background S2S calls must not be negative''"

definition errTimeoutNotPositive :: go_error where
  "errTimeoutNotPositive = PlainError ''timeout must be positive''"

definition errNegativeWaitTimeout :: go_error where
  "errNegativeWaitTimeout = PlainError ''wait timeout must not be negative''"

definition errNonSyncCacheRequired :: go_error where
  "errNonSyncCacheRequired = PlainError ''cache must be enabled for async or hybrid enrichment''"

definition errNonSyncCacheKeysRequired :: go_error where
  "errNonSyncCacheKeysRequired = PlainError ''cache keys are required for async or hybrid enrichment''"

definition errNonSyncCapacityRequired :: go_error where
  "errNonSyncCapacityRequired =
     PlainError ''background S2S capacity must be positive for async or hybrid enrichment''"

text \<open>
  The immutable part of an enricher. The Unicode tables, the map order and the JSON form of
  an EID come from libraries.
\<close>

record 'c enricher =
  e_cache :: "'c CacheOps option"
  e_maxCacheKeys :: int
  e_limiterCap :: nat
  e_unicode :: unicode
  e_order :: "string list \<Rightarrow> string list"
  e_codec :: eid_codec

record executionPlan =
  plan_mode :: WaitMode
  plan_wait :: duration

record resolutionJob =
  rj_partnerID :: string
  rj_requestURL :: string
  rj_consent :: string
  rj_timeout :: duration
  rj_cacheKeys :: "CacheKey list"

definition hasCacheKeys :: "resolutionJob \<Rightarrow> bool" where
  "hasCacheKeys job \<longleftrightarrow> length (rj_cacheKeys job) > 0"

definition enricher_New ::
  "bool \<Rightarrow> 'c CacheOps option \<Rightarrow> int \<Rightarrow> int \<Rightarrow> unicode \<Rightarrow> (string list \<Rightarrow> string list) \<Rightarrow> eid_codec \<Rightarrow>
     go_error + ('c enricher \<times> s2sLimiter \<times> enricher_event list)" where
  "enricher_New hasS2S cache maxConcurrentCalls maxCacheKeys u order codec =
     (if \<not> hasS2S then Inl errS2SRequired
      else if maxConcurrentCalls < 0 then Inl errNegativeBackgroundS2SLimit
      else
        (let limiter = newS2SLimiter maxConcurrentCalls in
         Inr (\<lparr>e_cache = cache, e_maxCacheKeys = maxCacheKeys, e_limiterCap = lim_cap limiter,
               e_unicode = u, e_order = order, e_codec = codec\<rparr>,
              limiter, [BackgroundCapacity maxConcurrentCalls])))"

definition newResolutionJob :: "'c enricher \<Rightarrow> Request \<Rightarrow> CacheKey list \<Rightarrow> resolutionJob" where
  "newResolutionJob e input keys =
     (let (requestURL, consent) = buildS2SRequest (e_unicode e) (e_order e) input in
      \<lparr>rj_partnerID = PartnerID input, rj_requestURL = requestURL, rj_consent = consent,
       rj_timeout = Timeout input, rj_cacheKeys = keys\<rparr>)"

definition classifyS2SError :: "go_error \<Rightarrow> string \<times> int" where
  "classifyS2SError err =
     (fst (ErrorLabels err), case asAPIError err of None \<Rightarrow> 0 | Some (_, status) \<Rightarrow> status)"

section \<open>Planning\<close>

definition executionPlanFor :: "'c enricher \<Rightarrow> Request \<Rightarrow> go_error + executionPlan" where
  "executionPlanFor e req =
     (if Timeout req \<le> 0 then Inl errTimeoutNotPositive
      else if (case WaitTimeout req of None \<Rightarrow> False | Some w \<Rightarrow> w < 0) then Inl errNegativeWaitTimeout
      else
        (let (wait, mode) = normalizeWaitTimeout (Timeout req) (WaitTimeout req);
             plan = \<lparr>plan_mode = mode, plan_wait = wait\<rparr>
         in if mode = WaitModeSync then Inr plan
            else if e_cache e = None \<or> \<not> CacheEnabled req then Inl errNonSyncCacheRequired
            else if e_limiterCap e = 0 then Inl errNonSyncCapacityRequired
            else Inr plan))"

definition cacheKeysFor :: "'c enricher \<Rightarrow> Request \<Rightarrow> executionPlan \<Rightarrow> go_error + CacheKey list" where
  "cacheKeysFor e input plan =
     (if e_cache e = None \<or> \<not> CacheEnabled input then Inr []
      else
        (let keys = extractCacheKeys (e_unicode e) (Auction input) (e_maxCacheKeys e) in
         if length keys = 0 \<and> plan_mode plan \<noteq> WaitModeSync then Inl errNonSyncCacheKeysRequired
         else Inr keys))"

section \<open>The cache\<close>

text \<open>What a lookup decides: a final result, or nothing.\<close>

definition lookupCache ::
  "'c enricher \<Rightarrow> ctx \<Rightarrow> string \<Rightarrow> CacheKey list \<Rightarrow> 'c \<Rightarrow> Result option \<times> enricher_event list \<times> 'c" where
  "lookupCache e c partnerID keys s =
     (case e_cache e of None \<Rightarrow> (None, [], s)
      | Some ops \<Rightarrow>
     if length keys = 0 then (None, [], s)
     else
       (let (answer, s) = ops_Get ops c keys s;
            (cached, warn) =
              (case answer of
                 Inr r \<Rightarrow> (r, [])
               | Inl err \<Rightarrow>
                   (\<lparr>CR_State = CacheMiss, CR_Layer = CacheLayerNone, CR_KeyType = CacheKeyFirstParty,
                     CR_Result = emptyResult\<rparr>,
                    [EnrichWarn (''identity enrichment cache read failed: '' @ errorText err)]))
        in case CR_State cached of
             CacheHit \<Rightarrow>
               (Some ((CR_Result cached)\<lparr>Result_Outcome := OutcomeEnriched, Result_CacheLayer := CR_Layer cached\<rparr>),
                warn @ [CacheLookup partnerID CacheLookupHit (CR_Layer cached), Enriched partnerID], s)
           | CacheNegative \<Rightarrow>
               (Some ((CR_Result cached)\<lparr>Result_EIDs := [], Result_Outcome := OutcomeCachedNoIDs,
                  Result_CacheLayer := CR_Layer cached\<rparr>),
                warn @ [CacheLookup partnerID CacheLookupMiss (CR_Layer cached),
                  NotEnriched partnerID ReasonNoIDsCached], s)
           | CacheInProgress \<Rightarrow>
               (Some (emptyResult\<lparr>Result_Outcome := OutcomeInProgress, Result_CacheLayer := CR_Layer cached\<rparr>),
                warn @ [CacheLookup partnerID CacheLookupMiss (CR_Layer cached),
                  NotEnriched partnerID ReasonInProgress], s)
           | _ \<Rightarrow> (None, warn @ [CacheLookup partnerID CacheLookupMiss (CR_Layer cached)], s)))"

definition markInProgress ::
  "'c enricher \<Rightarrow> ctx \<Rightarrow> resolutionJob \<Rightarrow> 'c \<Rightarrow> enricher_event list \<times> 'c" where
  "markInProgress e c job s =
     (case e_cache e of None \<Rightarrow> ([], s)
      | Some ops \<Rightarrow>
          if \<not> hasCacheKeys job then ([], s)
          else
            (let (err, s) = ops_PutInProgress ops c (rj_cacheKeys job) (rj_timeout job) s in
             case err of None \<Rightarrow> ([], s)
             | Some x \<Rightarrow> ([EnrichWarn (''identity enrichment cache in-progress write failed: '' @ errorText x)], s)))"

text \<open>\<open>now\<close> is the instant at which the write's own deadline starts.\<close>

definition storeResult ::
  "'c enricher \<Rightarrow> int \<Rightarrow> ctx \<Rightarrow> resolutionJob \<Rightarrow> Result \<Rightarrow> 'c \<Rightarrow> enricher_event list \<times> 'c" where
  "storeResult e now c job result s =
     (case e_cache e of None \<Rightarrow> ([], s)
      | Some ops \<Rightarrow>
          if \<not> hasCacheKeys job then ([], s)
          else
            (let writeCtx = WithTimeout now c (rj_timeout job) in
             case Result_Outcome result of
               OutcomeEnriched \<Rightarrow>
                 (case ops_PutResolved ops writeCtx (rj_cacheKeys job) result s of
                    (None, s) \<Rightarrow> ([], s)
                  | (Some x, s) \<Rightarrow>
                      ([EnrichWarn (''identity enrichment cache resolved write failed: '' @ errorText x)], s))
             | OutcomeNoIDs \<Rightarrow>
                 (let metadata = \<lparr>Meta_CacheTTL = Result_CacheTTL result,
                        Meta_ABTestUUID = Result_ABTestUUID result,
                        Meta_TerminationCause = Result_TerminationCause result\<rparr>
                  in case ops_PutNegative ops writeCtx (rj_cacheKeys job) metadata s of
                       (None, s) \<Rightarrow> ([], s)
                     | (Some x, s) \<Rightarrow>
                         ([EnrichWarn (''identity enrichment cache negative write failed: '' @ errorText x)], s))
             | _ \<Rightarrow> ([], s)))"

section \<open>Resolution\<close>

definition resolve ::
  "'c enricher \<Rightarrow> resolutionJob \<Rightarrow> go_error + Response \<Rightarrow> duration \<Rightarrow>
     enricher_event list \<times> (go_error + Result)" where
  "resolve e job answer duration =
     (let measured = [APIRequestDuration (rj_partnerID job) duration] in
      case answer of
        Inl err \<Rightarrow>
          (let (kind, status) = classifyS2SError err in
           (measured @ [EnrichWarn (''identity enrichment S2S request failed: kind='' @ kind @ '' status='' @
              Itoa status @ '': '' @ errorText err), APIErrorCount (rj_partnerID job) kind status], Inl err))
      | Inr response \<Rightarrow>
          (let evs = measured @ [APISuccess (rj_partnerID job)] in
           if Resp_EmptyBody response then
             (evs @ [NotEnriched (rj_partnerID job) ReasonUnresolved],
              Inr (emptyResult\<lparr>Result_Outcome := OutcomeUnresolved\<rparr>))
           else
             (let result = emptyResult\<lparr>
                    Result_EIDs := (case Response_EIDs (e_codec e) response of None \<Rightarrow> [] | Some eids \<Rightarrow> eids),
                    Result_CacheTTL := Response_TTL response,
                    Result_ABTestUUID := Resp_ABTestUUID response,
                    Result_TerminationCause := Resp_TC response\<rparr>
              in if length (Result_EIDs result) = 0 then
                   (evs @ [NotEnriched (rj_partnerID job) ReasonNoIDs],
                    Inr (result\<lparr>Result_Outcome := OutcomeNoIDs\<rparr>))
                 else
                   (evs @ [Enriched (rj_partnerID job)],
                    Inr (result\<lparr>Result_Outcome := OutcomeEnriched\<rparr>)))))"

definition waitExpired :: "string \<Rightarrow> enricher_event list \<times> (go_error + Result)" where
  "waitExpired partnerID =
     ([NotEnriched partnerID ReasonWaitExpired],
      Inr (emptyResult\<lparr>Result_Outcome := OutcomeWaitExpired\<rparr>))"

section \<open>\<^verbatim>\<open>Enrich\<close> up to the scheduling\<close>

text \<open>
  What a call of \<^verbatim>\<open>Enrich\<close> comes to after its first look at the closing flag: an early return,
  or a job to be scheduled under a plan.
\<close>

datatype decision = Return "go_error + Result" | Schedule executionPlan resolutionJob

definition enrichOpen ::
  "'c enricher \<Rightarrow> ctx \<Rightarrow> Request \<Rightarrow> 'c \<Rightarrow> decision \<times> enricher_event list \<times> 'c" where
  "enrichOpen e c req s =
     (let evs = [EnrichRequest (PartnerID req)] in
      if \<not> notBlank (Endpoint req) then
        (Return (Inr (emptyResult\<lparr>Result_Outcome := OutcomeNoEndpoint\<rparr>)),
         evs @ [NotEnriched (PartnerID req) ReasonNoEndpoint], s)
      else if Auction req = None then (Return (Inr emptyResult), evs, s)
      else case executionPlanFor e req of
        Inl err \<Rightarrow> (Return (Inl err), evs, s)
      | Inr plan \<Rightarrow>
          (case cacheKeysFor e req plan of
             Inl err \<Rightarrow> (Return (Inl err), evs, s)
           | Inr keys \<Rightarrow>
               (case lookupCache e c (PartnerID req) keys s of
                  (Some result, evs', s) \<Rightarrow> (Return (Inr result), evs @ evs', s)
                | (None, evs', s) \<Rightarrow> (Schedule plan (newResolutionJob e req keys), evs @ evs', s))))"

text \<open>
  \<^verbatim>\<open>runBounded\<close>, the synchronous path after the marker has been written: resolve in the
  caller's goroutine and store what was resolved under the caller's own context.
\<close>

definition runBounded ::
  "'c enricher \<Rightarrow> int \<Rightarrow> ctx \<Rightarrow> resolutionJob \<Rightarrow> go_error + Response \<Rightarrow> duration \<Rightarrow> 'c \<Rightarrow>
     (go_error + Result) \<times> enricher_event list \<times> 'c" where
  "runBounded e now cacheCtx job answer duration s =
     (case resolve e job answer duration of
        (evs, Inl err) \<Rightarrow> (Inl err, evs, s)
      | (evs, Inr result) \<Rightarrow>
          (let (evs', s) = storeResult e now cacheCtx job result s in (Inr result, evs @ evs', s)))"

text \<open>
  \<^verbatim>\<open>run\<close>, in the caller's goroutine: the call that starts at \<open>now\<close> takes \<open>duration\<close>. The S2S API is a
  function of the context, the URL and the consent value.
\<close>

definition enricher_run ::
  "'c enricher \<Rightarrow> (ctx \<Rightarrow> string \<Rightarrow> string \<Rightarrow> go_error + Response) \<Rightarrow> int \<Rightarrow> duration \<Rightarrow> ctx \<Rightarrow> resolutionJob \<Rightarrow> 'c \<Rightarrow>
     (go_error + Result) \<times> enricher_event list \<times> 'c" where
  [simp]: "enricher_run e s2s now duration c job s =
     (let answer = s2s (WithTimeout now c (rj_timeout job)) (rj_requestURL job) (rj_consent job)
      in runBounded e (now + duration) c job answer duration s)"

text \<open>A whole synchronous call on an enricher that is not closing.\<close>

definition enrichSync ::
  "'c enricher \<Rightarrow> (ctx \<Rightarrow> string \<Rightarrow> string \<Rightarrow> go_error + Response) \<Rightarrow> int \<Rightarrow> duration \<Rightarrow> ctx \<Rightarrow> Request \<Rightarrow> 'c \<Rightarrow>
     ((go_error + Result) \<times> enricher_event list \<times> 'c) option" where
  "enrichSync e s2s now duration c req s =
     (case enrichOpen e c req s of
        (Return r, evs, s) \<Rightarrow> Some (r, evs, s)
      | (Schedule plan job, evs, s) \<Rightarrow>
          if plan_mode plan \<noteq> WaitModeSync then None
          else
            (let (evs1, s) = markInProgress e c job s;
                 (r, evs2, s) = enricher_run e s2s now duration c job s
             in Some (r, evs @ evs1 @ evs2, s)))"


section \<open>Outcomes of a resolution\<close>

definition responseEIDs :: "'c enricher \<Rightarrow> Response \<Rightarrow> EID list" where
  "responseEIDs e response = (case Response_EIDs (e_codec e) response of None \<Rightarrow> [] | Some eids \<Rightarrow> eids)"

definition resolutionOutcome :: "'c enricher \<Rightarrow> Response \<Rightarrow> Outcome" where
  "resolutionOutcome e response =
     (if Resp_EmptyBody response then OutcomeUnresolved
      else if responseEIDs e response = [] then OutcomeNoIDs
      else OutcomeEnriched)"

lemma resolve_error: "\<exists>evs. resolve e job (Inl err) d = (evs, Inl err)"
  by (simp add: resolve_def case_prod_beta)

lemma resolve_success:
  "\<exists>evs r. resolve e job (Inr response) d = (evs, Inr r) \<and> Result_Outcome r = resolutionOutcome e response \<and>
    \<not> FromCache r \<and>
    (Resp_EmptyBody response \<longrightarrow> r = emptyResult\<lparr>Result_Outcome := OutcomeUnresolved\<rparr>) \<and>
    (\<not> Resp_EmptyBody response \<longrightarrow> Result_EIDs r = responseEIDs e response \<and>
      Result_CacheTTL r = Response_TTL response \<and> Result_ABTestUUID r = Resp_ABTestUUID response \<and>
      Result_TerminationCause r = Resp_TC response)"
  by (auto simp: resolve_def Let_def resolutionOutcome_def responseEIDs_def emptyResult_def FromCache_def
      split: option.splits)

text \<open>A store that has nothing to keep leaves the cache alone.\<close>

lemma storeResult_idle:
  "Result_Outcome result \<notin> {OutcomeEnriched, OutcomeNoIDs} \<Longrightarrow> storeResult e now c job result s = ([], s)"
  by (auto simp: storeResult_def Let_def split: option.splits Outcome.splits)

text \<open>
  C24. What a resolution stores and returns is decided by the answer alone: a failed call
  returns its error and an empty body returns the unresolved outcome, both without touching
  the cache; a response with ids stores them as resolved, one without ids stores a negative
  entry with the response's lifetime, A/B test id and termination cause, under all the keys
  of the job, and the result carries the response's ids.
\<close>

theorem runBounded_branches:
  assumes "e_cache e = Some ops" and "rj_cacheKeys job \<noteq> []"
    and "runBounded e now c job answer d s = (r, evs, s')"
  shows "case answer of
      Inl err \<Rightarrow> r = Inl err \<and> s' = s
    | Inr response \<Rightarrow>
        (\<exists>result. r = Inr result \<and> Result_Outcome result = resolutionOutcome e response \<and>
          (case resolutionOutcome e response of
             OutcomeEnriched \<Rightarrow> Result_EIDs result = responseEIDs e response \<and>
               s' = snd (ops_PutResolved ops (WithTimeout now c (rj_timeout job)) (rj_cacheKeys job) result s)
           | OutcomeNoIDs \<Rightarrow> Result_EIDs result = [] \<and>
               s' = snd (ops_PutNegative ops (WithTimeout now c (rj_timeout job)) (rj_cacheKeys job)
                 \<lparr>Meta_CacheTTL = Response_TTL response, Meta_ABTestUUID = Resp_ABTestUUID response,
                  Meta_TerminationCause = Resp_TC response\<rparr> s)
           | _ \<Rightarrow> result = emptyResult\<lparr>Result_Outcome := OutcomeUnresolved\<rparr> \<and> s' = s))"
proof (cases answer)
  case (Inl err)
  with assms(3) resolve_error [of e job err d] show ?thesis by (auto simp: runBounded_def)
next
  case (Inr response)
  obtain evs1 result where res: "resolve e job (Inr response) d = (evs1, Inr result)"
      "Result_Outcome result = resolutionOutcome e response"
    and empty: "Resp_EmptyBody response \<longrightarrow> result = emptyResult\<lparr>Result_Outcome := OutcomeUnresolved\<rparr>"
    and full: "\<not> Resp_EmptyBody response \<longrightarrow> Result_EIDs result = responseEIDs e response \<and>
      Result_CacheTTL result = Response_TTL response \<and> Result_ABTestUUID result = Resp_ABTestUUID response \<and>
      Result_TerminationCause result = Resp_TC response"
    using resolve_success [of e job response d] by blast
  obtain evs2 s2 where st: "storeResult e now c job result s = (evs2, s2)" by force
  have r: "r = Inr result" "s' = s2" using assms(3) Inr res st by (auto simp: runBounded_def)
  have keys: "hasCacheKeys job" using assms(2) by (simp add: hasCacheKeys_def)
  show ?thesis
    using Inr r res(2) st empty full keys assms(1)
    by (auto simp: resolutionOutcome_def storeResult_def Let_def split: if_splits prod.splits option.splits)
qed

section \<open>Lookups on a cache that meets the contract\<close>

fun isWarning :: "enricher_event \<Rightarrow> bool" where
  "isWarning (EnrichWarn _) = True" | "isWarning _ = False"

context enrichment_cache
begin

lemma lookup_found:
  assumes "e_cache e = Some ops" "lookupCache e c p keys s = (Some r, evs, s')"
  shows "FromCache r \<and> Result_Outcome r \<in> {OutcomeEnriched, OutcomeCachedNoIDs, OutcomeInProgress} \<and>
    (Result_Outcome r \<noteq> OutcomeEnriched \<longrightarrow> Result_EIDs r = []) \<and> \<not> list_ex isWarning evs"
  using assms
  by (cases rule: get_cases [of c keys s])
     (auto simp: lookupCache_def FromCache_def emptyResult_def split: if_splits)

lemma lookup_missed:
  assumes "e_cache e = Some ops" "lookupCache e c p keys s = (None, evs, s')"
  shows "\<not> list_ex isWarning evs \<and> (keys = [] \<longrightarrow> s' = s)"
  using assms
  by (cases rule: get_cases [of c keys s]) (auto simp: lookupCache_def split: if_splits)

lemma store_silent:
  assumes "e_cache e = Some ops"
  shows "fst (storeResult e now c job result s) = []"
  using assms put_resolved_ok put_negative_ok
  by (auto simp: storeResult_def Let_def split: prod.splits option.splits Outcome.splits)
     (metis fst_conv option.distinct(1))+

end

end
