(* ===== verification/EnricherSystem.thy ===== *)
theory EnricherSystem
  imports Enricher "HOL-Library.Multiset"
begin

text \<open>
  \<^verbatim>\<open>enrichment/resolver.go\<close>, the goroutines: callers of \<^verbatim>\<open>Enrich\<close> and \<^verbatim>\<open>Shutdown\<close>, background
  resolutions and the drainer share the cache, the limiter, the closing flag and the
  completion channels.

  As for the reporter, an atomic action is a step; an operation of the cache is one action.
  The answer of the S2S API, the times and the moment at which a wait expires are whatever
  the environment makes them.
\<close>

section \<open>Goroutines\<close>

datatype ethread =
    ECall ctx Request
  | EOpen ctx Request
  | ESyncMark ctx resolutionJob
  | ESync ctx resolutionJob
  | EAcquire ctx executionPlan resolutionJob
  | ERefused resolutionJob
  | ERecheck ctx executionPlan resolutionJob
  | EDecline resolutionJob
  | EMark ctx executionPlan resolutionJob
  | ELaunch ctx executionPlan resolutionJob
  | EWait nat string
  | EReturned "go_error + Result"
  | BResolve ctx resolutionJob "nat option"
  | BSend ctx resolutionJob nat "go_error + Result"
  | BStore ctx resolutionJob Result
  | BFinish resolutionJob
  | BRelease resolutionJob
  | BExit resolutionJob
  | ZClose ctx
  | ZStart ctx
  | ZWait ctx
  | ZReturned ctx "go_error option"

record 'c system =
  sy_cache :: 'c
  sy_limiter :: s2sLimiter
  sy_closing :: bool
  sy_drain :: drain
  sy_channels :: "nat \<Rightarrow> (go_error + Result) option"
  sy_next :: nat
  sy_threads :: "ethread multiset"
  sy_events :: "enricher_event list"

abbreviation go :: "'c system \<Rightarrow> ethread multiset \<Rightarrow> enricher_event list \<Rightarrow> 'c system" where
  "go s T evs \<equiv> s\<lparr>sy_threads := T, sy_events := sy_events s @ evs\<rparr>"

text \<open>What follows the delivery of a background result: storing it, unless it is an error.\<close>

definition afterResolve :: "ctx \<Rightarrow> resolutionJob \<Rightarrow> go_error + Result \<Rightarrow> ethread" where
  "afterResolve cacheCtx job r =
     (case r of Inl _ \<Rightarrow> BFinish job | Inr result \<Rightarrow> BStore cacheCtx job result)"

definition afterOpen :: "ctx \<Rightarrow> decision \<Rightarrow> ethread" where
  "afterOpen c d =
     (case d of Return r \<Rightarrow> EReturned r
      | Schedule plan job \<Rightarrow>
          if plan_mode plan = WaitModeSync then ESyncMark c job else EAcquire c plan job)"

inductive estep :: "'c enricher \<Rightarrow> 'c system \<Rightarrow> 'c system \<Rightarrow> bool" for e where
  e_call: "estep e s (go s (add_mset (ECall c req) (sy_threads s)) [])"
| e_closed: "sy_threads s = add_mset (ECall c req) T \<Longrightarrow> sy_closing s \<Longrightarrow>
    estep e s (go s (add_mset (EReturned (Inl ErrShuttingDown)) T) [])"
| e_open: "sy_threads s = add_mset (ECall c req) T \<Longrightarrow> \<not> sy_closing s \<Longrightarrow>
    estep e s (go s (add_mset (EOpen c req) T) [])"
| e_decide: "sy_threads s = add_mset (EOpen c req) T \<Longrightarrow> enrichOpen e c req (sy_cache s) = (d, evs, s') \<Longrightarrow>
    estep e s ((go s (add_mset (afterOpen c d) T) evs)\<lparr>sy_cache := s'\<rparr>)"
| e_syncMark: "sy_threads s = add_mset (ESyncMark c job) T \<Longrightarrow>
    markInProgress e c job (sy_cache s) = (evs, s') \<Longrightarrow>
    estep e s ((go s (add_mset (ESync c job) T) evs)\<lparr>sy_cache := s'\<rparr>)"
| e_sync: "sy_threads s = add_mset (ESync c job) T \<Longrightarrow>
    runBounded e now c job answer duration (sy_cache s) = (r, evs, s') \<Longrightarrow>
    estep e s ((go s (add_mset (EReturned r) T) evs)\<lparr>sy_cache := s'\<rparr>)"
| e_acquire: "sy_threads s = add_mset (EAcquire c plan job) T \<Longrightarrow>
    TryAcquire (sy_limiter s) = (True, limiter) \<Longrightarrow>
    estep e s ((go s (add_mset (ERecheck c plan job) T) [])\<lparr>sy_limiter := limiter\<rparr>)"
| e_full: "sy_threads s = add_mset (EAcquire c plan job) T \<Longrightarrow>
    TryAcquire (sy_limiter s) = (False, limiter) \<Longrightarrow>
    estep e s ((go s (add_mset (ERefused job) T) [])\<lparr>sy_limiter := limiter\<rparr>)"
| e_refused_closing: "sy_threads s = add_mset (ERefused job) T \<Longrightarrow> sy_closing s \<Longrightarrow>
    estep e s (go s (add_mset (EReturned (Inl ErrShuttingDown)) T) [])"
| e_refused_full: "sy_threads s = add_mset (ERefused job) T \<Longrightarrow> \<not> sy_closing s \<Longrightarrow>
    estep e s (go s (add_mset (EReturned (Inr (emptyResult\<lparr>Result_Outcome := OutcomeBackgroundLimit\<rparr>))) T)
      [NotEnriched (rj_partnerID job) ReasonBackgroundLimit])"
| e_admit: "sy_threads s = add_mset (ERecheck c plan job) T \<Longrightarrow> \<not> sy_closing s \<Longrightarrow>
    estep e s (go s (add_mset (EMark c plan job) T) [BackgroundStarted])"
| e_decline: "sy_threads s = add_mset (ERecheck c plan job) T \<Longrightarrow> sy_closing s \<Longrightarrow>
    estep e s (go s (add_mset (EDecline job) T) [])"
| e_giveBack: "sy_threads s = add_mset (EDecline job) T \<Longrightarrow> Release (sy_limiter s) = Some limiter \<Longrightarrow>
    estep e s ((go s (add_mset (EReturned (Inl ErrShuttingDown)) T) [])\<lparr>sy_limiter := limiter\<rparr>)"
| e_mark: "sy_threads s = add_mset (EMark c plan job) T \<Longrightarrow>
    markInProgress e c job (sy_cache s) = (evs, s') \<Longrightarrow>
    estep e s ((go s (add_mset (ELaunch c plan job) T) evs)\<lparr>sy_cache := s'\<rparr>)"
| e_launch_async: "sy_threads s = add_mset (ELaunch c plan job) T \<Longrightarrow> plan_mode plan = WaitModeAsync \<Longrightarrow>
    waitExpired (rj_partnerID job) = (evs, r) \<Longrightarrow>
    estep e s (go s (add_mset (EReturned r) (add_mset (BResolve (WithoutCancel c) job None) T)) evs)"
| e_launch_hybrid: "sy_threads s = add_mset (ELaunch c plan job) T \<Longrightarrow> plan_mode plan \<noteq> WaitModeAsync \<Longrightarrow>
    estep e s ((go s (add_mset (EWait (sy_next s) (rj_partnerID job))
      (add_mset (BResolve (WithoutCancel c) job (Some (sy_next s))) T)) [])
      \<lparr>sy_next := Suc (sy_next s), sy_channels := (sy_channels s)(sy_next s := None)\<rparr>)"
| e_receive: "sy_threads s = add_mset (EWait i p) T \<Longrightarrow> sy_channels s i = Some r \<Longrightarrow>
    estep e s ((go s (add_mset (EReturned r) T) [])\<lparr>sy_channels := (sy_channels s)(i := None)\<rparr>)"
| e_expire: "sy_threads s = add_mset (EWait i p) T \<Longrightarrow> sy_channels s i = None \<Longrightarrow>
    waitExpired p = (evs, r) \<Longrightarrow>
    estep e s (go s (add_mset (EReturned r) T) evs)"
| b_resolve: "sy_threads s = add_mset (BResolve cc job None) T \<Longrightarrow>
    resolve e job answer duration = (evs, r) \<Longrightarrow>
    estep e s (go s (add_mset (afterResolve cc job r) T) evs)"
| b_resolve_hybrid: "sy_threads s = add_mset (BResolve cc job (Some i)) T \<Longrightarrow>
    resolve e job answer duration = (evs, r) \<Longrightarrow>
    estep e s (go s (add_mset (BSend cc job i r) T) evs)"
| b_send: "sy_threads s = add_mset (BSend cc job i r) T \<Longrightarrow> sy_channels s i = None \<Longrightarrow>
    estep e s ((go s (add_mset (afterResolve cc job r) T) [])\<lparr>sy_channels := (sy_channels s)(i \<mapsto> r)\<rparr>)"
| b_store: "sy_threads s = add_mset (BStore cc job result) T \<Longrightarrow>
    storeResult e now cc job result (sy_cache s) = (evs, s') \<Longrightarrow>
    estep e s ((go s (add_mset (BFinish job) T) evs)\<lparr>sy_cache := s'\<rparr>)"
| b_finish: "sy_threads s = add_mset (BFinish job) T \<Longrightarrow>
    estep e s (go s (add_mset (BRelease job) T) [BackgroundFinished])"
| b_release: "sy_threads s = add_mset (BRelease job) T \<Longrightarrow> Release (sy_limiter s) = Some limiter \<Longrightarrow>
    estep e s ((go s (add_mset (BExit job) T) [])\<lparr>sy_limiter := limiter\<rparr>)"
| z_call: "estep e s (go s (add_mset (ZClose c) (sy_threads s)) [])"
| z_close: "sy_threads s = add_mset (ZClose c) T \<Longrightarrow>
    estep e s ((go s (add_mset (ZStart c) T) [])\<lparr>sy_closing := True\<rparr>)"
| z_start: "sy_threads s = add_mset (ZStart c) T \<Longrightarrow>
    estep e s ((go s (add_mset (ZWait c) T) [])
      \<lparr>sy_drain := (case sy_drain s of NotDraining \<Rightarrow> Draining 0 | d \<Rightarrow> d)\<rparr>)"
| z_take: "sy_drain s = Draining k \<Longrightarrow> k < lim_cap (sy_limiter s) \<Longrightarrow>
    DrainSend (sy_limiter s) = Some limiter \<Longrightarrow>
    estep e s (s\<lparr>sy_limiter := limiter, sy_drain := Draining (Suc k)\<rparr>)"
| z_end: "sy_drain s = Draining k \<Longrightarrow> k = lim_cap (sy_limiter s) \<Longrightarrow>
    estep e s (s\<lparr>sy_drain := Drained\<rparr>)"
| z_drained: "sy_threads s = add_mset (ZWait c) T \<Longrightarrow> sy_drain s = Drained \<Longrightarrow>
    estep e s (go s (add_mset (ZReturned c None) T) [])"
| z_expired: "sy_threads s = add_mset (ZWait c) T \<Longrightarrow> ctxErr now c = Some x \<Longrightarrow>
    estep e s (go s (add_mset (ZReturned c (Some x)) T) [])"

definition einit :: "'c enricher \<Rightarrow> 'c system \<Rightarrow> bool" where
  "einit e s \<longleftrightarrow>
     (\<exists>maximum. enricher_New True (e_cache e) maximum (e_maxCacheKeys e) (e_unicode e) (e_order e) (e_codec e) =
        Inr (e, sy_limiter s, sy_events s)) \<and>
     \<not> sy_closing s \<and> sy_drain s = NotDraining \<and> sy_channels s = (\<lambda>_. None) \<and> sy_next s = 0 \<and>
     sy_threads s = {#}"

section \<open>Views\<close>

definition many :: "(ethread \<Rightarrow> bool) \<Rightarrow> 'c system \<Rightarrow> nat" where
  "many P s = size (filter_mset P (sy_threads s))"

fun rechecks :: "ethread \<Rightarrow> bool" where
  "rechecks (ERecheck _ _ _) = True" | "rechecks _ = False"

fun declines :: "ethread \<Rightarrow> bool" where
  "declines (EDecline _) = True" | "declines _ = False"

fun background :: "ethread \<Rightarrow> bool" where
  "background (EMark _ _ _) = True" | "background (ELaunch _ _ _) = True"
| "background (BResolve _ _ _) = True" | "background (BSend _ _ _ _) = True"
| "background (BStore _ _ _) = True" | "background (BFinish _) = True"
| "background (BRelease _) = True" | "background _ = False"

fun ongoing :: "ethread \<Rightarrow> bool" where
  "ongoing (BRelease _) = False" | "ongoing t = background t"

definition eview :: "'c system \<Rightarrow> admission" where
  "eview s =
     \<lparr>adm_cap = lim_cap (sy_limiter s), adm_len = lim_len (sy_limiter s), adm_closing = sy_closing s,
      adm_drain = sy_drain s, adm_holding = many rechecks s, adm_leaving = many declines s,
      adm_working = many background s\<rparr>"

text \<open>The channels that some background resolution is still to send on.\<close>

fun sendsTo :: "ethread \<Rightarrow> nat option" where
  "sendsTo (BResolve _ _ i) = i" | "sendsTo (BSend _ _ i _) = Some i" | "sendsTo _ = None"

fun cacheCtx :: "ethread \<Rightarrow> ctx option" where
  "cacheCtx (BResolve c _ _) = Some c" | "cacheCtx (BSend c _ _ _) = Some c"
| "cacheCtx (BStore c _ _) = Some c" | "cacheCtx _ = None"

abbreviation seen :: "(enricher_event \<Rightarrow> bool) \<Rightarrow> 'c system \<Rightarrow> nat" where
  "seen P s \<equiv> length (filter P (sy_events s))"

definition einv :: "'c enricher \<Rightarrow> 'c system \<Rightarrow> bool" where
  "einv e s \<longleftrightarrow>
     lim_cap (sy_limiter s) = e_limiterCap e \<and>
     (\<forall>c. ZStart c \<in># sy_threads s \<longrightarrow> sy_closing s) \<and>
     (\<forall>c. ZWait c \<in># sy_threads s \<longrightarrow> sy_closing s \<and> sy_drain s \<noteq> NotDraining) \<and>
     (\<forall>c. ZReturned c None \<in># sy_threads s \<longrightarrow> sy_drain s = Drained) \<and>
     seen (\<lambda>x. x = BackgroundStarted) s = seen (\<lambda>x. x = BackgroundFinished) s + many ongoing s"

definition chan_inv :: "'c system \<Rightarrow> bool" where
  "chan_inv s \<longleftrightarrow>
     (\<forall>i. many (\<lambda>t. sendsTo t = Some i) s \<le> (if i < sy_next s \<and> sy_channels s i = None then 1 else 0))"

section \<open>Invariants\<close>

definition isBackground :: "enricher_event \<Rightarrow> bool" where
  "isBackground x \<longleftrightarrow> x = BackgroundStarted \<or> x = BackgroundFinished"

definition silent :: "enricher_event list \<Rightarrow> bool" where
  "silent evs \<longleftrightarrow> \<not> list_ex isBackground evs"

lemma silent_simps [simp]:
  "silent []" "silent (a @ b) \<longleftrightarrow> silent a \<and> silent b" "silent (x # a) \<longleftrightarrow> \<not> isBackground x \<and> silent a"
  by (auto simp: silent_def)

lemma silent_filter [simp]:
  "silent evs \<Longrightarrow> filter (\<lambda>x. x = BackgroundStarted) evs = []"
  "silent evs \<Longrightarrow> filter (\<lambda>x. x = BackgroundFinished) evs = []"
  by (induction evs) (auto simp: isBackground_def)

lemma lookupCache_silent: "lookupCache e c p keys s = (r, evs, s') \<Longrightarrow> silent evs"
  by (auto simp: lookupCache_def isBackground_def Let_def split: option.splits if_splits prod.splits
      sum.splits CacheState.splits)

lemma enrichOpen_silent: "enrichOpen e c req s = (d, evs, s') \<Longrightarrow> silent evs"
  by (auto simp: enrichOpen_def Let_def isBackground_def split: if_splits sum.splits prod.splits option.splits
      dest: lookupCache_silent)

lemma markInProgress_silent: "markInProgress e c job s = (evs, s') \<Longrightarrow> silent evs"
  by (auto simp: markInProgress_def isBackground_def split: option.splits if_splits prod.splits)

lemma storeResult_silent: "storeResult e now c job result s = (evs, s') \<Longrightarrow> silent evs"
  by (auto simp: storeResult_def isBackground_def Let_def split: option.splits if_splits prod.splits Outcome.splits)

lemma resolve_silent: "resolve e job answer d = (evs, r) \<Longrightarrow> silent evs"
  by (auto simp: resolve_def isBackground_def Let_def split: sum.splits if_splits prod.splits)

lemma runBounded_silent: "runBounded e now c job answer d s = (r, evs, s') \<Longrightarrow> silent evs"
  by (auto simp: runBounded_def split: prod.splits sum.splits dest!: resolve_silent storeResult_silent)

lemma waitExpired_silent: "waitExpired p = (evs, r) \<Longrightarrow> silent evs"
  by (auto simp: waitExpired_def isBackground_def)

lemmas silents = enrichOpen_silent markInProgress_silent storeResult_silent resolve_silent
  runBounded_silent waitExpired_silent

text \<open>Where the two continuations lead, for all the predicates at once.\<close>

lemma afterOpen_simps [simp]:
  "\<not> background (afterOpen c d)" "\<not> ongoing (afterOpen c d)" "\<not> rechecks (afterOpen c d)"
  "\<not> declines (afterOpen c d)" "sendsTo (afterOpen c d) = None" "cacheCtx (afterOpen c d) = None"
  "afterOpen c d \<noteq> ZStart x" "afterOpen c d \<noteq> ZWait x" "afterOpen c d \<noteq> ZReturned x y"
  "ZStart x \<noteq> afterOpen c d" "ZWait x \<noteq> afterOpen c d" "ZReturned x y \<noteq> afterOpen c d"
  by (auto simp: afterOpen_def split: decision.splits)

lemma afterResolve_simps [simp]:
  "background (afterResolve c j r)" "ongoing (afterResolve c j r)" "\<not> rechecks (afterResolve c j r)"
  "\<not> declines (afterResolve c j r)" "sendsTo (afterResolve c j r) = None"
  "cacheCtx (afterResolve c j r) = Some x \<Longrightarrow> x = c"
  "afterResolve c j r \<noteq> ZStart x" "afterResolve c j r \<noteq> ZWait x" "afterResolve c j r \<noteq> ZReturned x y"
  "ZStart x \<noteq> afterResolve c j r" "ZWait x \<noteq> afterResolve c j r" "ZReturned x y \<noteq> afterResolve c j r"
  by (auto simp: afterResolve_def split: sum.splits)

lemma einitD:
  assumes "einit e s"
  shows "lim_cap (sy_limiter s) = e_limiterCap e" "lim_len (sy_limiter s) = 0" "\<not> sy_closing s"
    "sy_drain s = NotDraining" "sy_threads s = {#}" "\<exists>m. sy_events s = [BackgroundCapacity m]"
proof -
  from assms obtain maximum where m: "enricher_New True (e_cache e) maximum (e_maxCacheKeys e) (e_unicode e)
      (e_order e) (e_codec e) = Inr (e, sy_limiter s, sy_events s)"
    by (auto simp: einit_def)
  then have l: "sy_limiter s = newS2SLimiter maximum" "sy_events s = [BackgroundCapacity maximum]"
    and e: "\<lparr>e_cache = e_cache e, e_maxCacheKeys = e_maxCacheKeys e,
      e_limiterCap = lim_cap (newS2SLimiter maximum), e_unicode = e_unicode e, e_order = e_order e,
      e_codec = e_codec e\<rparr> = e"
    by (auto simp: enricher_New_def Let_def split: if_splits)
  from arg_cong [OF e, of e_limiterCap] l show "lim_cap (sy_limiter s) = e_limiterCap e" by simp
  from l show "lim_len (sy_limiter s) = 0" "\<exists>m. sy_events s = [BackgroundCapacity m]"
    by (auto simp: newS2SLimiter_def)
qed (use assms in \<open>simp_all add: einit_def\<close>)

lemma einv_init: "einit e s \<Longrightarrow> einv e s"
  by (frule einitD(6)) (auto simp: einv_def many_def einitD(1-5))

lemma limiter_caps:
  "TryAcquire l = (b, l') \<Longrightarrow> lim_cap l' = lim_cap l" "Release l = Some l' \<Longrightarrow> lim_cap l' = lim_cap l"
  "DrainSend l = Some l' \<Longrightarrow> lim_cap l' = lim_cap l"
  using s2s.attempt_cap [of l] s2s.release_len [of l l'] s2s.send_len [of l l'] by auto

lemma einv_step: "einv e s \<Longrightarrow> estep e s t \<Longrightarrow> einv e t"
  by (erule estep.cases)
     (auto simp: einv_def many_def limiter_caps silents split: drain.splits)

lemma eview_init: "einit e s \<Longrightarrow> \<exists>c. eview s = adm_init c"
  by (auto simp: eview_def many_def adm_init_def einitD)

lemma eview_step:
  assumes "einv e s" "estep e s t"
  shows "eview t = eview s \<or> adm_step (eview s) (eview t)"
  using assms(2,1)
  by cases
    (auto simp: eview_def many_def adm_step_records einv_def TryAcquire_def Release_def DrainSend_def
      split: if_splits drain.splits)

interpretation enr: admission_system "estep e" "einit e" "einv e" eview for e
  by unfold_locales (rule einv_init, assumption, rule eview_init, assumption, rule einv_step, assumption+,
      rule eview_step, assumption+)

abbreviation enricher_reachable :: "'c enricher \<Rightarrow> 'c system \<Rightarrow> bool" where
  "enricher_reachable e \<equiv> admission_system.reachable (estep e) (einit e)"

subsection \<open>Completion channels and contexts\<close>

lemma filter_none: "\<forall>x. x \<in># T \<longrightarrow> \<not> P x \<Longrightarrow> size (filter_mset P T) = 0"
  by (simp add: filter_mset_eq_mempty_iff)

lemma chan_inv_step:
  assumes "chan_inv s" "estep e s t"
  shows "chan_inv t"
  unfolding chan_inv_def
proof
  fix i
  have b: "many (\<lambda>t. sendsTo t = Some i) s \<le> (if i < sy_next s \<and> sy_channels s i = None then 1 else 0)"
    using assms(1) by (simp add: chan_inv_def)
  from assms(2) show "many (\<lambda>t. sendsTo t = Some i) t \<le> (if i < sy_next t \<and> sy_channels t i = None then 1 else 0)"
    by cases (use b in \<open>auto simp: many_def filter_none split: if_splits\<close>)
qed


lemma reachable_channels: "enricher_reachable e s \<Longrightarrow> chan_inv s"
proof (induction rule: enr.reachable.induct)
  case (start s)
  then show ?case by (simp add: chan_inv_def many_def einitD(5))
qed (rule chan_inv_step)

definition ctx_inv :: "'c system \<Rightarrow> bool" where
  "ctx_inv s \<longleftrightarrow> (\<forall>t c. t \<in># sy_threads s \<longrightarrow> cacheCtx t = Some c \<longrightarrow> c = Background)"

lemma ctx_inv_step: "ctx_inv s \<Longrightarrow> estep e s t \<Longrightarrow> ctx_inv t"
  by (erule estep.cases) (auto simp: ctx_inv_def WithoutCancel_def dest!: afterResolve_simps(6))

lemma reachable_contexts: "enricher_reachable e s \<Longrightarrow> ctx_inv s"
proof (induction rule: enr.reachable.induct)
  case (start s)
  then show ?case by (simp add: ctx_inv_def einitD(5))
qed (rule ctx_inv_step)

section \<open>Properties of every interleaving\<close>

lemma many_pos: "t \<in># sy_threads s \<Longrightarrow> P t \<Longrightarrow> 0 < many P s"
  by (auto simp: many_def dest!: multi_member_split)

lemma release_ready:
  assumes "enricher_reachable e s" "t \<in># sy_threads s" "declines t \<or> background t"
  shows "Release (sy_limiter s) \<noteq> None"
proof -
  have "0 < holders (eview s)"
    using many_pos [of t s declines] many_pos [of t s background] assms
    by (auto simp: holders_def eview_def)
  from enr.holder_has_permit [OF assms(1) this] show ?thesis by (simp add: eview_def Release_def)
qed

lemma send_ready:
  assumes "enricher_reachable e s" "BSend cc job i r \<in># sy_threads s"
  shows "sy_channels s i = None"
proof -
  have "0 < many (\<lambda>t. sendsTo t = Some i) s" by (rule many_pos [OF assms(2)]) simp
  moreover have "many (\<lambda>t. sendsTo t = Some i) s \<le> (if i < sy_next s \<and> sy_channels s i = None then 1 else 0)"
    using reachable_channels [OF assms(1)] by (simp add: chan_inv_def)
  ultimately show ?thesis by (auto split: if_splits)
qed

text \<open>
  C7. Background resolutions are bounded by the limiter's capacity in every interleaving,
  and no background goroutine can get stuck: giving a permit back and delivering a result on
  a completion channel never block, whether or not the caller still waits.
\<close>

theorem enricher_background_bounded:
  assumes "enricher_reachable e s"
  shows "many background s \<le> e_limiterCap e \<and>
    (\<forall>t. t \<in># sy_threads s \<and> (declines t \<or> background t) \<longrightarrow> Release (sy_limiter s) \<noteq> None) \<and>
    (\<forall>cc job i r. BSend cc job i r \<in># sy_threads s \<longrightarrow> sy_channels s i = None)"
proof -
  have "lim_cap (sy_limiter s) = e_limiterCap e"
    using enr.reachable_inv [OF assms] by (simp add: einv_def)
  then have "many background s \<le> e_limiterCap e"
    using enr.working_bounded [OF assms] by (simp add: eview_def)
  with release_ready [OF assms] send_ready [OF assms] show ?thesis by blast
qed

text \<open>
  C8. Once shutdown has raised the flag no background resolution is added, and a call that
  starts after it is refused: it returns the shutting-down error and touches nothing.
\<close>

theorem enricher_closed_starts_nothing:
  assumes "enricher_reachable e s" and "sy_closing s" and "(estep e)\<^sup>*\<^sup>* s t"
  shows "sy_closing t \<and> many background t \<le> many background s \<and>
    (\<forall>c req T u. sy_threads t = add_mset (ECall c req) T \<and> estep e t u \<and> ECall c req \<notin># sy_threads u \<longrightarrow>
       sy_threads u = add_mset (EReturned (Inl ErrShuttingDown)) T \<and> sy_cache u = sy_cache t \<and>
       sy_events u = sy_events t)"
proof -
  have c: "sy_closing t \<and> many background t \<le> many background s"
    using enr.no_work_after_close [OF assms(3,1)] assms(2) by (simp add: eview_def)
  have "sy_threads u = add_mset (EReturned (Inl ErrShuttingDown)) T \<and> sy_cache u = sy_cache t \<and>
      sy_events u = sy_events t"
    if "sy_threads t = add_mset (ECall x req) T" "estep e t u" "ECall x req \<notin># sy_threads u" for x req T u
    using that(2)
  proof cases
    case (e_closed y req' T')
    with that have "x = y" "req = req'" by (auto simp: add_eq_conv_ex)
    with e_closed that show ?thesis by simp
  qed (use that c in \<open>auto simp: add_eq_conv_ex\<close>)
  with c show ?thesis by blast
qed

text \<open>
  C6. When a call of shutdown has returned nil, every background resolution that was ever
  admitted has run to its end, cache write included: none runs and no caller holds a permit,
  now or later, and the started and finished counts are equal.
\<close>

theorem enricher_shutdown_drains:
  assumes "enricher_reachable e s" and "ZReturned c None \<in># sy_threads s" and "(estep e)\<^sup>*\<^sup>* s t"
  shows "many background t = 0 \<and> many rechecks t = 0 \<and> many declines t = 0 \<and>
    seen (\<lambda>x. x = BackgroundStarted) t = seen (\<lambda>x. x = BackgroundFinished) t"
proof -
  have "adm_drain (eview s) = Drained"
    using enr.reachable_inv [OF assms(1)] assms(2) by (auto simp: einv_def eview_def)
  from enr.drained_idle [OF assms(1) this assms(3)]
  have idle: "many background t = 0" "many rechecks t = 0" "many declines t = 0"
    by (auto simp: holders_def eview_def)
  have "size (filter_mset ongoing M) \<le> size (filter_mset background M)" for M
    by (induction M) (auto elim!: ongoing.elims)
  then have "many ongoing t \<le> many background t" by (simp add: many_def)
  with idle enr.reachable_inv [OF enr.reachable_steps [OF assms(3,1)]] show ?thesis
    by (simp add: einv_def)
qed

text \<open>
  C26. A background cache write does not depend on the caller: in every reachable state the
  context that a background goroutine keeps for the cache is free of the caller's
  cancellation and deadline, so a write that it makes gets a fresh budget, the job's timeout
  from the moment of the write.
\<close>

theorem background_store_context:
  assumes "enricher_reachable e s" and "BStore cc job result \<in># sy_threads s"
  shows "WithTimeout now cc (rj_timeout job) =
    \<lparr>ctx_cancelled = False, ctx_deadline = Some (now + rj_timeout job)\<rparr>"
proof -
  have "cc = Background"
    using reachable_contexts [OF assms(1)] assms(2) by (auto simp: ctx_inv_def dest: spec [of _ "BStore cc job result"])
  then show ?thesis by (simp add: WithTimeout_def Background_def)
qed


section \<open>Shutdown can always complete\<close>

fun eweight :: "ethread \<Rightarrow> nat" where
  "eweight (ERecheck _ _ _) = 2" | "eweight (EDecline _) = 1"
| "eweight (EMark _ _ _) = 7" | "eweight (ELaunch _ _ _) = 6" | "eweight (BResolve _ _ _) = 5"
| "eweight (BSend _ _ _ _) = 4" | "eweight (BStore _ _ _) = 3" | "eweight (BFinish _) = 2"
| "eweight (BRelease _) = 1" | "eweight _ = 0"

primrec permitsLeft :: "nat \<Rightarrow> drain \<Rightarrow> nat" where
  "permitsLeft c NotDraining = 0"
| "permitsLeft c (Draining k) = Suc (c - k)"
| "permitsLeft c Drained = 0"

definition emeasure :: "'c system \<Rightarrow> nat" where
  "emeasure s = (\<Sum>t\<in>#sy_threads s. eweight t) + permitsLeft (lim_cap (sy_limiter s)) (sy_drain s)"

lemma afterResolve_weight: "eweight (afterResolve cc job r) \<le> 3"
  by (simp add: afterResolve_def split: sum.splits)

definition closer :: "'c enricher \<Rightarrow> ctx \<Rightarrow> 'c system \<Rightarrow> 'c system \<Rightarrow> bool" where
  "closer e c s t \<longleftrightarrow> estep e s t \<and> ZWait c \<in># sy_threads t \<and> emeasure t < emeasure s"

lemma closerI:
  "estep e s t \<Longrightarrow> ZWait c \<in># sy_threads t \<Longrightarrow> emeasure t < emeasure s \<Longrightarrow> \<exists>t. closer e c s t"
  by (auto simp: closer_def)

text \<open>A goroutine that holds a permit, or may still get one, can always move on.\<close>

lemma launch_progress:
  assumes t: "sy_threads s = add_mset t T" "t = EMark x plan job \<or> t = ELaunch x plan job" and w: "ZWait c \<in># T"
  shows "\<exists>u. closer e c s u"
proof -
  note m = emeasure_def limiter_caps
  consider (mark) "t = EMark x plan job" | (launch) "t = ELaunch x plan job" using t(2) by blast
  then show ?thesis
  proof cases
    case mark
    obtain evs s' where k: "markInProgress e x job (sy_cache s) = (evs, s')" by force
    show ?thesis
      by (rule closerI [OF e_mark [OF t(1) [unfolded mark] k]]) (use t mark w in \<open>auto simp: m\<close>)
  next
    case launch
    obtain evs r where k: "waitExpired (rj_partnerID job) = (evs, r)" by force
    show ?thesis
    proof (cases "plan_mode plan = WaitModeAsync")
      case True
      show ?thesis
        by (rule closerI [OF e_launch_async [OF t(1) [unfolded launch] True k]]) (use t launch w in \<open>auto simp: m\<close>)
    next
      case False
      show ?thesis
        by (rule closerI [OF e_launch_hybrid [OF t(1) [unfolded launch] False]]) (use t launch w in \<open>auto simp: m\<close>)
    qed
  qed
qed

lemma resolve_progress:
  assumes t: "sy_threads s = add_mset (BResolve cc job i) T" and w: "ZWait c \<in># T"
  shows "\<exists>u. closer e c s u"
proof -
  note m = emeasure_def limiter_caps
  obtain evs r where k: "resolve e job (Inl Canceled) 0 = (evs, r)" by force
  show ?thesis
  proof (cases i)
    case None
    show ?thesis
      by (rule closerI [OF b_resolve [OF t [unfolded None] k]])
         (use t w afterResolve_weight [of cc job r] in \<open>auto simp: m\<close>)
  next
    case (Some n)
    show ?thesis
      by (rule closerI [OF b_resolve_hybrid [OF t [unfolded Some] k]]) (use t w in \<open>auto simp: m\<close>)
  qed
qed

lemma holder_progress:
  assumes reach: "enricher_reachable e s" and closing: "sy_closing s"
    and t: "sy_threads s = add_mset t T" "eweight t > 0" and w: "ZWait c \<in># T"
  shows "\<exists>u. closer e c s u"
proof -
  have rel: "\<exists>l. Release (sy_limiter s) = Some l" if "declines t \<or> background t"
    using release_ready [OF reach, of t] t(1) that by auto
  note m = emeasure_def limiter_caps
  show ?thesis
  proof (cases t)
    case (ERecheck c plan job)
    show ?thesis
      by (rule closerI [OF e_decline [OF t(1) [unfolded ERecheck] closing]]) (use t ERecheck w in \<open>auto simp: m\<close>)
  next
    case (EDecline job)
    with rel obtain l where l: "Release (sy_limiter s) = Some l" by auto
    show ?thesis
      by (rule closerI [OF e_giveBack [OF t(1) [unfolded EDecline] l]]) (use t EDecline w l in \<open>auto simp: m\<close>)
  next
    case (BSend cc job i r)
    with send_ready [OF reach, of cc job i r] t(1) have k: "sy_channels s i = None" by simp
    show ?thesis
      by (rule closerI [OF b_send [OF t(1) [unfolded BSend] k]])
         (use t BSend w afterResolve_weight [of cc job r] in \<open>auto simp: m\<close>)
  next
    case (BStore cc job result)
    obtain evs s' where k: "storeResult e 0 cc job result (sy_cache s) = (evs, s')" by force
    show ?thesis
      by (rule closerI [OF b_store [OF t(1) [unfolded BStore] k]]) (use t BStore w in \<open>auto simp: m\<close>)
  next
    case (BFinish job)
    show ?thesis
      by (rule closerI [OF b_finish [OF t(1) [unfolded BFinish]]]) (use t BFinish w in \<open>auto simp: m\<close>)
  next
    case (BRelease job)
    with rel obtain l where l: "Release (sy_limiter s) = Some l" by auto
    show ?thesis
      by (rule closerI [OF b_release [OF t(1) [unfolded BRelease] l]]) (use t BRelease w l in \<open>auto simp: m\<close>)
  qed (use t w launch_progress [OF t(1) _ w] resolve_progress [OF _ w] in auto)
qed

lemma drainerI:
  "estep e s t \<Longrightarrow> sy_threads t = sy_threads s \<Longrightarrow> emeasure t < emeasure s \<Longrightarrow>
    \<exists>t. estep e s t \<and> sy_threads t = sy_threads s \<and> emeasure t < emeasure s"
  by blast

lemma edrainer_step:
  assumes inv: "adm_inv (eview s)" and idle: "\<not> (\<exists>t. t \<in># sy_threads s \<and> eweight t > 0)"
    and k: "sy_drain s = Draining k"
  shows "\<exists>t. estep e s t \<and> sy_threads t = sy_threads s \<and> emeasure t < emeasure s"
proof -
  from idle have z: "many P s = 0" if "\<And>t. P t \<Longrightarrow> eweight t > 0" for P
    using that by (fastforce simp: many_def filter_mset_eq_mempty_iff)
  have "many rechecks s = 0" by (rule z) (auto elim!: rechecks.elims)
  moreover have "many declines s = 0" by (rule z) (auto elim!: declines.elims)
  moreover have "many background s = 0" by (rule z) (auto elim!: background.elims)
  ultimately have h: "holders (eview s) = 0" by (simp add: holders_def eview_def)
  show ?thesis
  proof (cases "k < lim_cap (sy_limiter s)")
    case True
    with h inv k have "lim_len (sy_limiter s) < lim_cap (sy_limiter s)" by (simp add: adm_inv_def eview_def)
    then obtain l where l: "DrainSend (sy_limiter s) = Some l"
      using s2s.send_blocks [of "sy_limiter s"] by auto
    show ?thesis by (rule drainerI [OF z_take [OF k True l]]) (use k True l in \<open>auto simp: emeasure_def limiter_caps\<close>)
  next
    case False
    with inv k have c: "k = lim_cap (sy_limiter s)" by (simp add: adm_inv_def eview_def)
    show ?thesis by (rule drainerI [OF z_end [OF k c]]) (use k in \<open>auto simp: emeasure_def\<close>)
  qed
qed

lemma enricher_progress:
  assumes reach: "enricher_reachable e s" and wait: "ZWait c \<in># sy_threads s" and d: "sy_drain s \<noteq> Drained"
  shows "\<exists>t. estep e s t \<and> ZWait c \<in># sy_threads t \<and> emeasure t < emeasure s"
proof -
  have inv: "einv e s" "adm_inv (eview s)" using enr.reachable_inv [OF reach] by auto
  with wait have closing: "sy_closing s" and nd: "sy_drain s \<noteq> NotDraining" by (auto simp: einv_def)
  from d nd obtain k where k: "sy_drain s = Draining k" by (cases "sy_drain s") auto
  have "\<exists>t. closer e c s t"
  proof (cases "\<exists>t. t \<in># sy_threads s \<and> eweight t > 0")
    case True
    then obtain t T where t: "sy_threads s = add_mset t T" "eweight t > 0" by (auto dest: multi_member_split)
    with wait have "ZWait c \<in># T" by auto
    from holder_progress [OF reach closing t this] show ?thesis .
  next
    case False
    from edrainer_step [OF inv(2) this k, of e] wait show ?thesis by (auto simp: closer_def)
  qed
  then show ?thesis by (simp add: closer_def)
qed

lemma enricher_returns:
  assumes "ZWait c \<in># sy_threads s" "sy_drain s = Drained"
  shows "\<exists>t. estep e s t \<and> ZReturned c None \<in># sy_threads t"
proof -
  from assms(1) obtain T where T: "sy_threads s = add_mset (ZWait c) T" by (auto dest: multi_member_split)
  have "ZReturned c None \<in># sy_threads (go s (add_mset (ZReturned c None) T) [])" by simp
  with z_drained [OF T assms(2), of e] show ?thesis by blast
qed

interpretation enrdone: drain_progress "estep e" "enricher_reachable e" "\<lambda>s. ZWait c \<in># sy_threads s"
  "\<lambda>s. sy_drain s = Drained" "\<lambda>s. ZReturned c None \<in># sy_threads s" emeasure for e c
proof (unfold_locales, goal_cases)
  case 1
  then show ?case by (rule enr.reachable.move)
next
  case 2
  then show ?case by (intro enricher_returns)
next
  case 3
  then show ?case by (intro enricher_progress)
qed

text \<open>
  C9. A shutdown of the enricher that waits can always be completed: from every reachable
  state in which a call waits for the drain, the other goroutines can go on in a way after
  which that call returns nil.
\<close>

theorem enricher_shutdown_can_complete:
  assumes "enricher_reachable e s" and "ZWait c \<in># sy_threads s"
  shows "\<exists>t. (estep e)\<^sup>*\<^sup>* s t \<and> ZReturned c None \<in># sy_threads t"
  by (rule enrdone.completes [OF assms])


section \<open>A run\<close>

text \<open>
  An enricher with one background slot and a cache that always misses takes an asynchronous
  request, resolves it in the background and is shut down.
\<close>

definition missingCache :: "unit CacheOps" where
  "missingCache =
     \<lparr>ops_Get = (\<lambda>_ _ s. (Inr \<lparr>CR_State = CacheMiss, CR_Layer = CacheLayerNone, CR_KeyType = CacheKeyFirstParty,
        CR_Result = emptyResult\<rparr>, s)),
      ops_PutResolved = (\<lambda>_ _ _ s. (None, s)), ops_PutNegative = (\<lambda>_ _ _ s. (None, s)),
      ops_PutInProgress = (\<lambda>_ _ _ s. (None, s))\<rparr>"

definition oneSlot :: "unit enricher" where
  "oneSlot = \<lparr>e_cache = Some missingCache, e_maxCacheKeys = 0, e_limiterCap = 1, e_unicode = asciiCase,
     e_order = id, e_codec = \<lparr>marshalEID = (\<lambda>_. None), unmarshalEID = (\<lambda>_. None)\<rparr>\<rparr>"

definition knownUser :: User where
  "knownUser = \<lparr>User_EIDs = [\<lparr>EID_Source = iiqSource, EID_UIDs = [\<lparr>UID_ID = ''u1'', UID_rest = []\<rparr>], EID_rest = []\<rparr>],
     Consent = [], User_Ext = []\<rparr>"

definition asyncRequest :: Request where
  "asyncRequest =
     \<lparr>PartnerID = ''p'', Endpoint = ''h'',
      Auction = Some \<lparr>BidRequest_ID = ''r'', BidRequest_Site = None, BidRequest_App = None,
        BidRequest_User = Some knownUser, BidRequest_Device = None, BidRequest_Regs = None\<rparr>,
      Timeout = time_Second, WaitTimeout = Some 0, CacheEnabled = True\<rparr>"

definition asyncJob :: resolutionJob where
  "asyncJob = newResolutionJob oneSlot asyncRequest [\<lparr>Key_Value = ''iiq:u1'', Key_Type = CacheKeyThirdParty\<rparr>]"

definition asyncPlan :: executionPlan where
  "asyncPlan = \<lparr>plan_mode = WaitModeAsync, plan_wait = 0\<rparr>"

lemma asyncKeys:
  "extractCacheKeys asciiCase (Auction asyncRequest) 0 = [\<lparr>Key_Value = ''iiq:u1'', Key_Type = CacheKeyThirdParty\<rparr>]"
proof -
  have "notBlank ''u1''" by (rule notBlank_visible) (simp add: isVisible_def)
  then show ?thesis
    by (simp add: extractCacheKeys_def asyncRequest_def knownUser_def Let_def iiqSource_def
        sharedIDCacheSources_def appendMAIDKey_def appendDeviceKey_def deduplicateAndCapKeys_def)
qed

lemma asyncOpen: "\<exists>evs. enrichOpen oneSlot c asyncRequest () = (Schedule asyncPlan asyncJob, evs, ())"
proof -
  have "notBlank ''h''" by (rule notBlank_visible) (simp add: isVisible_def)
  then have "notBlank (Endpoint asyncRequest)" by (simp add: asyncRequest_def)
  moreover have "executionPlanFor oneSlot asyncRequest = Inr asyncPlan"
    by (simp add: executionPlanFor_def oneSlot_def asyncRequest_def asyncPlan_def normalizeWaitTimeout_def
        time_Second_def)
  moreover have "cacheKeysFor oneSlot asyncRequest asyncPlan =
      Inr [\<lparr>Key_Value = ''iiq:u1'', Key_Type = CacheKeyThirdParty\<rparr>]"
    using asyncKeys by (simp add: cacheKeysFor_def oneSlot_def) (simp add: asyncRequest_def)
  moreover have "Auction asyncRequest \<noteq> None" by (simp add: asyncRequest_def)
  ultimately show ?thesis
    by (auto simp: enrichOpen_def asyncJob_def lookupCache_def oneSlot_def missingCache_def)
qed

definition slots :: "nat \<Rightarrow> bool \<Rightarrow> drain \<Rightarrow> ethread multiset \<Rightarrow> unit system \<Rightarrow> bool" where
  "slots n closing d T s \<longleftrightarrow>
     enricher_reachable oneSlot s \<and> sy_limiter s = \<lparr>lim_cap = 1, lim_len = n\<rparr> \<and> sy_closing s = closing \<and>
     sy_drain s = d \<and> sy_threads s = T"

lemma slots_step:
  "slots n closing d T s \<Longrightarrow> estep oneSlot s t \<Longrightarrow> sy_limiter t = \<lparr>lim_cap = 1, lim_len = n'\<rparr> \<Longrightarrow>
    sy_closing t = closing' \<Longrightarrow> sy_drain t = d' \<Longrightarrow> sy_threads t = T' \<Longrightarrow> \<exists>t. slots n' closing' d' T' t"
  using enr.reachable.move by (auto simp: slots_def)

lemma slots_admitted: "\<exists>s. slots 1 False NotDraining {#EMark c asyncPlan asyncJob#} s"
proof -
  let ?s = "\<lparr>sy_cache = (), sy_limiter = \<lparr>lim_cap = 1, lim_len = 0\<rparr>, sy_closing = False, sy_drain = NotDraining,
     sy_channels = (\<lambda>_. None), sy_next = 0, sy_threads = {#}, sy_events = [BackgroundCapacity 1]\<rparr>"
  have "einit oneSlot ?s"
    by (auto simp: einit_def enricher_New_def oneSlot_def newS2SLimiter_def Let_def intro!: exI [of _ 1])
  then have "enricher_reachable oneSlot ?s" by (rule enr.reachable.start)
  then have "slots 0 False NotDraining {#} ?s" by (simp add: slots_def)
  then have "\<exists>s. slots 0 False NotDraining {#ECall c asyncRequest#} s"
    by (rule slots_step [OF _ e_call]) simp_all
  then obtain s where s: "slots 0 False NotDraining {#ECall c asyncRequest#} s" ..
  then have "\<exists>s. slots 0 False NotDraining {#EOpen c asyncRequest#} s"
    by (intro slots_step [OF s e_open [of s c asyncRequest "{#}"]]) (simp_all add: slots_def)
  then obtain s where s: "slots 0 False NotDraining {#EOpen c asyncRequest#} s" ..
  obtain evs where "enrichOpen oneSlot c asyncRequest (sy_cache s) = (Schedule asyncPlan asyncJob, evs, ())"
    using asyncOpen by auto
  from e_decide [OF _ this, of "{#}"] s
  have "\<exists>s. slots 0 False NotDraining {#EAcquire c asyncPlan asyncJob#} s"
    by (intro slots_step [OF s]) (auto simp: slots_def afterOpen_def asyncPlan_def)
  then obtain s where s: "slots 0 False NotDraining {#EAcquire c asyncPlan asyncJob#} s" ..
  then have "\<exists>s. slots 1 False NotDraining {#ERecheck c asyncPlan asyncJob#} s"
    by (intro slots_step [OF s e_acquire [of s c asyncPlan asyncJob "{#}" "\<lparr>lim_cap = 1, lim_len = 1\<rparr>"]])
       (simp_all add: slots_def TryAcquire_def)
  then obtain s where s: "slots 1 False NotDraining {#ERecheck c asyncPlan asyncJob#} s" ..
  then show ?thesis
    by (intro slots_step [OF s e_admit [of s c asyncPlan asyncJob "{#}"]]) (simp_all add: slots_def)
qed

definition unresolvedResult :: Result where
  "unresolvedResult = emptyResult\<lparr>Result_Outcome := OutcomeUnresolved\<rparr>"

abbreviation expired :: ethread where
  "expired \<equiv> EReturned (Inr (emptyResult\<lparr>Result_Outcome := OutcomeWaitExpired\<rparr>))"

text \<open>The goroutine of an admitted call goes on to the cache write, whatever its caller's context.\<close>

lemma slots_run:
  assumes s0: "slots 1 False NotDraining {#EMark c asyncPlan asyncJob#} s0"
  shows "\<exists>s. (estep oneSlot)\<^sup>*\<^sup>* s0 s \<and> slots 1 False NotDraining {#BStore Background asyncJob unresolvedResult, expired#} s"
proof -
  obtain evs s' where k: "markInProgress oneSlot c asyncJob (sy_cache s0) = (evs, s')"
    by (meson surj_pair)
  from s0 have "sy_threads s0 = {#EMark c asyncPlan asyncJob#}" by (simp add: slots_def)
  from e_mark [OF this k] have m: "estep oneSlot s0 ((go s0 {#ELaunch c asyncPlan asyncJob#} evs)\<lparr>sy_cache := s'\<rparr>)"
    (is "estep oneSlot s0 ?s1") .
  with s0 have s1: "slots 1 False NotDraining {#ELaunch c asyncPlan asyncJob#} ?s1"
    using enr.reachable.move by (auto simp: slots_def)
  obtain wevs where "waitExpired (rj_partnerID asyncJob) = (wevs, Inr (emptyResult\<lparr>Result_Outcome := OutcomeWaitExpired\<rparr>))"
    by (auto simp: waitExpired_def)
  from e_launch_async [of ?s1 c asyncPlan asyncJob "{#}", OF _ _ this]
  have l: "estep oneSlot ?s1 (go ?s1 {#BResolve Background asyncJob None, expired#} wevs)"
    (is "estep oneSlot ?s1 ?s2") by (simp add: asyncPlan_def WithoutCancel_def add_mset_commute)
  with s1 have s2: "slots 1 False NotDraining {#BResolve Background asyncJob None, expired#} ?s2"
    using enr.reachable.move by (auto simp: slots_def)
  obtain revs where "resolve oneSlot asyncJob (Inr (emptyResponse\<lparr>Resp_EmptyBody := True\<rparr>)) 0 =
      (revs, Inr unresolvedResult)"
    using resolve_success [of oneSlot asyncJob "emptyResponse\<lparr>Resp_EmptyBody := True\<rparr>" 0]
    by (auto simp: unresolvedResult_def)
  from b_resolve [OF _ this, of ?s2 Background "{#expired#}"]
  have r: "estep oneSlot ?s2 (go ?s2 {#BStore Background asyncJob unresolvedResult, expired#} revs)"
    (is "estep oneSlot ?s2 ?s3") by (simp add: afterResolve_def)
  with s2 have "slots 1 False NotDraining {#BStore Background asyncJob unresolvedResult, expired#} ?s3"
    using enr.reachable.move by (auto simp: slots_def)
  moreover have "(estep oneSlot)\<^sup>*\<^sup>* s0 ?s3" using m l r by (meson r_into_rtranclp rtranclp_trans)
  ultimately show ?thesis by blast
qed

lemma slots_storing:
  "\<exists>s. slots 1 False NotDraining {#BStore Background asyncJob unresolvedResult, expired#} s"
  using slots_admitted slots_run by blast

lemma slots_waiting:
  "\<exists>s. slots 1 True (Draining 0) {#ZWait Background, BStore Background asyncJob unresolvedResult, expired#} s"
proof -
  let ?T = "{#BStore Background asyncJob unresolvedResult, expired#}"
  obtain s where s: "slots 1 False NotDraining ?T s" using slots_storing ..
  then have "\<exists>s. slots 1 False NotDraining (add_mset (ZClose Background) ?T) s"
    by (intro slots_step [OF s z_call]) (simp_all add: slots_def)
  then obtain s where s: "slots 1 False NotDraining (add_mset (ZClose Background) ?T) s" ..
  then have "\<exists>s. slots 1 True NotDraining (add_mset (ZStart Background) ?T) s"
    by (intro slots_step [OF s z_close [of s Background ?T]]) (simp_all add: slots_def)
  then obtain s where s: "slots 1 True NotDraining (add_mset (ZStart Background) ?T) s" ..
  then show ?thesis
    by (intro slots_step [OF s z_start [of s Background ?T]]) (simp_all add: slots_def)
qed

lemma slots_drained: "\<exists>s. slots 1 True Drained {#ZReturned Background None, BExit asyncJob, expired#} s"
proof -
  let ?W = "{#ZWait Background, expired#}"
  obtain s where s: "slots 1 True (Draining 0) (add_mset (BStore Background asyncJob unresolvedResult) ?W) s"
    using slots_waiting by (metis add_mset_commute)
  obtain evs s' where k: "storeResult oneSlot 0 Background asyncJob unresolvedResult (sy_cache s) = (evs, s')"
    by (meson surj_pair)
  have "\<exists>s. slots 1 True (Draining 0) (add_mset (BFinish asyncJob) ?W) s"
    by (rule slots_step [OF s b_store [OF _ k, of ?W]]) (use s in \<open>auto simp: slots_def\<close>)
  then obtain s where s: "slots 1 True (Draining 0) (add_mset (BFinish asyncJob) ?W) s" ..
  then have "\<exists>s. slots 1 True (Draining 0) (add_mset (BRelease asyncJob) ?W) s"
    by (intro slots_step [OF s b_finish [of s asyncJob ?W]]) (simp_all add: slots_def)
  then obtain s where s: "slots 1 True (Draining 0) (add_mset (BRelease asyncJob) ?W) s" ..
  then have "\<exists>s. slots 0 True (Draining 0) (add_mset (BExit asyncJob) ?W) s"
    by (intro slots_step [OF s b_release [of s asyncJob ?W "\<lparr>lim_cap = 1, lim_len = 0\<rparr>"]])
       (simp_all add: slots_def Release_def)
  then obtain s where s: "slots 0 True (Draining 0) (add_mset (BExit asyncJob) ?W) s" ..
  then have "\<exists>s. slots 1 True (Draining 1) (add_mset (BExit asyncJob) ?W) s"
    by (intro slots_step [OF s z_take [of s 0 "\<lparr>lim_cap = 1, lim_len = 1\<rparr>"]]) (simp_all add: slots_def DrainSend_def)
  then obtain s where s: "slots 1 True (Draining 1) (add_mset (BExit asyncJob) ?W) s" ..
  then have "\<exists>s. slots 1 True Drained (add_mset (BExit asyncJob) ?W) s"
    by (intro slots_step [OF s z_end [of s 1]]) (simp_all add: slots_def)
  then obtain s where s: "slots 1 True Drained (add_mset (BExit asyncJob) ?W) s" ..
  then show ?thesis
    by (intro slots_step [OF s z_drained [of s Background "{#BExit asyncJob, expired#}"]])
       (simp_all add: slots_def add_mset_commute)
qed

theorem enricher_background_bounded_witness:
  "\<exists>s :: unit system. sy_threads s = {#EMark Background asyncPlan asyncJob#} \<and> many background s \<le> e_limiterCap oneSlot \<and>
     Release (sy_limiter s) \<noteq> None"
proof -
  obtain s where s: "slots 1 False NotDraining {#EMark Background asyncPlan asyncJob#} s" using slots_admitted ..
  then have "enricher_reachable oneSlot s" by (simp add: slots_def)
  from enricher_background_bounded [OF this] s show ?thesis by (auto simp: slots_def)
qed

theorem enricher_closed_starts_nothing_witness:
  "\<exists>s. ZWait Background \<in># sy_threads s \<and> sy_closing s \<and> many background (s :: unit system) \<le> 1"
proof -
  obtain s where s: "slots 1 True (Draining 0)
      {#ZWait Background, BStore Background asyncJob unresolvedResult, expired#} s" using slots_waiting ..
  then have "enricher_reachable oneSlot s" "sy_closing s" by (simp_all add: slots_def)
  from enricher_closed_starts_nothing [OF this rtranclp.rtrancl_refl] s show ?thesis
    by (intro exI [of _ s]) (simp add: slots_def many_def)
qed

theorem enricher_shutdown_drains_witness:
  "\<exists>s. ZReturned Background None \<in># sy_threads s \<and> many background (s :: unit system) = 0 \<and>
     seen (\<lambda>x. x = BackgroundStarted) s = seen (\<lambda>x. x = BackgroundFinished) s"
proof -
  obtain s where s: "slots 1 True Drained {#ZReturned Background None, BExit asyncJob, expired#} s"
    using slots_drained ..
  then have "enricher_reachable oneSlot s" "ZReturned Background None \<in># sy_threads s"
    by (simp_all add: slots_def)
  from enricher_shutdown_drains [OF this rtranclp.rtrancl_refl] this show ?thesis by blast
qed

text \<open>A caller that has gone, with a deadline that has passed: its write still gets the whole budget.\<close>

theorem background_store_context_witness:
  "\<exists>s s' cc. EMark \<lparr>ctx_cancelled = True, ctx_deadline = Some 3\<rparr> asyncPlan asyncJob \<in># sy_threads s \<and>
    (estep oneSlot)\<^sup>*\<^sup>* s s' \<and> BStore cc asyncJob unresolvedResult \<in># sy_threads s' \<and>
    WithTimeout 5 cc (rj_timeout asyncJob) =
      \<lparr>ctx_cancelled = False, ctx_deadline = Some (5 + rj_timeout asyncJob)\<rparr>"
proof -
  let ?gone = "\<lparr>ctx_cancelled = True, ctx_deadline = Some 3\<rparr> :: ctx"
  obtain s where s: "slots 1 False NotDraining {#EMark ?gone asyncPlan asyncJob#} s" using slots_admitted ..
  from slots_run [OF s] obtain s' where run: "(estep oneSlot)\<^sup>*\<^sup>* s s'"
    and s': "slots 1 False NotDraining {#BStore Background asyncJob unresolvedResult, expired#} s'" by blast
  then have "enricher_reachable oneSlot s'" "BStore Background asyncJob unresolvedResult \<in># sy_threads s'"
    by (simp_all add: slots_def)
  note this(2) background_store_context [OF this, of 5]
  moreover have "EMark ?gone asyncPlan asyncJob \<in># sy_threads s" using s by (simp add: slots_def)
  ultimately show ?thesis using run by blast
qed

theorem enricher_shutdown_can_complete_witness:
  "\<exists>s t. (estep oneSlot)\<^sup>*\<^sup>* s t \<and> ZWait Background \<in># sy_threads s \<and>
     ZReturned Background None \<in># sy_threads t"
proof -
  obtain s where s: "slots 1 True (Draining 0)
      {#ZWait Background, BStore Background asyncJob unresolvedResult, expired#} s" using slots_waiting ..
  then have "enricher_reachable oneSlot s" "ZWait Background \<in># sy_threads s" by (simp_all add: slots_def)
  from enricher_shutdown_can_complete [OF this] this show ?thesis by blast
qed

end
