(* ===== verification/ReportBuilder.thy ===== *)
theory ReportBuilder
  imports Params Complex_Main "HOL-Library.Sublist"
begin

text \<open>
  \<^verbatim>\<open>reporting/builder.go\<close> and the request of \<^verbatim>\<open>reporting/reporting.go\<close>: the URL of an impression
  report, with its JSON payload in a fixed member order.

  A price is a \<^verbatim>\<open>float64\<close>; the shortest decimal that \<^verbatim>\<open>encoding/json\<close> writes for a finite one is
  given by a function \<open>formatFloat\<close> (the language runtime's number formatting).
\<close>

datatype float64 = Finite rat | NonFinite

record Bid =
  Bid_Price :: float64
  Bid_ImpID :: string
  Bid_Ext :: bytes

record ReportRequest =
  Report_PartnerID :: string
  Report_Endpoint :: string
  Report_Timeout :: duration
  Report_Bid :: Bid
  Report_BidderCode :: string
  Report_Currency :: string
  Report_AuctionID :: string
  Report_Reference :: string
  Report_IP :: string
  Report_UserAgent :: string
  Report_ABTestUUID :: string
  Report_TerminationCause :: "int option"

section \<open>The ordered map\<close>

text \<open>The dynamic types of the values that are put into it.\<close>

datatype anyValue = AnyString string | AnyFloat float64 | AnyNumber string | AnyInt int

record orderedMap =
  om_keys :: "string list"
  om_values :: "string \<rightharpoonup> anyValue"

definition newOrderedMap :: orderedMap where
  "newOrderedMap = \<lparr>om_keys = [], om_values = Map.empty\<rparr>"

definition om_put :: "orderedMap \<Rightarrow> string \<Rightarrow> anyValue \<Rightarrow> orderedMap" where
  "om_put m key value =
     (let m = (case om_values m key of
                 None \<Rightarrow> m\<lparr>om_keys := om_keys m @ [key]\<rparr>
               | Some _ \<Rightarrow> m)
      in m\<lparr>om_values := (om_values m)(key \<mapsto> value)\<rparr>)"

definition isValidNumber :: "string \<Rightarrow> bool" where
  "isValidNumber s \<longleftrightarrow> scanNumber s = Some (s, [])"

text \<open>\<^verbatim>\<open>json.Marshal\<close> of a value; a missing one is nil and written as null.\<close>

fun marshalAny :: "(rat \<Rightarrow> string) \<Rightarrow> anyValue option \<Rightarrow> string option" where
  "marshalAny formatFloat None = Some (jsonText JNull)"
| "marshalAny formatFloat (Some (AnyString s)) = Some (jsonText (JStr s))"
| "marshalAny formatFloat (Some (AnyFloat (Finite x))) = Some (formatFloat x)"
| "marshalAny formatFloat (Some (AnyFloat NonFinite)) = None"
| "marshalAny formatFloat (Some (AnyNumber s)) =
     (if s = [] then Some ''0'' else if isValidNumber s then Some s else None)"
| "marshalAny formatFloat (Some (AnyInt i)) = Some (Itoa i)"

fun marshalLoop ::
  "(rat \<Rightarrow> string) \<Rightarrow> (string \<rightharpoonup> anyValue) \<Rightarrow> nat \<Rightarrow> string list \<Rightarrow> string \<Rightarrow> string option" where
  "marshalLoop formatFloat values index [] buffer = Some buffer"
| "marshalLoop formatFloat values index (key # keys) buffer =
     (let buffer = (if index > 0 then buffer @ '','' else buffer);
          buffer = buffer @ jsonText (JStr key) @ '':''
      in case marshalAny formatFloat (values key) of
           None \<Rightarrow> None
         | Some encodedValue \<Rightarrow>
             marshalLoop formatFloat values (Suc index) keys (buffer @ encodedValue))"

definition om_MarshalJSON :: "(rat \<Rightarrow> string) \<Rightarrow> orderedMap \<Rightarrow> string option" where
  "om_MarshalJSON formatFloat m =
     map_option (\<lambda>b. b @ ''}'') (marshalLoop formatFloat (om_values m) 0 (om_keys m) ''{'')"

section \<open>The report URL\<close>

definition report_encodeComponent :: "string \<Rightarrow> string" where
  "report_encodeComponent value = ReplaceByte (QueryEscape value) (CHR ''+'') ''%20''"

definition report_notBlank :: "string \<Rightarrow> bool" where
  "report_notBlank value \<longleftrightarrow> TrimSpace value \<noteq> []"

definition putIfPresent :: "orderedMap \<Rightarrow> string \<Rightarrow> string \<Rightarrow> orderedMap" where
  "putIfPresent rdata key value =
     (if report_notBlank value then om_put rdata key (AnyString value) else rdata)"

text \<open>
  \<^verbatim>\<open>json.Unmarshal\<close> into a \<^verbatim>\<open>json.Number\<close> takes a number, or a string that spells one, and leaves
  an empty number on null.
\<close>

fun decodeNumber :: "json \<Rightarrow> string option" where
  "decodeNumber (JNum lit) = Some lit"
| "decodeNumber (JStr s) = (if isValidNumber s then Some s else None)"
| "decodeNumber JNull = Some []"
| "decodeNumber _ = None"

definition lastField :: "(string \<times> json) list \<Rightarrow> string \<Rightarrow> json option" where
  "lastField kvs k = map_of (rev kvs) k"

definition appendOriginalBid :: "orderedMap \<Rightarrow> bytes \<Rightarrow> orderedMap" where
  "appendOriginalBid rdata ext =
     (if length ext = 0 then rdata
      else case parseJSON ext of
        Some (JObj members) \<Rightarrow>
          (let rdata =
                 (case lastField members ''origbidcpm'' of
                    None \<Rightarrow> rdata
                  | Some raw \<Rightarrow>
                      (case decodeNumber raw of
                         None \<Rightarrow> rdata
                       | Some number \<Rightarrow>
                           if number \<noteq> [] then om_put rdata ''originalCpm'' (AnyNumber number) else rdata))
           in case lastField members ''origbidcur'' of
                None \<Rightarrow> rdata
              | Some raw \<Rightarrow>
                  (case decodeString raw [] of
                     None \<Rightarrow> rdata
                   | Some currency \<Rightarrow>
                       if report_notBlank currency then om_put rdata ''originalCurrency'' (AnyString currency)
                       else rdata))
      | _ \<Rightarrow> rdata)"

definition assembleReportURL :: "(rat \<Rightarrow> string) \<Rightarrow> string \<Rightarrow> string \<Rightarrow> orderedMap \<Rightarrow> string" where
  "assembleReportURL formatFloat endpoint partnerID rdata =
     (let separator = (if Contains endpoint ''?'' then ''&'' else ''?'');
          rdataJSON = (case om_MarshalJSON formatFloat rdata of None \<Rightarrow> [] | Some b \<Rightarrow> b)
      in endpoint @ separator @ ''at=45'' @ ''&rtype=1'' @ ''&source='' @ ''pbsgo'' @
         ''&dpi='' @ report_encodeComponent partnerID @ ''&rdata='' @ report_encodeComponent rdataJSON)"

definition reportData :: "ReportRequest \<Rightarrow> orderedMap" where
  "reportData request =
     (let currency = (if Report_Currency request = [] then ''USD'' else Report_Currency request);
          rdata = newOrderedMap;
          rdata = om_put rdata ''bidderCode'' (AnyString (Report_BidderCode request));
          rdata = om_put rdata ''partnerId'' (AnyString (Report_PartnerID request));
          rdata = om_put rdata ''cpm'' (AnyFloat (Bid_Price (Report_Bid request)));
          rdata = om_put rdata ''currency'' (AnyString currency);
          rdata = appendOriginalBid rdata (Bid_Ext (Report_Bid request));
          rdata = om_put rdata ''placementId'' (AnyString (Bid_ImpID (Report_Bid request)));
          rdata = om_put rdata ''biddingPlatformId'' (AnyString ''4'');
          rdata = putIfPresent rdata ''vrref'' (Report_Reference request);
          rdata = putIfPresent rdata ''prebidAuctionId'' (Report_AuctionID request);
          rdata = putIfPresent rdata ''partnerAuctionId'' (Report_AuctionID request);
          rdata = putIfPresent rdata ''abTestUuid'' (Report_ABTestUUID request);
          rdata = (case Report_TerminationCause request of None \<Rightarrow> rdata
                   | Some tc \<Rightarrow> om_put rdata ''terminationCause'' (AnyInt tc));
          rdata = putIfPresent rdata ''ip'' (Report_IP request)
      in putIfPresent rdata ''ua'' (Report_UserAgent request))"

definition buildReportURL :: "(rat \<Rightarrow> string) \<Rightarrow> ReportRequest \<Rightarrow> string" where
  "buildReportURL formatFloat request =
     assembleReportURL formatFloat (Report_Endpoint request) (Report_PartnerID request) (reportData request)"

section \<open>What an ordered map promises\<close>

text \<open>
  Seen from outside, an ordered map is a list of entries: a put replaces the value of a key
  where it stands, or adds the key at the end.
\<close>

locale ordered_map =
  fixes ok :: "'m \<Rightarrow> bool" and new :: 'm and put :: "'m \<Rightarrow> 'k \<Rightarrow> 'v \<Rightarrow> 'm"
    and entriesOf :: "'m \<Rightarrow> ('k \<times> 'v) list"
  assumes new_ok: "ok new" and entries_new: "entriesOf new = []"
    and put_ok: "ok m \<Longrightarrow> ok (put m k v)"
    and entries_put: "ok m \<Longrightarrow> entriesOf (put m k v) = AList.update k v (entriesOf m)"
begin

definition puts :: "('k \<times> 'v) list \<Rightarrow> 'm \<Rightarrow> 'm" where
  "puts kvs m = foldl (\<lambda>m (k, v). put m k v) m kvs"

lemma puts_ok: "ok m \<Longrightarrow> ok (puts kvs m)"
  unfolding puts_def by (induction kvs arbitrary: m) (auto simp: put_ok)

lemma entries_puts:
  "ok m \<Longrightarrow> distinct (map fst (entriesOf m) @ map fst kvs) \<Longrightarrow>
    entriesOf (puts kvs m) = entriesOf m @ kvs"
proof (induction kvs arbitrary: m)
  case (Cons p kvs)
  obtain k v where p: "p = (k, v)" by (cases p)
  have new: "AList.update k v al = al @ [(k, v)]" if "k \<notin> fst ` set al" for al :: "('k \<times> 'v) list"
    using that by (induction al) auto
  have e: "entriesOf (put m k v) = entriesOf m @ [(k, v)]"
    using Cons.prems p by (auto simp: entries_put intro!: new)
  have "puts (p # kvs) m = puts kvs (put m k v)" by (simp add: puts_def p)
  with Cons.IH [of "put m k v"] Cons.prems e p put_ok show ?case by auto
qed (simp add: puts_def)

lemma entries_from_new:
  "distinct (map fst kvs) \<Longrightarrow> entriesOf (puts kvs new) = kvs"
  by (simp add: entries_puts new_ok entries_new)

end

definition om_ok :: "orderedMap \<Rightarrow> bool" where
  "om_ok m \<longleftrightarrow> distinct (om_keys m) \<and> dom (om_values m) = set (om_keys m)"

definition om_entries :: "orderedMap \<Rightarrow> (string \<times> anyValue) list" where
  "om_entries m = map (\<lambda>k. (k, the (om_values m k))) (om_keys m)"

lemma update_entries:
  "distinct ks \<Longrightarrow> k \<in> set ks \<Longrightarrow>
    AList.update k v (map (\<lambda>k. (k, the (vals k))) ks) = map (\<lambda>x. (x, the ((vals(k \<mapsto> v)) x))) ks"
  by (induction ks) auto

lemma update_new_entry:
  "k \<notin> set ks \<Longrightarrow> AList.update k v (map (\<lambda>k. (k, the (vals k))) ks) =
    map (\<lambda>x. (x, the ((vals(k \<mapsto> v)) x))) (ks @ [k])"
  by (induction ks) auto

interpretation om: ordered_map om_ok newOrderedMap om_put om_entries
proof
  show "om_ok newOrderedMap" "om_entries newOrderedMap = []"
    by (auto simp: om_ok_def om_entries_def newOrderedMap_def)
next
  fix m k v
  assume m: "om_ok m"
  then have d: "distinct (om_keys m)" "om_values m k = None \<longleftrightarrow> k \<notin> set (om_keys m)"
    by (auto simp: om_ok_def)
  show "om_ok (om_put m k v)"
    using m d(2) by (auto simp: om_ok_def om_put_def Let_def split: option.splits)
  show "om_entries (om_put m k v) = AList.update k v (om_entries m)"
    using d update_entries [of "om_keys m" k v "om_values m"] update_new_entry [of k "om_keys m" v "om_values m"]
    by (auto simp: om_entries_def om_put_def Let_def split: option.splits)
qed


section \<open>The payload\<close>

text \<open>The JSON value of an entry and the entries that a request stands for.\<close>

fun valueJSON :: "(rat \<Rightarrow> string) \<Rightarrow> anyValue \<Rightarrow> json" where
  "valueJSON formatFloat (AnyString s) = JStr s"
| "valueJSON formatFloat (AnyFloat (Finite x)) = JNum (formatFloat x)"
| "valueJSON formatFloat (AnyFloat NonFinite) = JNull"
| "valueJSON formatFloat (AnyNumber s) = JNum s"
| "valueJSON formatFloat (AnyInt i) = JNum (Itoa i)"

fun marshalable :: "anyValue \<Rightarrow> bool" where
  "marshalable (AnyFloat NonFinite) = False"
| "marshalable (AnyNumber s) = isValidNumber s"
| "marshalable _ = True"

lemma isValidNumber_Nil: "\<not> isValidNumber []"
  by (simp add: isValidNumber_def scanNumber_def splitSign_def scanUnsigned_def scanInt_def)

lemma marshalAny_value:
  "marshalable v \<Longrightarrow> marshalAny f (Some v) = Some (jsonText (valueJSON f v))"
  by (cases "(f, Some v)" rule: marshalAny.cases) (auto simp: isValidNumber_Nil)

definition entriesJSON :: "(rat \<Rightarrow> string) \<Rightarrow> (string \<times> anyValue) list \<Rightarrow> (string \<times> json) list" where
  "entriesJSON f kvs = map (\<lambda>(k, v). (k, valueJSON f v)) kvs"

lemma marshalLoop_Suc:
  "\<forall>k\<in>set keys. \<exists>v. vals k = Some v \<and> marshalable v \<Longrightarrow>
    marshalLoop f vals (Suc n) keys b = Some (b @ concat (map (\<lambda>k.
      '','' @ jsonText (JStr k) @ '':'' @ jsonText (valueJSON f (the (vals k)))) keys))"
  by (induction keys arbitrary: n b) (auto simp: marshalAny_value Let_def simp del: jsonText.simps)

lemma Join_Cons: "Join (x # xs) sep = x @ concat (map (\<lambda>y. sep @ y) xs)"
  by (induction xs arbitrary: x) auto

lemma om_MarshalJSON_entries:
  assumes "om_ok m" "list_all (\<lambda>kv. marshalable (snd kv)) (om_entries m)"
  shows "om_MarshalJSON f m = Some (jsonText (JObj (entriesJSON f (om_entries m))))"
proof -
  have v: "\<forall>k\<in>set (om_keys m). \<exists>v. om_values m k = Some v \<and> marshalable v"
    using assms by (force simp: om_ok_def om_entries_def list_all_iff)
  show ?thesis
  proof (cases "om_keys m")
    case Nil
    then show ?thesis by (simp add: om_MarshalJSON_def om_entries_def entriesJSON_def)
  next
    case (Cons k ks)
    with v obtain w where w: "om_values m k = Some w" "marshalable w" by auto
    have "\<forall>k\<in>set ks. \<exists>v. om_values m k = Some v \<and> marshalable v" using v Cons by simp
    from marshalLoop_Suc [OF this, of f 0] w Cons show ?thesis
      by (simp add: om_MarshalJSON_def om_entries_def entriesJSON_def marshalAny_value Join_Cons comp_def)
  qed
qed

definition originalEntries :: "bytes \<Rightarrow> (string \<times> anyValue) list" where
  "originalEntries ext =
     (case parseJSON ext of
        Some (JObj members) \<Rightarrow>
          (case Option.bind (lastField members ''origbidcpm'') decodeNumber of
             Some (c # cs) \<Rightarrow> [(''originalCpm'', AnyNumber (c # cs))] | _ \<Rightarrow> []) @
          (case Option.bind (lastField members ''origbidcur'') (\<lambda>j. decodeString j []) of
             Some s \<Rightarrow> if notBlank s then [(''originalCurrency'', AnyString s)] else []
           | None \<Rightarrow> [])
      | _ \<Rightarrow> [])"

definition presentEntry :: "string \<Rightarrow> string \<Rightarrow> (string \<times> anyValue) list" where
  "presentEntry key value = (if notBlank value then [(key, AnyString value)] else [])"

definition reportEntries :: "ReportRequest \<Rightarrow> (string \<times> anyValue) list" where
  "reportEntries r =
     [(''bidderCode'', AnyString (Report_BidderCode r)), (''partnerId'', AnyString (Report_PartnerID r)),
      (''cpm'', AnyFloat (Bid_Price (Report_Bid r))),
      (''currency'', AnyString (if Report_Currency r = [] then ''USD'' else Report_Currency r))] @
     originalEntries (Bid_Ext (Report_Bid r)) @
     [(''placementId'', AnyString (Bid_ImpID (Report_Bid r))), (''biddingPlatformId'', AnyString ''4'')] @
     presentEntry ''vrref'' (Report_Reference r) @
     presentEntry ''prebidAuctionId'' (Report_AuctionID r) @
     presentEntry ''partnerAuctionId'' (Report_AuctionID r) @
     presentEntry ''abTestUuid'' (Report_ABTestUUID r) @
     (case Report_TerminationCause r of None \<Rightarrow> [] | Some tc \<Rightarrow> [(''terminationCause'', AnyInt tc)]) @
     presentEntry ''ip'' (Report_IP r) @ presentEntry ''ua'' (Report_UserAgent r)"

lemma puts_append: "om.puts (a @ b) m = om.puts b (om.puts a m)"
  by (simp add: om.puts_def)

lemma puts_single: "om_put m k v = om.puts [(k, v)] m"
  by (simp add: om.puts_def)

lemma puts_Nil: "om.puts [] m = m"
  by (simp add: om.puts_def)

lemma puts_Cons: "om.puts ((k, v) # kvs) m = om.puts kvs (om_put m k v)"
  by (simp add: om.puts_def)

lemma parseJSON_Nil: "parseJSON [] = None"
  by (simp add: parseJSON_def expect_def skipWS_def parseScalar_def numeral_2_eq_2)

lemma appendOriginalBid_puts: "appendOriginalBid m ext = om.puts (originalEntries ext) m"
proof (cases "parseJSON ext")
  case (Some j)
  then have "ext \<noteq> []" using parseJSON_Nil by auto
  with Some show ?thesis
    by (cases j)
       (auto simp: appendOriginalBid_def originalEntries_def report_notBlank_def notBlank_def puts_single
          puts_append puts_Nil Let_def split: option.splits list.splits)
qed (simp add: appendOriginalBid_def originalEntries_def puts_Nil)

lemma putIfPresent_puts: "putIfPresent m k v = om.puts (presentEntry k v) m"
  by (simp add: putIfPresent_def presentEntry_def report_notBlank_def notBlank_def puts_single puts_Nil)

lemma reportData_puts: "reportData r = om.puts (reportEntries r) newOrderedMap"
proof -
  have tc: "om.puts (case Report_TerminationCause r of None \<Rightarrow> []
        | Some tc \<Rightarrow> [(''terminationCause'', AnyInt tc)]) m =
      (case Report_TerminationCause r of None \<Rightarrow> m | Some tc \<Rightarrow> om_put m ''terminationCause'' (AnyInt tc))"
    for m by (simp add: puts_Cons puts_Nil split: option.split)
  show ?thesis
    unfolding reportEntries_def puts_append puts_Cons puts_Nil tc reportData_def Let_def
      putIfPresent_puts [symmetric] appendOriginalBid_puts [symmetric]
    ..
qed

text \<open>The keys of a report, all of them and in order; a report has some of them.\<close>

definition reportKeys :: "string list" where
  "reportKeys = [''bidderCode'', ''partnerId'', ''cpm'', ''currency''] @ [''originalCpm'', ''originalCurrency''] @
     [''placementId'', ''biddingPlatformId''] @ [''vrref''] @ [''prebidAuctionId''] @ [''partnerAuctionId''] @
     [''abTestUuid''] @ [''terminationCause''] @ [''ip''] @ [''ua'']"

lemma distinct_subseq: "subseq xs ys \<Longrightarrow> distinct ys \<Longrightarrow> distinct xs"
proof (induction rule: list_emb.induct)
  case (list_emb_Cons2 x y xs ys)
  then show ?case using list_emb_set [OF list_emb_Cons2.hyps(2)] by auto
qed auto

lemma originalEntries_keys: "subseq (map fst (originalEntries ext)) [''originalCpm'', ''originalCurrency'']"
  by (auto simp: originalEntries_def split: option.splits json.splits list.splits)

lemma presentEntry_keys: "subseq (map fst (presentEntry k v)) [k]"
  by (simp add: presentEntry_def)

lemma reportEntries_keys: "subseq (map fst (reportEntries r)) reportKeys"
proof -
  have tc: "subseq (map fst (case Report_TerminationCause r of None \<Rightarrow> []
      | Some tc \<Rightarrow> [(''terminationCause'', AnyInt tc)])) [''terminationCause'']"
    by (simp split: option.split)
  show ?thesis
    unfolding reportEntries_def reportKeys_def map_append
    by (intro list_emb_append_mono originalEntries_keys presentEntry_keys tc) simp_all
qed

lemma reportEntries_distinct: "distinct (map fst (reportEntries r))"
  by (rule distinct_subseq [OF reportEntries_keys]) (simp add: reportKeys_def)

text \<open>
  The map holds the report's entries in their order, each key once.
\<close>

lemma reportData_entries: "om_entries (reportData r) = reportEntries r \<and> om_ok (reportData r)"
  using om.entries_from_new [OF reportEntries_distinct] om.puts_ok [OF om.new_ok]
  by (simp add: reportData_puts)

lemma encodeComponent_eq: "report_encodeComponent = encodeParameter"
  by (intro ext) (simp add: report_encodeComponent_def encodeParameter_def)

definition reportPrefix :: "ReportRequest \<Rightarrow> string" where
  "reportPrefix r = Report_Endpoint r @ (if Contains (Report_Endpoint r) ''?'' then ''&'' else ''?'')"

lemma buildReportURL_query:
  assumes "om_MarshalJSON f (reportData r) = Some payload"
  shows "buildReportURL f r = reportPrefix r @ query [(''at'', ''45''), (''rtype'', ''1''),
    (''source'', ''pbsgo''), (''dpi'', Report_PartnerID r), (''rdata'', payload)]"
  using assms
  by (simp add: buildReportURL_def assembleReportURL_def reportPrefix_def query_def encodeComponent_eq
      encodeParameter_Cons isUnreserved_def isAlnum_def)

lemma entries_marshalable:
  assumes "Bid_Price (Report_Bid r) = Finite p"
    and "jsonOk maxNestingDepth (JObj (entriesJSON f (reportEntries r)))"
  shows "list_all (\<lambda>kv. marshalable (snd kv)) (reportEntries r)"
proof -
  have "marshalable v" if "(k, v) \<in> set (reportEntries r)" for k v
  proof (cases v)
    case (AnyNumber s)
    with that have "(k, JNum s) \<in> set (entriesJSON f (reportEntries r))"
      by (force simp: entriesJSON_def)
    with assms(2) AnyNumber show ?thesis by (auto simp: list_all_iff isValidNumber_def)
  next
    case (AnyFloat x)
    with that assms(1) show ?thesis
      by (auto simp: reportEntries_def originalEntries_def presentEntry_def
          split: option.splits json.splits list.splits if_splits)
  qed simp_all
  then show ?thesis by (auto simp: list_all_iff)
qed

text \<open>
  C20. An impression report says what the request says: the report URL parses to exactly the
  five parameters of the reporting API, in order, and its payload parses as JSON to the
  report's entries, each key once, in the documented order, with the bid's original price
  as the number it was spelled as. (For a finite price that the runtime writes as a JSON
  number, and text that is valid UTF-8.)
\<close>

theorem buildReportURL_parses:
  assumes "Bid_Price (Report_Bid r) = Finite p"
    and "jsonOk maxNestingDepth (JObj (entriesJSON f (reportEntries r)))"
  shows "\<exists>q payload. buildReportURL f r = reportPrefix r @ q \<and>
    parseQuery q = [(''at'', ''45''), (''rtype'', ''1''), (''source'', ''pbsgo''),
      (''dpi'', Report_PartnerID r), (''rdata'', payload)] \<and>
    parseJSON payload = Some (JObj (entriesJSON f (reportEntries r)))"
proof -
  let ?payload = "jsonText (JObj (entriesJSON f (reportEntries r)))"
  let ?ps = "[(''at'', ''45''), (''rtype'', ''1''), (''source'', ''pbsgo''),
      (''dpi'', Report_PartnerID r), (''rdata'', ?payload)]"
  have "om_MarshalJSON f (reportData r) = Some ?payload"
    using om_MarshalJSON_entries [of "reportData r" f] reportData_entries entries_marshalable [OF assms]
    by simp
  then have "buildReportURL f r = reportPrefix r @ query ?ps" by (rule buildReportURL_query)
  moreover have "parseQuery (query ?ps) = ?ps"
    by (rule parseQuery_query) (simp_all add: clean_names_def)
  moreover have "parseJSON ?payload = Some (JObj (entriesJSON f (reportEntries r)))"
    by (rule parseJSON_jsonText [OF assms(2)])
  ultimately show ?thesis by blast
qed

definition sampleReport :: ReportRequest where
  "sampleReport =
     \<lparr>Report_PartnerID = ''p&1'', Report_Endpoint = ''h'', Report_Timeout = time_Second,
      Report_Bid = \<lparr>Bid_Price = Finite (3 / 2), Bid_ImpID = ''i'', Bid_Ext = []\<rparr>,
      Report_BidderCode = ''b'', Report_Currency = [], Report_AuctionID = '' '', Report_Reference = [],
      Report_IP = [], Report_UserAgent = [], Report_ABTestUUID = [], Report_TerminationCause = Some 7\<rparr>"

theorem buildReportURL_parses_witness:
  "\<exists>q payload. buildReportURL (\<lambda>x. ''1.5'') sampleReport = reportPrefix sampleReport @ q \<and>
    parseQuery q = [(''at'', ''45''), (''rtype'', ''1''), (''source'', ''pbsgo''),
      (''dpi'', ''p&1''), (''rdata'', payload)] \<and>
    parseJSON payload = Some (JObj (entriesJSON (\<lambda>x. ''1.5'') (reportEntries sampleReport)))"
proof -
  have blank: "\<not> notBlank '' ''"
    by (simp add: notBlank_def TrimSpace_def TrimLeft.simps isSpace1_def)
  have num: "scanNumber ''1.5'' = Some (''1.5'', [])"
    by (simp add: scanNumber_def splitSign_def scanUnsigned_def scanInt_def scanFrac_def scanExp_def isDigit_def)
  have "jsonOk maxNestingDepth (JObj (entriesJSON (\<lambda>x. ''1.5'') (reportEntries sampleReport)))"
    by (simp add: entriesJSON_def reportEntries_def sampleReport_def presentEntry_def blank originalEntries_def
        parseJSON_Nil maxNestingDepth_def num scanNumber_Itoa isASCII_valid_utf8 isASCII_def)
  moreover have "Bid_Price (Report_Bid sampleReport) = Finite (3 / 2)" by (simp add: sampleReport_def)
  ultimately show ?thesis
    using buildReportURL_parses [of sampleReport "3 / 2" "\<lambda>x. ''1.5''"] by (simp add: sampleReport_def)
qed

end
