(* ===== verification/Reporter.thy ===== *)
theory Reporter
  imports ReportBuilder Limiter Errors
begin

text \<open>
  \<^verbatim>\<open>reporting/reporter.go\<close>, \<^verbatim>\<open>reporting/limiter.go\<close>, \<^verbatim>\<open>reporting/config.go\<close>: reports run in
  goroutines of their own, as many at a time as the limiter has permits, until shutdown.

  The reporter's memory and its goroutines are a state; an atomic action of a goroutine (a
  look at the closing flag, a channel operation, a call on the host's metrics, a finished
  API call) is a step. What the reporting API does with a call is not known: any outcome,
  a panic included, is a step.
\<close>

section \<open>Configuration and limiter\<close>

record ReportConfig =
  MaxConcurrentCalls :: int

definition ReportConfig_Validate :: "ReportConfig \<Rightarrow> go_error option" where
  "ReportConfig_Validate config =
     (if MaxConcurrentCalls config \<le> 0 then
        Some (PlainError (''reporting max concurrent calls must be positive: '' @ Itoa (MaxConcurrentCalls config)))
      else None)"

record reportLimiter =
  rl_cap :: nat
  rl_len :: nat

text \<open>Making a channel of negative size panics.\<close>

definition newReportLimiter :: "int \<Rightarrow> reportLimiter option" where
  "newReportLimiter maximum =
     (if maximum < 0 then None else Some \<lparr>rl_cap = nat maximum, rl_len = 0\<rparr>)"

definition report_TryAcquire :: "reportLimiter \<Rightarrow> bool \<times> reportLimiter" where
  "report_TryAcquire limiter =
     (if rl_len limiter < rl_cap limiter then (True, limiter\<lparr>rl_len := rl_len limiter + 1\<rparr>)
      else (False, limiter))"

definition report_Release :: "reportLimiter \<Rightarrow> reportLimiter option" where
  "report_Release limiter =
     (if rl_len limiter = 0 then None else Some (limiter\<lparr>rl_len := rl_len limiter - 1\<rparr>))"

definition report_DrainSend :: "reportLimiter \<Rightarrow> reportLimiter option" where
  "report_DrainSend limiter =
     (if rl_len limiter < rl_cap limiter then Some (limiter\<lparr>rl_len := rl_len limiter + 1\<rparr>)
      else None)"

interpretation rl: permit_channel rl_cap rl_len report_TryAcquire report_Release report_DrainSend
  by unfold_locales (auto simp: report_TryAcquire_def report_Release_def report_DrainSend_def split: if_splits)

section \<open>Jobs, results and what the host observes\<close>

datatype ReportResult = ReportAccepted | ReportAtCapacity | ReportShuttingDown

fun ReportResult_string :: "ReportResult \<Rightarrow> string" where
  "ReportResult_string ReportAccepted = ''accepted''"
| "ReportResult_string ReportAtCapacity = ''at_capacity''"
| "ReportResult_string ReportShuttingDown = ''shutting_down''"

record reportJob =
  job_partnerID :: string
  job_requestURL :: string
  job_timeout :: duration

definition newReportJob :: "(rat \<Rightarrow> string) \<Rightarrow> ReportRequest \<Rightarrow> reportJob" where
  "newReportJob formatFloat request =
     \<lparr>job_partnerID = Report_PartnerID request,
      job_requestURL = (if Report_Endpoint request \<noteq> [] then buildReportURL formatFloat request else []),
      job_timeout = Report_Timeout request\<rparr>"

datatype report_event =
    ReportingCapacity int
  | ImpressionRejected string ReportResult
  | ReportingStarted
  | ReportingFinished
  | ReportImpression string
  | ImpressionError string
  | ImpressionReported string
  | ImpressionAPIRequestDuration string duration
  | ReportWarn string
  | ReportErrorLog string

datatype api_outcome = ApiOK | ApiError go_error | ApiPanic string

definition reject :: "string \<Rightarrow> ReportResult \<Rightarrow> report_event list" where
  "reject partnerID result =
     [ImpressionRejected partnerID result,
      ReportWarn (''intentiq-identity: impression report rejected (dpi='' @ partnerID @ ''): '' @
        ReportResult_string result)]"

text \<open>
  The calls that \<^verbatim>\<open>report\<close> makes, in order, when the API call ends with the given outcome after
  the given time, and the value of the panic that it lets through. The deferred measurement
  of the duration runs on every way out.
\<close>

definition report :: "reportJob \<Rightarrow> api_outcome \<Rightarrow> duration \<Rightarrow> report_event list \<times> string option" where
  "report job outcome duration =
     (if job_requestURL job = [] then ([], None)
      else
        (let call = [ReportImpression (job_requestURL job)];
             measured = [ImpressionAPIRequestDuration (job_partnerID job) duration]
         in case outcome of
              ApiOK \<Rightarrow> (call @ [ImpressionReported (job_partnerID job)] @ measured, None)
            | ApiError err \<Rightarrow>
                (call @ [ImpressionError (job_partnerID job),
                   ReportWarn (''intentiq-identity: impression report failed (dpi='' @ job_partnerID job @
                     ''): '' @ errorText err)] @ measured, None)
            | ApiPanic v \<Rightarrow> (call @ measured, Some v)))"

definition recordPanic :: "string \<Rightarrow> string \<Rightarrow> report_event list" where
  "recordPanic partnerID recovered =
     [ImpressionError partnerID,
      ReportErrorLog (''intentiq-identity: panic in impression report: '' @ recovered)]"

section \<open>The reporter and its goroutines\<close>

datatype rthread =
    RTry ReportRequest
  | RAcquire ReportRequest
  | RRefused ReportRequest
  | RRecheck ReportRequest
  | RDecline ReportRequest
  | RReturned ReportRequest ReportResult
  | RRun reportJob
  | RFinish reportJob "string option"
  | RRelease reportJob "string option"
  | RRecover reportJob "string option"
  | RExit reportJob
  | SClose ctx
  | SStart ctx
  | SWait ctx
  | SReturned ctx "go_error option"

record reporter =
  rs_limiter :: reportLimiter
  rs_closing :: bool
  rs_drain :: drain
  rs_cancelled :: bool
  rs_threads :: "rthread multiset"
  rs_events :: "report_event list"

definition reporter_New :: "bool \<Rightarrow> ReportConfig \<Rightarrow> go_error + reporter" where
  "reporter_New hasAPI config =
     (if \<not> hasAPI then Inl (PlainError ''reporting API is required'')
      else case ReportConfig_Validate config of
        Some err \<Rightarrow> Inl err
      | None \<Rightarrow>
          (case newReportLimiter (MaxConcurrentCalls config) of
             None \<Rightarrow> Inl (PlainError ''makechan: size out of range'')
           | Some limiter \<Rightarrow>
               Inr \<lparr>rs_limiter = limiter, rs_closing = False, rs_drain = NotDraining,
                    rs_cancelled = False, rs_threads = {#},
                    rs_events = [ReportingCapacity (MaxConcurrentCalls config)]\<rparr>))"

text \<open>
  A thread moves on: it is replaced by the threads that it becomes, and the calls it made on
  the host are recorded.
\<close>

abbreviation moves :: "reporter \<Rightarrow> rthread multiset \<Rightarrow> report_event list \<Rightarrow> reporter" where
  "moves s T evs \<equiv> s\<lparr>rs_threads := T, rs_events := rs_events s @ evs\<rparr>"

inductive rstep :: "(rat \<Rightarrow> string) \<Rightarrow> reporter \<Rightarrow> reporter \<Rightarrow> bool" for f where
  r_call: "rstep f s (moves s (add_mset (RTry req) (rs_threads s)) [])"
| r_closed: "rs_threads s = add_mset (RTry req) T \<Longrightarrow> rs_closing s \<Longrightarrow>
    rstep f s (moves s (add_mset (RReturned req ReportShuttingDown) T)
      (reject (Report_PartnerID req) ReportShuttingDown))"
| r_open: "rs_threads s = add_mset (RTry req) T \<Longrightarrow> \<not> rs_closing s \<Longrightarrow>
    rstep f s (moves s (add_mset (RAcquire req) T) [])"
| r_acquire: "rs_threads s = add_mset (RAcquire req) T \<Longrightarrow>
    report_TryAcquire (rs_limiter s) = (True, limiter) \<Longrightarrow>
    rstep f s ((moves s (add_mset (RRecheck req) T) [])\<lparr>rs_limiter := limiter\<rparr>)"
| r_full: "rs_threads s = add_mset (RAcquire req) T \<Longrightarrow>
    report_TryAcquire (rs_limiter s) = (False, limiter) \<Longrightarrow>
    rstep f s ((moves s (add_mset (RRefused req) T) [])\<lparr>rs_limiter := limiter\<rparr>)"
| r_refused_closing: "rs_threads s = add_mset (RRefused req) T \<Longrightarrow> rs_closing s \<Longrightarrow>
    rstep f s (moves s (add_mset (RReturned req ReportShuttingDown) T)
      (reject (Report_PartnerID req) ReportShuttingDown))"
| r_refused_full: "rs_threads s = add_mset (RRefused req) T \<Longrightarrow> \<not> rs_closing s \<Longrightarrow>
    rstep f s (moves s (add_mset (RReturned req ReportAtCapacity) T)
      (reject (Report_PartnerID req) ReportAtCapacity))"
| r_admit: "rs_threads s = add_mset (RRecheck req) T \<Longrightarrow> \<not> rs_closing s \<Longrightarrow>
    rstep f s (moves s (add_mset (RReturned req ReportAccepted) (add_mset (RRun (newReportJob f req)) T))
      [ReportingStarted])"
| r_decline: "rs_threads s = add_mset (RRecheck req) T \<Longrightarrow> rs_closing s \<Longrightarrow>
    rstep f s (moves s (add_mset (RDecline req) T) [])"
| r_giveBack: "rs_threads s = add_mset (RDecline req) T \<Longrightarrow>
    report_Release (rs_limiter s) = Some limiter \<Longrightarrow>
    rstep f s ((moves s (add_mset (RReturned req ReportShuttingDown) T)
      (reject (Report_PartnerID req) ReportShuttingDown))\<lparr>rs_limiter := limiter\<rparr>)"
| r_run: "rs_threads s = add_mset (RRun job) T \<Longrightarrow> report job outcome duration = (evs, p) \<Longrightarrow>
    rstep f s (moves s (add_mset (RFinish job p) T) evs)"
| r_finish: "rs_threads s = add_mset (RFinish job p) T \<Longrightarrow>
    rstep f s (moves s (add_mset (RRelease job p) T) [ReportingFinished])"
| r_release: "rs_threads s = add_mset (RRelease job p) T \<Longrightarrow>
    report_Release (rs_limiter s) = Some limiter \<Longrightarrow>
    rstep f s ((moves s (add_mset (RRecover job p) T) [])\<lparr>rs_limiter := limiter\<rparr>)"
| r_recover: "rs_threads s = add_mset (RRecover job p) T \<Longrightarrow>
    rstep f s (moves s (add_mset (RExit job) T)
      (case p of None \<Rightarrow> [] | Some v \<Rightarrow> recordPanic (job_partnerID job) v))"
| s_call: "rstep f s (moves s (add_mset (SClose c) (rs_threads s)) [])"
| s_close: "rs_threads s = add_mset (SClose c) T \<Longrightarrow>
    rstep f s ((moves s (add_mset (SStart c) T) [])\<lparr>rs_closing := True\<rparr>)"
| s_start: "rs_threads s = add_mset (SStart c) T \<Longrightarrow>
    rstep f s ((moves s (add_mset (SWait c) T) [])
      \<lparr>rs_drain := (case rs_drain s of NotDraining \<Rightarrow> Draining 0 | d \<Rightarrow> d)\<rparr>)"
| d_take: "rs_drain s = Draining k \<Longrightarrow> k < rl_cap (rs_limiter s) \<Longrightarrow>
    report_DrainSend (rs_limiter s) = Some limiter \<Longrightarrow>
    rstep f s (s\<lparr>rs_limiter := limiter, rs_drain := Draining (Suc k)\<rparr>)"
| d_end: "rs_drain s = Draining k \<Longrightarrow> k = rl_cap (rs_limiter s) \<Longrightarrow>
    rstep f s (s\<lparr>rs_drain := Drained\<rparr>)"
| s_drained: "rs_threads s = add_mset (SWait c) T \<Longrightarrow> rs_drain s = Drained \<Longrightarrow>
    rstep f s ((moves s (add_mset (SReturned c None) T) [])\<lparr>rs_cancelled := True\<rparr>)"
| s_expired: "rs_threads s = add_mset (SWait c) T \<Longrightarrow> ctxErr now c = Some e \<Longrightarrow>
    rstep f s ((moves s (add_mset (SReturned c (Some e)) T) [])\<lparr>rs_cancelled := True\<rparr>)"

definition num :: "(rthread \<Rightarrow> bool) \<Rightarrow> reporter \<Rightarrow> nat" where
  "num P s = size (filter_mset P (rs_threads s))"

fun holdsPermit :: "rthread \<Rightarrow> bool" where
  "holdsPermit (RRecheck _) = True" | "holdsPermit _ = False"

fun givesBack :: "rthread \<Rightarrow> bool" where
  "givesBack (RDecline _) = True" | "givesBack _ = False"

fun runsReport :: "rthread \<Rightarrow> bool" where
  "runsReport (RRun _) = True" | "runsReport (RFinish _ _) = True"
| "runsReport (RRelease _ _) = True" | "runsReport _ = False"

fun afterReport :: "rthread \<Rightarrow> bool" where
  "afterReport (RRecover _ _) = True" | "afterReport (RExit _) = True" | "afterReport _ = False"

fun accepted :: "rthread \<Rightarrow> bool" where
  "accepted (RReturned _ ReportAccepted) = True" | "accepted _ = False"

definition rview :: "reporter \<Rightarrow> admission" where
  "rview s =
     \<lparr>adm_cap = rl_cap (rs_limiter s), adm_len = rl_len (rs_limiter s), adm_closing = rs_closing s,
      adm_drain = rs_drain s, adm_holding = num holdsPermit s, adm_leaving = num givesBack s,
      adm_working = num runsReport s\<rparr>"

definition rinit :: "ReportConfig \<Rightarrow> reporter \<Rightarrow> bool" where
  "rinit config s \<longleftrightarrow> reporter_New True config = Inr s"

subsection \<open>The invariant of the reporter\<close>

fun unfinished :: "rthread \<Rightarrow> bool" where
  "unfinished (RRun _) = True" | "unfinished (RFinish _ _) = True" | "unfinished _ = False"

fun rejected :: "rthread \<Rightarrow> bool" where
  "rejected (RReturned _ ReportAtCapacity) = True"
| "rejected (RReturned _ ReportShuttingDown) = True"
| "rejected _ = False"

fun isRejection :: "report_event \<Rightarrow> bool" where
  "isRejection (ImpressionRejected _ _) = True" | "isRejection _ = False"

abbreviation occurs :: "(report_event \<Rightarrow> bool) \<Rightarrow> reporter \<Rightarrow> nat" where
  "occurs P s \<equiv> length (filter P (rs_events s))"

definition rinv :: "reporter \<Rightarrow> bool" where
  "rinv s \<longleftrightarrow>
     (\<forall>c. SStart c \<in># rs_threads s \<longrightarrow> rs_closing s) \<and>
     (\<forall>c. SWait c \<in># rs_threads s \<longrightarrow> rs_closing s \<and> rs_drain s \<noteq> NotDraining) \<and>
     (\<forall>c. SReturned c None \<in># rs_threads s \<longrightarrow> rs_drain s = Drained) \<and>
     num accepted s = num runsReport s + num afterReport s \<and>
     occurs (\<lambda>e. e = ReportingStarted) s = num accepted s \<and>
     occurs (\<lambda>e. e = ReportingStarted) s = occurs (\<lambda>e. e = ReportingFinished) s + num unfinished s \<and>
     occurs isRejection s = num rejected s"

lemma report_quiet:
  assumes "report job outcome duration = (evs, p)"
  shows "filter (\<lambda>e. e = ReportingStarted) evs = []" "filter (\<lambda>e. e = ReportingFinished) evs = []"
    "filter isRejection evs = []"
  using assms by (auto simp: report_def Let_def split: if_splits api_outcome.splits)

lemma recordPanic_quiet:
  "filter (\<lambda>e. e = ReportingStarted) (recordPanic i v) = []"
  "filter (\<lambda>e. e = ReportingFinished) (recordPanic i v) = []"
  "filter isRejection (recordPanic i v) = []"
  by (auto simp: recordPanic_def)

lemma reject_quiet:
  "filter (\<lambda>e. e = ReportingStarted) (reject i r) = []"
  "filter (\<lambda>e. e = ReportingFinished) (reject i r) = []"
  "length (filter isRejection (reject i r)) = 1"
  by (auto simp: reject_def)

lemmas quiet = report_quiet recordPanic_quiet reject_quiet

lemma rinv_init: "rinit config s \<Longrightarrow> rinv s"
  by (auto simp: rinit_def reporter_New_def rinv_def num_def split: option.splits if_splits)

lemma rinv_step: "rinv s \<Longrightarrow> rstep f s t \<Longrightarrow> rinv t"
  by (erule rstep.cases) (auto simp: rinv_def num_def quiet split: option.splits drain.splits)

lemma rview_init: "rinit config s \<Longrightarrow> \<exists>c. rview s = adm_init c"
  by (auto simp: rinit_def reporter_New_def rview_def num_def newReportLimiter_def adm_init_def
      split: option.splits if_splits)

lemma rview_step:
  assumes "rinv s" "rstep f s t"
  shows "rview t = rview s \<or> adm_step (rview s) (rview t)"
  using assms(2,1)
  by cases
    (auto simp: rview_def num_def adm_step_records rinv_def report_TryAcquire_def report_Release_def report_DrainSend_def
      split: if_splits drain.splits)

interpretation rep: admission_system "rstep f" "rinit config" rinv rview for f config
  by unfold_locales (rule rinv_init, assumption, rule rview_init, assumption, rule rinv_step, assumption+,
      rule rview_step, assumption+)

text \<open>The states that a reporter of a given configuration can get into.\<close>

abbreviation reporter_reachable :: "(rat \<Rightarrow> string) \<Rightarrow> ReportConfig \<Rightarrow> reporter \<Rightarrow> bool" where
  "reporter_reachable f config \<equiv> admission_system.reachable (rstep f) (rinit config)"

lemma cap_step: "rstep f s t \<Longrightarrow> rl_cap (rs_limiter t) = rl_cap (rs_limiter s)"
  by (erule rstep.cases)
     (auto simp: report_TryAcquire_def report_Release_def report_DrainSend_def split: if_splits)

lemma reachable_cap:
  "reporter_reachable f config s \<Longrightarrow> int (rl_cap (rs_limiter s)) = MaxConcurrentCalls config"
proof (induction rule: rep.reachable.induct)
  case (start s)
  then show ?case
    by (auto simp: rinit_def reporter_New_def ReportConfig_Validate_def newReportLimiter_def
        split: option.splits if_splits)
qed (simp add: cap_step)

lemma num_pos: "t \<in># rs_threads s \<Longrightarrow> P t \<Longrightarrow> 0 < num P s"
  by (auto simp: num_def dest!: multi_member_split)

lemma num_mono: "(\<And>t. P t \<Longrightarrow> Q t) \<Longrightarrow> num P s \<le> num Q s"
proof -
  assume PQ: "\<And>t. P t \<Longrightarrow> Q t"
  have "size (filter_mset P M) \<le> size (filter_mset Q M)" for M
    by (induction M) (auto dest: PQ)
  then show ?thesis by (simp add: num_def)
qed

lemma reporter_bounded_release:
  assumes "reporter_reachable f config s" "t \<in># rs_threads s" "givesBack t \<or> runsReport t"
  shows "report_Release (rs_limiter s) \<noteq> None"
proof -
  have "0 < holders (rview s)"
    using num_pos [of t s givesBack] num_pos [of t s runsReport] assms
    by (auto simp: holders_def rview_def)
  from rep.holder_has_permit [OF assms(1) this] show ?thesis
    by (simp add: rview_def report_Release_def)
qed

text \<open>
  C12. At most the configured number of impression reports runs at any time, in every
  interleaving of callers, reports and shutdowns; and a goroutine that is to give its permit
  back never blocks on the channel.
\<close>

theorem reporter_bounded:
  assumes "reporter_reachable f config s"
  shows "int (num runsReport s) \<le> MaxConcurrentCalls config \<and>
    (\<forall>t. t \<in># rs_threads s \<and> (givesBack t \<or> runsReport t) \<longrightarrow> report_Release (rs_limiter s) \<noteq> None)"
proof -
  have "num runsReport s \<le> rl_cap (rs_limiter s)"
    using rep.working_bounded [OF assms] by (simp add: rview_def)
  with reachable_cap [OF assms] have "int (num runsReport s) \<le> MaxConcurrentCalls config" by linarith
  with reporter_bounded_release [OF assms] show ?thesis by blast
qed

lemma accepted_closing_step:
  "rstep f s t \<Longrightarrow> rs_closing s \<Longrightarrow> num accepted t = num accepted s \<and> rs_closing t"
  by (erule rstep.cases) (auto simp: num_def)

text \<open>
  Once shutdown has raised the flag no report is accepted any more, however the calls
  that were already under way are scheduled.
\<close>

lemma reporter_closed_accepts_nothing:
  assumes "(rstep f)\<^sup>*\<^sup>* s t" and "rs_closing s"
  shows "num accepted t = num accepted s \<and> rs_closing t"
  using assms by (induction rule: rtranclp_induct) (auto dest: accepted_closing_step)

text \<open>
  C11. When a call of shutdown has returned nil, every report that was ever accepted has run
  to its end: no report runs and no caller holds a permit, now or at any later time, every
  accepted report is past its work, and the started and finished counts are equal.
\<close>

theorem reporter_shutdown_drains:
  assumes "reporter_reachable f config s" and "SReturned c None \<in># rs_threads s"
    and "(rstep f)\<^sup>*\<^sup>* s t"
  shows "num runsReport t = 0 \<and> num holdsPermit t = 0 \<and> num givesBack t = 0 \<and>
    num accepted t = num afterReport t \<and>
    occurs (\<lambda>e. e = ReportingStarted) t = occurs (\<lambda>e. e = ReportingFinished) t"
proof -
  have "rs_drain s = Drained"
    using rep.reachable_inv [OF assms(1)] assms(2) by (auto simp: rinv_def)
  then have "adm_drain (rview s) = Drained" by (simp add: rview_def)
  from rep.drained_idle [OF assms(1) this assms(3)]
  have idle: "num runsReport t = 0" "num holdsPermit t = 0" "num givesBack t = 0"
    by (auto simp: holders_def rview_def)
  have inv: "rinv t" using rep.reachable_inv [OF rep.reachable_steps [OF assms(3,1)]] by blast
  have "num unfinished t \<le> num runsReport t"
    by (rule num_mono) (erule unfinished.elims; simp)
  with idle inv show ?thesis by (simp add: rinv_def)
qed

text \<open>
  C13. Every call that was turned away is accounted for: the rejections reported to the
  metrics are exactly the calls that returned a rejection, and the reports started and not
  yet finished, in the metrics, are exactly those whose goroutine has not got past its work.
\<close>

theorem reporter_metrics_balance:
  assumes "reporter_reachable f config s"
  shows "occurs isRejection s = num rejected s \<and>
    occurs (\<lambda>e. e = ReportingStarted) s = occurs (\<lambda>e. e = ReportingFinished) s + num unfinished s \<and>
    occurs (\<lambda>e. e = ReportingStarted) s = num accepted s"
  using rep.reachable_inv [OF assms] by (simp add: rinv_def)

subsection \<open>Shutdown can always complete\<close>

fun weight :: "rthread \<Rightarrow> nat" where
  "weight (RRecheck _) = 2" | "weight (RDecline _) = 1"
| "weight (RRun _) = 3" | "weight (RFinish _ _) = 2" | "weight (RRelease _ _) = 1"
| "weight _ = 0"

primrec drainLeft :: "nat \<Rightarrow> drain \<Rightarrow> nat" where
  "drainLeft c NotDraining = 0"
| "drainLeft c (Draining k) = Suc (c - k)"
| "drainLeft c Drained = 0"

definition rmeasure :: "reporter \<Rightarrow> nat" where
  "rmeasure s = (\<Sum>t\<in>#rs_threads s. weight t) + drainLeft (rl_cap (rs_limiter s)) (rs_drain s)"

lemma progressI:
  "rstep f s t \<Longrightarrow> SWait c \<in># rs_threads t \<Longrightarrow> rmeasure t < rmeasure s \<Longrightarrow>
    \<exists>t. rstep f s t \<and> SWait c \<in># rs_threads t \<and> rmeasure t < rmeasure s"
  by blast

lemma reporter_worker_progress:
  assumes reach: "reporter_reachable f config s" and closing: "rs_closing s"
    and t: "rs_threads s = add_mset t T" "weight t > 0" and w: "SWait c \<in># T"
  shows "\<exists>t. rstep f s t \<and> SWait c \<in># rs_threads t \<and> rmeasure t < rmeasure s"
proof -
  have rel: "\<exists>l. report_Release (rs_limiter s) = Some l" if "givesBack t \<or> runsReport t"
    using reporter_bounded_release [OF reach, of t] t(1) that by auto
  note m = rmeasure_def rl.release_len
  show ?thesis
  proof (cases t)
    case (RRecheck req)
    show ?thesis
      by (rule progressI [OF r_decline [OF t(1) [unfolded RRecheck] closing]]) (use t RRecheck w in \<open>auto simp: m\<close>)
  next
    case (RDecline req)
    with rel obtain l where l: "report_Release (rs_limiter s) = Some l" by auto
    show ?thesis
      by (rule progressI [OF r_giveBack [OF t(1) [unfolded RDecline] l]])
         (use t RDecline w rl.release_len [OF l] in \<open>auto simp: rmeasure_def\<close>)
  next
    case (RRun job)
    obtain evs p where r: "report job ApiOK 0 = (evs, p)" by force
    show ?thesis
      by (rule progressI [OF r_run [OF t(1) [unfolded RRun] r]]) (use t RRun w in \<open>auto simp: m\<close>)
  next
    case (RFinish job p)
    show ?thesis
      by (rule progressI [OF r_finish [OF t(1) [unfolded RFinish]]]) (use t RFinish w in \<open>auto simp: m\<close>)
  next
    case (RRelease job p)
    with rel obtain l where l: "report_Release (rs_limiter s) = Some l" by auto
    show ?thesis
      by (rule progressI [OF r_release [OF t(1) [unfolded RRelease] l]])
         (use t RRelease w rl.release_len [OF l] in \<open>auto simp: rmeasure_def\<close>)
  qed (use t(2) in auto)
qed

lemma rdrainerI:
  "rstep f s t \<Longrightarrow> rs_threads t = rs_threads s \<Longrightarrow> rmeasure t < rmeasure s \<Longrightarrow>
    \<exists>t. rstep f s t \<and> rs_threads t = rs_threads s \<and> rmeasure t < rmeasure s"
  by blast

lemma rdrainer_step:
  assumes inv: "adm_inv (rview s)" and idle: "\<not> (\<exists>t. t \<in># rs_threads s \<and> weight t > 0)"
    and k: "rs_drain s = Draining k"
  shows "\<exists>t. rstep f s t \<and> rs_threads t = rs_threads s \<and> rmeasure t < rmeasure s"
proof -
  from idle have z: "num P s = 0" if "\<And>t. P t \<Longrightarrow> weight t > 0" for P
    using that by (fastforce simp: num_def filter_mset_eq_mempty_iff)
  have "num holdsPermit s = 0" by (rule z) (auto elim!: holdsPermit.elims)
  moreover have "num givesBack s = 0" by (rule z) (auto elim!: givesBack.elims)
  moreover have "num runsReport s = 0" by (rule z) (auto elim!: runsReport.elims)
  ultimately have h: "holders (rview s) = 0" by (simp add: holders_def rview_def)
  show ?thesis
  proof (cases "k < rl_cap (rs_limiter s)")
    case True
    with h inv k have "rl_len (rs_limiter s) < rl_cap (rs_limiter s)" by (simp add: adm_inv_def rview_def)
    then obtain l where l: "report_DrainSend (rs_limiter s) = Some l"
      using rl.send_blocks [of "rs_limiter s"] by auto
    show ?thesis
      by (rule rdrainerI [OF d_take [OF k True l]])
         (use k True rl.send_len [OF l] in \<open>auto simp: rmeasure_def\<close>)
  next
    case False
    with inv k have c: "k = rl_cap (rs_limiter s)" by (simp add: adm_inv_def rview_def)
    show ?thesis
      by (rule rdrainerI [OF d_end [OF k c]]) (use k in \<open>auto simp: rmeasure_def\<close>)
  qed
qed

lemma reporter_progress:
  assumes reach: "reporter_reachable f config s" and wait: "SWait c \<in># rs_threads s"
    and d: "rs_drain s \<noteq> Drained"
  shows "\<exists>t. rstep f s t \<and> SWait c \<in># rs_threads t \<and> rmeasure t < rmeasure s"
proof -
  have inv: "rinv s" "adm_inv (rview s)" using rep.reachable_inv [OF reach] by auto
  with wait have closing: "rs_closing s" and nd: "rs_drain s \<noteq> NotDraining" by (auto simp: rinv_def)
  from d nd obtain k where k: "rs_drain s = Draining k" by (cases "rs_drain s") auto
  show ?thesis
  proof (cases "\<exists>t. t \<in># rs_threads s \<and> weight t > 0")
    case True
    then obtain t T where t: "rs_threads s = add_mset t T" "weight t > 0"
      by (auto dest: multi_member_split)
    with wait have "SWait c \<in># T" by auto
    from reporter_worker_progress [OF reach closing t this] show ?thesis .
  next
    case False
    from rdrainer_step [OF inv(2) this k, of f] wait show ?thesis by auto
  qed
qed

lemma reporter_returns:
  assumes "SWait c \<in># rs_threads s" "rs_drain s = Drained"
  shows "\<exists>t. rstep f s t \<and> SReturned c None \<in># rs_threads t"
proof -
  from assms(1) obtain T where T: "rs_threads s = add_mset (SWait c) T" by (auto dest: multi_member_split)
  have "SReturned c None \<in># rs_threads ((moves s (add_mset (SReturned c None) T) [])\<lparr>rs_cancelled := True\<rparr>)"
    by simp
  with s_drained [OF T assms(2), of f] show ?thesis by blast
qed

interpretation repdone: drain_progress "rstep f" "reporter_reachable f config" "\<lambda>s. SWait c \<in># rs_threads s"
  "\<lambda>s. rs_drain s = Drained" "\<lambda>s. SReturned c None \<in># rs_threads s" rmeasure for f config c
proof (unfold_locales, goal_cases)
  case 1
  then show ?case by (rule rep.reachable.move)
next
  case 2
  then show ?case by (intro reporter_returns)
next
  case 3
  then show ?case by (intro reporter_progress)
qed

text \<open>
  A shutdown that waits can always be completed: from every reachable state in which a
  call waits for the drain there is a way for the other goroutines to go on after which that
  call returns nil. No goroutine is stuck with a permit.
\<close>

lemma reporter_shutdown_can_complete:
  assumes "reporter_reachable f config s" and "SWait c \<in># rs_threads s"
  shows "\<exists>t. (rstep f)\<^sup>*\<^sup>* s t \<and> SReturned c None \<in># rs_threads t"
  by (rule repdone.completes [OF assms])


subsection \<open>A run\<close>

text \<open>
  A reporter with one permit accepts a report, runs it and is shut down. The states of the
  run show that the statements above speak of states that exist.
\<close>

definition oneCall :: ReportConfig where
  "oneCall = \<lparr>MaxConcurrentCalls = 1\<rparr>"

definition runState :: "nat \<Rightarrow> bool \<Rightarrow> drain \<Rightarrow> bool \<Rightarrow> rthread multiset \<Rightarrow> report_event list \<Rightarrow> reporter" where
  "runState n closing d cancelled T evs =
     \<lparr>rs_limiter = \<lparr>rl_cap = 1, rl_len = n\<rparr>, rs_closing = closing, rs_drain = d,
      rs_cancelled = cancelled, rs_threads = T, rs_events = ReportingCapacity 1 # evs\<rparr>"

lemma run_start: "reporter_reachable f oneCall (runState 0 False NotDraining False {#} [])"
  by (rule rep.reachable.start)
     (simp add: rinit_def reporter_New_def oneCall_def runState_def ReportConfig_Validate_def newReportLimiter_def)

lemma run_go:
  "reporter_reachable f config s \<Longrightarrow> rstep f s t' \<Longrightarrow> t' = t \<Longrightarrow> reporter_reachable f config t"
  using rep.reachable.move by blast

definition sampleJob :: reportJob where
  "sampleJob = newReportJob (\<lambda>_. ''1.5'') sampleReport"

definition sampleEvents :: "report_event list" where
  "sampleEvents = [ReportingStarted] @ fst (report sampleJob ApiOK 0)"

lemma sampleReport_run: "report sampleJob ApiOK 0 = (fst (report sampleJob ApiOK 0), None)"
  by (simp add: report_def Let_def)

abbreviation sample_reachable :: "reporter \<Rightarrow> bool" where
  "sample_reachable \<equiv> reporter_reachable (\<lambda>_. ''1.5'') oneCall"

lemma run_accepted:
  "sample_reachable (runState 1 False NotDraining False
     {#RReturned sampleReport ReportAccepted, RRun sampleJob#} [ReportingStarted])"
proof -
  have "sample_reachable (runState 0 False NotDraining False {#RTry sampleReport#} [])"
    by (rule run_go [OF run_start r_call]) (simp add: runState_def)
  then have "sample_reachable (runState 0 False NotDraining False {#RAcquire sampleReport#} [])"
    by (rule run_go [OF _ r_open [of _ sampleReport "{#}"]]) (simp_all add: runState_def)
  then have "sample_reachable (runState 1 False NotDraining False {#RRecheck sampleReport#} [])"
    by (rule run_go [OF _ r_acquire [of _ sampleReport "{#}"]]) (simp_all add: runState_def report_TryAcquire_def)
  then show ?thesis
    by (rule run_go [OF _ r_admit [of _ sampleReport "{#}"]]) (simp_all add: runState_def sampleJob_def)
qed

abbreviation acceptedAnd :: "rthread \<Rightarrow> rthread multiset" where
  "acceptedAnd t \<equiv> {#t, RReturned sampleReport ReportAccepted#}"

lemma run_waiting:
  "sample_reachable (runState 1 True (Draining 0) False
     (add_mset (SWait Background) (acceptedAnd (RRun sampleJob))) [ReportingStarted])"
proof -
  note 0 = run_accepted
  have 1: "sample_reachable (runState 1 False NotDraining False
      (add_mset (SClose Background) (acceptedAnd (RRun sampleJob))) [ReportingStarted])"
    by (rule run_go [OF 0 s_call]) (simp add: runState_def add_mset_commute)
  have 2: "sample_reachable (runState 1 True NotDraining False
      (add_mset (SStart Background) (acceptedAnd (RRun sampleJob))) [ReportingStarted])"
    by (rule run_go [OF 1 s_close [of _ Background "acceptedAnd (RRun sampleJob)"]]) (simp_all add: runState_def)
  show ?thesis
    by (rule run_go [OF 2 s_start [of _ Background "acceptedAnd (RRun sampleJob)"]]) (simp_all add: runState_def)
qed

lemma run_drained:
  "sample_reachable (runState 1 True Drained True
     (add_mset (SReturned Background None) (acceptedAnd (RRecover sampleJob None)))
     (sampleEvents @ [ReportingFinished]))"
proof -
  let ?W = "{#SWait Background, RReturned sampleReport ReportAccepted#}"
  have 1: "sample_reachable (runState 1 True (Draining 0) False (add_mset (RFinish sampleJob None) ?W) sampleEvents)"
    by (rule run_go [OF run_waiting r_run [of _ sampleJob ?W, OF _ sampleReport_run]])
       (simp_all add: runState_def sampleEvents_def add_mset_commute)
  have 2: "sample_reachable (runState 1 True (Draining 0) False (add_mset (RRelease sampleJob None) ?W)
      (sampleEvents @ [ReportingFinished]))"
    by (rule run_go [OF 1 r_finish [of _ sampleJob None ?W]]) (simp_all add: runState_def)
  have 3: "sample_reachable (runState 0 True (Draining 0) False (add_mset (RRecover sampleJob None) ?W)
      (sampleEvents @ [ReportingFinished]))"
    by (rule run_go [OF 2 r_release [of _ sampleJob None ?W]]) (simp_all add: runState_def report_Release_def)
  have 4: "sample_reachable (runState 1 True (Draining 1) False (add_mset (RRecover sampleJob None) ?W)
      (sampleEvents @ [ReportingFinished]))"
    by (rule run_go [OF 3 d_take [of _ 0]]) (simp_all add: runState_def report_DrainSend_def)
  have 5: "sample_reachable (runState 1 True Drained False (add_mset (RRecover sampleJob None) ?W)
      (sampleEvents @ [ReportingFinished]))"
    by (rule run_go [OF 4 d_end [of _ 1]]) (simp_all add: runState_def)
  show ?thesis
    by (rule run_go [OF 5 s_drained [of _ Background "acceptedAnd (RRecover sampleJob None)"]])
       (simp_all add: runState_def add_mset_commute)
qed

theorem reporter_bounded_witness:
  "int (num runsReport (runState 1 False NotDraining False
     {#RReturned sampleReport ReportAccepted, RRun sampleJob#} [ReportingStarted])) \<le> 1"
  using reporter_bounded [OF run_accepted] by (simp add: oneCall_def)

lemma reporter_closed_accepts_nothing_sample:
  "num accepted (runState 1 True Drained True
     {#RReturned sampleReport ReportShuttingDown#} (reject ''p&1'' ReportShuttingDown)) = 0"
proof -
  let ?s = "runState 1 True Drained True {#RTry sampleReport#} []"
  let ?t = "runState 1 True Drained True {#RReturned sampleReport ReportShuttingDown#}
    (reject ''p&1'' ReportShuttingDown)"
  have "rstep (\<lambda>_. ''1.5'') ?s ?t"
    using r_closed [of ?s sampleReport "{#}" "\<lambda>_. ''1.5''"] by (simp add: runState_def sampleReport_def)
  then have "(rstep (\<lambda>_. ''1.5''))\<^sup>*\<^sup>* ?s ?t" by blast
  from reporter_closed_accepts_nothing [OF this] show ?thesis by (simp add: runState_def num_def)
qed

theorem reporter_shutdown_drains_witness:
  "num accepted (runState 1 True Drained True
     (add_mset (SReturned Background None) (acceptedAnd (RRecover sampleJob None)))
     (sampleEvents @ [ReportingFinished])) =
   num afterReport (runState 1 True Drained True
     (add_mset (SReturned Background None) (acceptedAnd (RRecover sampleJob None)))
     (sampleEvents @ [ReportingFinished]))"
  using reporter_shutdown_drains [OF run_drained, of Background, OF _ rtranclp.rtrancl_refl]
  by (simp add: runState_def)

theorem reporter_metrics_balance_witness:
  "occurs isRejection (runState 1 True Drained True
     (add_mset (SReturned Background None) (acceptedAnd (RRecover sampleJob None)))
     (sampleEvents @ [ReportingFinished])) = 0"
  using reporter_metrics_balance [OF run_drained] by (simp add: num_def runState_def)

lemma reporter_shutdown_can_complete_sample:
  "\<exists>t. (rstep (\<lambda>_. ''1.5''))\<^sup>*\<^sup>* (runState 1 True (Draining 0) False
     (add_mset (SWait Background) (acceptedAnd (RRun sampleJob))) [ReportingStarted]) t \<and>
     SReturned Background None \<in># rs_threads t"
  by (rule reporter_shutdown_can_complete [OF run_waiting]) (simp add: runState_def)

end
