(* ===== verification/Quiescence.thy ===== *)
theory Quiescence
  imports EnricherSystem Reporter
begin

text \<open>
  Termination of the goroutines of \<^verbatim>\<open>enrichment/resolver.go\<close> and \<^verbatim>\<open>reporting/reporter.go\<close>: without new
  calls every run is finite, whatever the scheduler does, and it only ends when every call has
  returned. The argument is a locale, interpreted on both step relations.
\<close>

section \<open>Runs without arrivals\<close>

text \<open>
  A step that is not the arrival of a call takes away from the work that is left; as long as
  the system is not at rest some such step is possible; and no step loses a call.
\<close>

locale quiescing =
  fixes step arrives :: "'s \<Rightarrow> 's \<Rightarrow> bool" and reached atRest :: "'s \<Rightarrow> bool" and work calls :: "'s \<Rightarrow> nat"
  assumes stays: "reached s \<Longrightarrow> step s t \<Longrightarrow> reached t"
    and works: "reached s \<Longrightarrow> step s t \<Longrightarrow> \<not> arrives s t \<Longrightarrow> work t < work s \<and> calls t = calls s"
    and moves_on: "reached s \<Longrightarrow> \<not> atRest s \<Longrightarrow> \<exists>t. step s t \<and> \<not> arrives s t"
begin

lemma run_bounded:
  "((\<lambda>s t. step s t \<and> \<not> arrives s t) ^^ n) s t \<Longrightarrow> reached s \<Longrightarrow>
    reached t \<and> n + work t \<le> work s \<and> calls t = calls s"
proof (induction n arbitrary: t)
  case (Suc n)
  then obtain u where u: "((\<lambda>s t. step s t \<and> \<not> arrives s t) ^^ n) s u" "step u t" "\<not> arrives u t" by auto
  with Suc have "reached u" "n + work u \<le> work s" "calls u = calls s" by auto
  with stays [OF this(1) u(2)] works [OF this(1) u(2,3)] show ?case by simp
qed simp

lemma run_ends:
  assumes "((\<lambda>s t. step s t \<and> \<not> arrives s t) ^^ n) s t" "reached s"
  shows "n \<le> work s \<and> calls t = calls s \<and> (atRest t \<or> (\<exists>u. step t u \<and> \<not> arrives t u))"
  using run_bounded [OF assms] moves_on by (metis add_leD1)

lemma comes_to_rest: "reached s \<Longrightarrow> \<exists>t. step\<^sup>*\<^sup>* s t \<and> atRest t \<and> calls t = calls s"
proof (induction "work s" arbitrary: s rule: less_induct)
  case less
  show ?case
  proof (cases "atRest s")
    case False
    with moves_on [OF less.prems] obtain t where t: "step s t" "\<not> arrives s t" by blast
    with less.hyps [OF conjunct1 [OF works [OF less.prems t]] stays [OF less.prems t(1)]] works [OF less.prems t]
    show ?thesis by (metis converse_rtranclp_into_rtranclp)
  qed auto
qed

end

text \<open>How many steps a drain still takes, at most.\<close>

primrec drainSteps :: "nat \<Rightarrow> drain \<Rightarrow> nat" where
  "drainSteps c NotDraining = c + 2"
| "drainSteps c (Draining k) = Suc (c - k)"
| "drainSteps c Drained = 0"

section \<open>The enricher\<close>

definition arrival :: "'c system \<Rightarrow> 'c system \<Rightarrow> bool" where
  "arrival s t \<longleftrightarrow>
     (\<exists>c req. t = go s (add_mset (ECall c req) (sy_threads s)) []) \<or>
     (\<exists>c. t = go s (add_mset (ZClose c) (sy_threads s)) [])"

fun caller :: "ethread \<Rightarrow> bool" where
  "caller (BResolve _ _ _) = False" | "caller (BSend _ _ _ _) = False" | "caller (BStore _ _ _) = False"
| "caller (BFinish _) = False" | "caller (BRelease _) = False" | "caller (BExit _) = False"
| "caller _ = True"

fun finished :: "ethread \<Rightarrow> bool" where
  "finished (EReturned _) = True" | "finished (BExit _) = True" | "finished (ZReturned _ _) = True"
| "finished _ = False"

fun ecost :: "ethread \<Rightarrow> nat" where
  "ecost (ECall _ _) = 12" | "ecost (EOpen _ _) = 11" | "ecost (ESyncMark _ _) = 2" | "ecost (ESync _ _) = 1"
| "ecost (EAcquire _ _ _) = 10" | "ecost (ERefused _) = 1" | "ecost (ERecheck _ _ _) = 9" | "ecost (EDecline _) = 1"
| "ecost (EMark _ _ _) = 8" | "ecost (ELaunch _ _ _) = 7" | "ecost (EWait _ _) = 1"
| "ecost (BResolve _ _ _) = 5" | "ecost (BSend _ _ _ _) = 4" | "ecost (BStore _ _ _) = 3"
| "ecost (BFinish _) = 2" | "ecost (BRelease _) = 1"
| "ecost (ZClose _) = 3" | "ecost (ZStart _) = 2" | "ecost (ZWait _) = 1"
| "ecost _ = 0"

definition ework :: "'c system \<Rightarrow> nat" where
  "ework s = (\<Sum>t\<in>#sy_threads s. ecost t) + drainSteps (lim_cap (sy_limiter s)) (sy_drain s)"

definition eatRest :: "'c system \<Rightarrow> bool" where
  "eatRest s \<longleftrightarrow> filter_mset (\<lambda>t. \<not> finished t) (sy_threads s) = {#} \<and> (\<forall>k. sy_drain s \<noteq> Draining k)"

lemma ecost_after: "ecost (afterResolve cc job r) \<le> 3" "ecost (afterOpen c d) \<le> 10"
  by (simp_all add: afterResolve_def afterOpen_def split: sum.splits decision.splits)

lemma caller_after: "\<not> caller (afterResolve cc job r)" "caller (afterOpen c d)"
  by (simp_all add: afterResolve_def afterOpen_def split: sum.splits decision.splits)

lemma ework_step:
  assumes "estep e s t" "\<not> arrival s t"
  shows "ework t < ework s \<and> many caller t = many caller s"
  using assms
proof cases
  case e_call
  with assms(2) show ?thesis by (auto simp: arrival_def)
next
  case z_call
  with assms(2) show ?thesis by (auto simp: arrival_def)
next
  case (e_decide c req T d evs s')
  with ecost_after(2) [of c d] caller_after(2) [of c d] show ?thesis by (simp add: ework_def many_def)
next
  case (b_resolve cc job T answer duration evs r)
  with ecost_after(1) [of cc job r] caller_after(1) [of cc job r] show ?thesis by (simp add: ework_def many_def)
next
  case (b_send cc job i r T)
  with ecost_after(1) [of cc job r] caller_after(1) [of cc job r] show ?thesis by (simp add: ework_def many_def)
qed (auto simp: ework_def many_def limiter_caps split: drain.splits)

lemma arrival_ework: "arrival s t \<Longrightarrow> ework s \<le> ework t"
  by (auto simp: arrival_def ework_def)


lemma emoveI: "estep e s t \<Longrightarrow> ework t < ework s \<Longrightarrow> \<exists>t. estep e s t \<and> \<not> arrival s t"
  using arrival_ework by fastforce

lemma arrival_emeasure: "arrival s t \<Longrightarrow> emeasure t = emeasure s"
  by (auto simp: arrival_def emeasure_def)

text \<open>
  Where a goroutine is: done, on its way to a decision, between a permit and the return to its
  caller, in the background, or shutting down. From each of these places it can move.
\<close>

fun stage :: "ethread \<Rightarrow> nat" where
  "stage (EReturned _) = 0" | "stage (BExit _) = 0" | "stage (ZReturned _ _) = 0"
| "stage (ECall _ _) = 1" | "stage (EOpen _ _) = 1" | "stage (ESyncMark _ _) = 1" | "stage (ESync _ _) = 1"
| "stage (EAcquire _ _ _) = 1" | "stage (ERefused _) = 1"
| "stage (ERecheck _ _ _) = 2" | "stage (EDecline _) = 2" | "stage (EMark _ _ _) = 2" | "stage (ELaunch _ _ _) = 2"
| "stage (EWait _ _) = 2"
| "stage (BResolve _ _ _) = 3" | "stage (BSend _ _ _ _) = 3" | "stage (BStore _ _ _) = 3" | "stage (BFinish _) = 3"
| "stage (BRelease _) = 3"
| "stage (ZClose _) = 4" | "stage (ZStart _) = 4" | "stage (ZWait _) = 4"

lemma stages: "\<not> finished t \<Longrightarrow> stage t = 1 \<or> stage t = 2 \<or> stage t = 3 \<or> stage t = 4"
  by (cases t) simp_all

lemma eentry_moves:
  assumes t: "sy_threads s = add_mset t T" "stage t = 1"
  shows "\<exists>u. estep e s u \<and> \<not> arrival s u"
proof -
  note m = ework_def limiter_caps
  show ?thesis
  proof (cases t)
    case (ECall c req)
    then show ?thesis
      using emoveI [OF e_closed [OF t(1) [unfolded ECall]]] emoveI [OF e_open [OF t(1) [unfolded ECall]]] t(1)
      by (cases "sy_closing s") (simp_all add: m)
  next
    case (EOpen c req)
    obtain d evs s' where k: "enrichOpen e c req (sy_cache s) = (d, evs, s')" by (metis prod_cases3)
    show ?thesis
      by (rule emoveI [OF e_decide [OF t(1) [unfolded EOpen] k]]) (use t EOpen ecost_after(2) [of c d] in \<open>auto simp: m\<close>)
  next
    case (ESyncMark c job)
    obtain evs s' where k: "markInProgress e c job (sy_cache s) = (evs, s')" by force
    show ?thesis by (rule emoveI [OF e_syncMark [OF t(1) [unfolded ESyncMark] k]]) (use t ESyncMark in \<open>auto simp: m\<close>)
  next
    case (ESync c job)
    obtain r evs s' where k: "runBounded e 0 c job (Inl Canceled) 0 (sy_cache s) = (r, evs, s')" by (metis prod_cases3)
    show ?thesis by (rule emoveI [OF e_sync [OF t(1) [unfolded ESync] k]]) (use t ESync in \<open>auto simp: m\<close>)
  next
    case (EAcquire c plan job)
    obtain b l where k: "TryAcquire (sy_limiter s) = (b, l)" by force
    then show ?thesis
      using emoveI [OF e_acquire [OF t(1) [unfolded EAcquire], of l]] emoveI [OF e_full [OF t(1) [unfolded EAcquire], of l]]
        t(1) EAcquire
      by (cases b) (simp_all add: m)
  next
    case (ERefused job)
    then show ?thesis
      using emoveI [OF e_refused_closing [OF t(1) [unfolded ERefused]]] emoveI [OF e_refused_full [OF t(1) [unfolded ERefused]]] t(1)
      by (cases "sy_closing s") (simp_all add: m)
  qed (use t(2) in auto)
qed

lemma eadmitted_moves:
  assumes reach: "enricher_reachable e s" and t: "sy_threads s = add_mset t T" "stage t = 2"
  shows "\<exists>u. estep e s u \<and> \<not> arrival s u"
proof -
  note m = ework_def limiter_caps
  show ?thesis
  proof (cases t)
    case (ERecheck c plan job)
    then show ?thesis
      using emoveI [OF e_admit [OF t(1) [unfolded ERecheck]]] emoveI [OF e_decline [OF t(1) [unfolded ERecheck]]] t(1)
      by (cases "sy_closing s") (simp_all add: m)
  next
    case (EDecline job)
    with release_ready [OF reach, of t] t(1) obtain l where l: "Release (sy_limiter s) = Some l" by auto
    show ?thesis by (rule emoveI [OF e_giveBack [OF t(1) [unfolded EDecline] l]]) (use t EDecline l in \<open>auto simp: m\<close>)
  next
    case (EMark c plan job)
    obtain evs s' where k: "markInProgress e c job (sy_cache s) = (evs, s')" by force
    show ?thesis by (rule emoveI [OF e_mark [OF t(1) [unfolded EMark] k]]) (use t EMark in \<open>auto simp: m\<close>)
  next
    case (ELaunch c plan job)
    obtain evs r where k: "waitExpired (rj_partnerID job) = (evs, r)" by force
    show ?thesis
      using emoveI [OF e_launch_async [OF t(1) [unfolded ELaunch] _ k]] emoveI [OF e_launch_hybrid [OF t(1) [unfolded ELaunch]]] t(1) ELaunch
      by (cases "plan_mode plan = WaitModeAsync") (simp_all add: m)
  next
    case (EWait i p)
    obtain evs r where k: "waitExpired p = (evs, r)" by force
    show ?thesis
      using emoveI [OF e_receive [OF t(1) [unfolded EWait]]] emoveI [OF e_expire [OF t(1) [unfolded EWait] _ k]] t(1) EWait
      by (cases "sy_channels s i") (simp_all add: m)
  qed (use t(2) in auto)
qed

lemma ebackground_moves:
  assumes reach: "enricher_reachable e s" and t: "sy_threads s = add_mset t T" "stage t = 3"
  shows "\<exists>u. estep e s u \<and> \<not> arrival s u"
proof -
  note m = ework_def limiter_caps
  show ?thesis
  proof (cases t)
    case (BResolve cc job i)
    obtain evs r where k: "resolve e job (Inl Canceled) 0 = (evs, r)" by force
    show ?thesis
      using emoveI [OF b_resolve [of s cc job T, OF _ k]] emoveI [OF b_resolve_hybrid [of s cc job _ T, OF _ k]]
        t(1) BResolve ecost_after(1) [of cc job r]
      by (cases i) (simp_all add: m)
  next
    case (BSend cc job i r)
    with send_ready [OF reach, of cc job i r] t(1) have k: "sy_channels s i = None" by simp
    show ?thesis
      by (rule emoveI [OF b_send [OF t(1) [unfolded BSend] k]]) (use t BSend ecost_after(1) [of cc job r] in \<open>auto simp: m\<close>)
  next
    case (BStore cc job result)
    obtain evs s' where k: "storeResult e 0 cc job result (sy_cache s) = (evs, s')" by force
    show ?thesis by (rule emoveI [OF b_store [OF t(1) [unfolded BStore] k]]) (use t BStore in \<open>auto simp: m\<close>)
  next
    case (BFinish job)
    show ?thesis by (rule emoveI [OF b_finish [OF t(1) [unfolded BFinish]]]) (use t BFinish in \<open>auto simp: m\<close>)
  next
    case (BRelease job)
    with release_ready [OF reach, of t] t(1) obtain l where l: "Release (sy_limiter s) = Some l" by auto
    show ?thesis by (rule emoveI [OF b_release [OF t(1) [unfolded BRelease] l]]) (use t BRelease l in \<open>auto simp: m\<close>)
  qed (use t(2) in auto)
qed

lemma eshutdown_moves:
  assumes reach: "enricher_reachable e s" and t: "sy_threads s = add_mset t T" "stage t = 4"
  shows "\<exists>u. estep e s u \<and> \<not> arrival s u"
proof (cases t)
  case (ZClose c)
  show ?thesis by (rule emoveI [OF z_close [OF t(1) [unfolded ZClose]]]) (use t ZClose in \<open>auto simp: ework_def\<close>)
next
  case (ZStart c)
  show ?thesis
    by (rule emoveI [OF z_start [OF t(1) [unfolded ZStart]]]) (use t ZStart in \<open>auto simp: ework_def split: drain.split\<close>)
next
  case (ZWait c)
  show ?thesis
  proof (cases "sy_drain s = Drained")
    case True
    show ?thesis by (rule emoveI [OF z_drained [OF t(1) [unfolded ZWait] True]]) (use t ZWait in \<open>auto simp: ework_def\<close>)
  next
    case False
    have "ZWait c \<in># sy_threads s" using t(1) ZWait by simp
    from enricher_progress [OF reach this False] arrival_emeasure show ?thesis by fastforce
  qed
qed (use t(2) in auto)

lemma enricher_moves:
  assumes reach: "enricher_reachable e s" and rest: "\<not> eatRest s"
  shows "\<exists>t. estep e s t \<and> \<not> arrival s t"
proof (cases "\<exists>t. t \<in># sy_threads s \<and> \<not> finished t")
  case True
  then obtain t T where t: "sy_threads s = add_mset t T" "\<not> finished t" by (auto dest: multi_member_split)
  from stages [OF t(2)] show ?thesis
    using eentry_moves [OF t(1)] eadmitted_moves [OF reach t(1)] ebackground_moves [OF reach t(1)]
      eshutdown_moves [OF reach t(1)] by blast
next
  case False
  with rest obtain k where k: "sy_drain s = Draining k" by (auto simp: eatRest_def filter_mset_eq_mempty_iff)
  from False have "\<not> (\<exists>t. t \<in># sy_threads s \<and> eweight t > 0)" by (auto elim!: finished.elims)
  from edrainer_step [OF _ this k] enr.reachable_inv [OF reach] arrival_emeasure show ?thesis by fastforce
qed

interpretation equiesce: quiescing "estep e" arrival "enricher_reachable e" eatRest ework "many caller" for e
proof (unfold_locales, goal_cases)
  case 1
  then show ?case by (rule enr.reachable.move)
next
  case 2
  then show ?case by (intro ework_step)
next
  case 3
  then show ?case by (intro enricher_moves)
qed

lemma atRest_returned: "eatRest s \<Longrightarrow> many (\<lambda>t. caller t \<and> finished t) s = many caller s"
  unfolding eatRest_def many_def
  by (metis (mono_tags, lifting) filter_mset_cong filter_mset_eq_mempty_iff)

text \<open>
  C10. The enricher's goroutines terminate and no call is lost. However the scheduler
  interleaves them and whatever the API and the timers do, a run without new calls has at
  most \<open>ework s\<close> steps; it can only stop when the system is at rest, and then every call of
  \<^verbatim>\<open>Enrich\<close> and \<^verbatim>\<open>Shutdown\<close> has returned and every background goroutine has ended.
\<close>

theorem enricher_terminates:
  assumes "enricher_reachable e s" and "((\<lambda>s t. estep e s t \<and> \<not> arrival s t) ^^ n) s t"
  shows "n \<le> ework s \<and>
    ((\<exists>u. estep e t u \<and> \<not> arrival t u) \<or>
     filter_mset (\<lambda>x. \<not> finished x) (sy_threads t) = {#} \<and> many (\<lambda>x. caller x \<and> finished x) t = many caller s)"
  using equiesce.run_ends [OF assms(2,1)] atRest_returned [of t] by (auto simp: eatRest_def)

section \<open>The reporter\<close>

definition submission :: "reporter \<Rightarrow> reporter \<Rightarrow> bool" where
  "submission s t \<longleftrightarrow>
     (\<exists>req. t = moves s (add_mset (RTry req) (rs_threads s)) []) \<or>
     (\<exists>c. t = moves s (add_mset (SClose c) (rs_threads s)) [])"

fun submitter :: "rthread \<Rightarrow> bool" where
  "submitter (RRun _) = False" | "submitter (RFinish _ _) = False" | "submitter (RRelease _ _) = False"
| "submitter (RRecover _ _) = False" | "submitter (RExit _) = False" | "submitter _ = True"

fun ended :: "rthread \<Rightarrow> bool" where
  "ended (RReturned _ _) = True" | "ended (RExit _) = True" | "ended (SReturned _ _) = True" | "ended _ = False"

fun rcost :: "rthread \<Rightarrow> nat" where
  "rcost (RTry _) = 7" | "rcost (RAcquire _) = 6" | "rcost (RRefused _) = 1" | "rcost (RRecheck _) = 5"
| "rcost (RDecline _) = 1" | "rcost (RRun _) = 4" | "rcost (RFinish _ _) = 3" | "rcost (RRelease _ _) = 2"
| "rcost (RRecover _ _) = 1" | "rcost (SClose _) = 3" | "rcost (SStart _) = 2" | "rcost (SWait _) = 1"
| "rcost _ = 0"

definition rwork :: "reporter \<Rightarrow> nat" where
  "rwork s = (\<Sum>t\<in>#rs_threads s. rcost t) + drainSteps (rl_cap (rs_limiter s)) (rs_drain s)"

definition ratRest :: "reporter \<Rightarrow> bool" where
  "ratRest s \<longleftrightarrow> filter_mset (\<lambda>t. \<not> ended t) (rs_threads s) = {#} \<and> (\<forall>k. rs_drain s \<noteq> Draining k)"

lemma report_caps:
  "report_TryAcquire l = (b, l') \<Longrightarrow> rl_cap l' = rl_cap l" "report_Release l = Some l' \<Longrightarrow> rl_cap l' = rl_cap l"
  "report_DrainSend l = Some l' \<Longrightarrow> rl_cap l' = rl_cap l"
  using rl.attempt_cap [of l] rl.release_len [of l l'] rl.send_len [of l l'] by auto

lemma rwork_step:
  assumes "rstep f s t" "\<not> submission s t"
  shows "rwork t < rwork s \<and> num submitter t = num submitter s"
  using assms
proof cases
  case r_call
  with assms(2) show ?thesis by (auto simp: submission_def)
next
  case s_call
  with assms(2) show ?thesis by (auto simp: submission_def)
qed (auto simp: rwork_def num_def report_caps split: drain.splits)

lemma submission_rwork: "submission s t \<Longrightarrow> rwork s \<le> rwork t"
  by (auto simp: submission_def rwork_def)

lemma submission_rmeasure: "submission s t \<Longrightarrow> rmeasure t = rmeasure s"
  by (auto simp: submission_def rmeasure_def)

lemma rmoveI: "rstep f s t \<Longrightarrow> rwork t < rwork s \<Longrightarrow> \<exists>t. rstep f s t \<and> \<not> submission s t"
  using submission_rwork by fastforce

lemma rcaller_moves:
  assumes reach: "reporter_reachable f config s" and t: "rs_threads s = add_mset t T"
    and at: "t = RTry req \<or> t = RAcquire req \<or> t = RRefused req \<or> t = RRecheck req \<or> t = RDecline req"
  shows "\<exists>u. rstep f s u \<and> \<not> submission s u"
proof -
  note m = rwork_def report_caps
  from at show ?thesis
  proof (elim disjE)
    assume t': "t = RTry req"
    then show ?thesis
      using rmoveI [OF r_closed [OF t [unfolded t']]] rmoveI [OF r_open [OF t [unfolded t']]] t
      by (cases "rs_closing s") (simp_all add: m)
  next
    assume t': "t = RAcquire req"
    obtain b l where "report_TryAcquire (rs_limiter s) = (b, l)" by force
    then show ?thesis
      using rmoveI [OF r_acquire [OF t [unfolded t'], of l]] rmoveI [OF r_full [OF t [unfolded t'], of l]] t t'
      by (cases b) (simp_all add: m)
  next
    assume t': "t = RRefused req"
    then show ?thesis
      using rmoveI [OF r_refused_closing [OF t [unfolded t']]] rmoveI [OF r_refused_full [OF t [unfolded t']]] t
      by (cases "rs_closing s") (simp_all add: m)
  next
    assume t': "t = RRecheck req"
    then show ?thesis
      using rmoveI [OF r_admit [OF t [unfolded t']]] rmoveI [OF r_decline [OF t [unfolded t']]] t
      by (cases "rs_closing s") (simp_all add: m)
  next
    assume t': "t = RDecline req"
    with reporter_bounded_release [OF reach, of t] t obtain l where l: "report_Release (rs_limiter s) = Some l" by auto
    show ?thesis by (rule rmoveI [OF r_giveBack [OF t [unfolded t'] l]]) (use t t' l in \<open>auto simp: m\<close>)
  qed
qed

lemma rworker_moves:
  assumes reach: "reporter_reachable f config s" and t: "rs_threads s = add_mset t T" "\<not> submitter t" "\<not> ended t"
  shows "\<exists>u. rstep f s u \<and> \<not> submission s u"
proof -
  note m = rwork_def report_caps
  show ?thesis
  proof (cases t)
    case (RRun job)
    obtain evs p where r: "report job ApiOK 0 = (evs, p)" by force
    show ?thesis by (rule rmoveI [OF r_run [OF t(1) [unfolded RRun] r]]) (use t RRun in \<open>auto simp: m\<close>)
  next
    case (RFinish job p)
    show ?thesis by (rule rmoveI [OF r_finish [OF t(1) [unfolded RFinish]]]) (use t RFinish in \<open>auto simp: m\<close>)
  next
    case (RRelease job p)
    with reporter_bounded_release [OF reach, of t] t(1) obtain l where l: "report_Release (rs_limiter s) = Some l" by auto
    show ?thesis by (rule rmoveI [OF r_release [OF t(1) [unfolded RRelease] l]]) (use t RRelease l in \<open>auto simp: m\<close>)
  next
    case (RRecover job p)
    show ?thesis by (rule rmoveI [OF r_recover [OF t(1) [unfolded RRecover]]]) (use t RRecover in \<open>auto simp: m\<close>)
  qed (use t(2,3) in auto)
qed

lemma rshutdown_moves:
  assumes reach: "reporter_reachable f config s" and t: "rs_threads s = add_mset t T"
    and at: "t = SClose c \<or> t = SStart c \<or> t = SWait c"
  shows "\<exists>u. rstep f s u \<and> \<not> submission s u"
  using at
proof (elim disjE)
  assume t': "t = SClose c"
  show ?thesis by (rule rmoveI [OF s_close [OF t [unfolded t']]]) (use t t' in \<open>auto simp: rwork_def\<close>)
next
  assume t': "t = SStart c"
  show ?thesis
    by (rule rmoveI [OF s_start [OF t [unfolded t']]]) (use t t' in \<open>auto simp: rwork_def split: drain.split\<close>)
next
  assume t': "t = SWait c"
  show ?thesis
  proof (cases "rs_drain s = Drained")
    case True
    show ?thesis by (rule rmoveI [OF s_drained [OF t [unfolded t'] True]]) (use t t' in \<open>auto simp: rwork_def\<close>)
  next
    case False
    have "SWait c \<in># rs_threads s" using t t' by simp
    from reporter_progress [OF reach this False] submission_rmeasure show ?thesis by fastforce
  qed
qed

lemma reporter_moves:
  assumes reach: "reporter_reachable f config s" and rest: "\<not> ratRest s"
  shows "\<exists>t. rstep f s t \<and> \<not> submission s t"
proof (cases "\<exists>t. t \<in># rs_threads s \<and> \<not> ended t")
  case True
  then obtain t T where t: "rs_threads s = add_mset t T" "\<not> ended t" by (auto dest: multi_member_split)
  then show ?thesis
    using rcaller_moves [OF reach t(1)] rworker_moves [OF reach t(1)] rshutdown_moves [OF reach t(1)]
    by (cases t) auto
next
  case False
  with rest obtain k where k: "rs_drain s = Draining k" by (auto simp: ratRest_def filter_mset_eq_mempty_iff)
  from False have "\<not> (\<exists>t. t \<in># rs_threads s \<and> weight t > 0)" by (auto elim!: ended.elims)
  from rdrainer_step [OF _ this k] rep.reachable_inv [OF reach] submission_rmeasure show ?thesis by fastforce
qed

interpretation rquiesce: quiescing "rstep f" submission "reporter_reachable f config" ratRest rwork "num submitter"
  for f config
proof (unfold_locales, goal_cases)
  case 1
  then show ?case by (rule rep.reachable.move)
next
  case 2
  then show ?case by (intro rwork_step)
next
  case 3
  then show ?case by (intro reporter_moves)
qed

lemma ratRest_returned: "ratRest s \<Longrightarrow> num (\<lambda>t. submitter t \<and> ended t) s = num submitter s"
  unfolding ratRest_def num_def
  by (metis (mono_tags, lifting) filter_mset_cong filter_mset_eq_mempty_iff)

text \<open>
  C14. The reporter's goroutines terminate as well, panics of the API included: a run without
  new calls has at most \<open>rwork s\<close> steps, and when it stops every call of \<^verbatim>\<open>TryReport\<close> and
  \<^verbatim>\<open>Shutdown\<close> has returned and every report that was accepted has been sent and its goroutine
  ended.
\<close>

theorem reporter_terminates:
  assumes "reporter_reachable f config s" and "((\<lambda>s t. rstep f s t \<and> \<not> submission s t) ^^ n) s t"
  shows "n \<le> rwork s \<and>
    ((\<exists>u. rstep f t u \<and> \<not> submission t u) \<or>
     filter_mset (\<lambda>x. \<not> ended x) (rs_threads t) = {#} \<and> num (\<lambda>x. submitter x \<and> ended x) t = num submitter s)"
  using rquiesce.run_ends [OF assms(2,1)] ratRest_returned [of t] by (auto simp: ratRest_def)

section \<open>Two runs\<close>

theorem enricher_terminates_witness:
  "\<exists>s t :: unit system. estep oneSlot s t \<and> \<not> arrival s t \<and> ZWait Background \<in># sy_threads s \<and> 1 \<le> ework s \<and>
     ((\<exists>u. estep oneSlot t u \<and> \<not> arrival t u) \<or>
      filter_mset (\<lambda>x. \<not> finished x) (sy_threads t) = {#} \<and> many (\<lambda>x. caller x \<and> finished x) t = many caller s)"
proof -
  let ?W = "{#ZWait Background, expired#}"
  obtain s where s: "slots 1 True (Draining 0) (add_mset (BStore Background asyncJob unresolvedResult) ?W) s"
    using slots_waiting by (metis add_mset_commute)
  obtain evs s' where k: "storeResult oneSlot 0 Background asyncJob unresolvedResult (sy_cache s) = (evs, s')"
    by (meson surj_pair)
  let ?t = "(go s (add_mset (BFinish asyncJob) ?W) evs)\<lparr>sy_cache := s'\<rparr>"
  have step: "estep oneSlot s ?t" by (rule b_store [OF _ k]) (use s in \<open>simp add: slots_def\<close>)
  have "ework ?t < ework s" using s by (simp add: slots_def ework_def)
  with arrival_ework [of s ?t] have no: "\<not> arrival s ?t" by linarith
  then have "((\<lambda>s t. estep oneSlot s t \<and> \<not> arrival s t) ^^ 1) s ?t" using step by (simp add: eq_OO)
  from enricher_terminates [OF _ this] s step no show ?thesis
    by (intro exI [of _ s] exI [of _ ?t]) (simp add: slots_def)
qed

theorem reporter_terminates_witness:
  "num (\<lambda>x. submitter x \<and> ended x) (runState 1 True Drained True
     (add_mset (SReturned Background None) (acceptedAnd (RExit sampleJob))) (sampleEvents @ [ReportingFinished])) =
   num submitter (runState 1 True Drained True
     (add_mset (SReturned Background None) (acceptedAnd (RRecover sampleJob None))) (sampleEvents @ [ReportingFinished]))"
    (is "num _ ?t = num _ ?s")
proof -
  let ?f = "\<lambda>_ :: rat. ''1.5''"
  have step: "rstep ?f ?s ?t"
    using r_recover [of ?s sampleJob None "{#SReturned Background None, RReturned sampleReport ReportAccepted#}" ?f]
    by (simp add: runState_def add_mset_commute)
  have "rwork ?t < rwork ?s" by (simp add: runState_def rwork_def)
  with submission_rwork [of ?s ?t] have "\<not> submission ?s ?t" by linarith
  with step have "((\<lambda>s t. rstep ?f s t \<and> \<not> submission s t) ^^ 1) ?s ?t" by (simp add: eq_OO)
  note ended = reporter_terminates [OF run_drained this]
  have "rwork ?t = 0" by (simp add: runState_def rwork_def)
  with rwork_step [of ?f ?t] have "\<not> (\<exists>u. rstep ?f ?t u \<and> \<not> submission ?t u)" by fastforce
  with ended show ?thesis by blast
qed

end
