(* ===== verification/Stores.thy ===== *)
theory Stores
  imports IdentityCache
begin

text \<open>
  The implementations of the \<^verbatim>\<open>Store\<close> interface: \<^verbatim>\<open>integrations/redis\<close>, \<^verbatim>\<open>integrations/valkey\<close> and
  \<^verbatim>\<open>integrations/aerospike\<close>, with their configurations.

  The client libraries are records of functions on a state of their own type. A store adds to
  that state what its struct holds. The validation library is a record as well.
\<close>

text \<open>The whole interface: what the cache uses, and \<^verbatim>\<open>Close\<close>, which the host calls.\<close>

record 's Store = "'s store" +
  Store_Close :: "'s \<Rightarrow> go_error option \<times> 's"

section \<open>Configuration\<close>

subsection \<open>Rules of the validation library\<close>

text \<open>
  \<open>ValidateStruct\<close> gets the fields of a struct with their rules and returns the names of the
  fields in error (none: the result is nil). A field that is a struct with a \<^verbatim>\<open>Validate\<close>
  method of its own is given by the result of that method.
\<close>

datatype rule = Required | Min int | Max int | IsHost

datatype checked = CheckString string | CheckInt int | CheckStruct "string list"

record ozzo =
  ValidateStruct :: "(string \<times> checked \<times> rule list) list \<Rightarrow> string list"

text \<open>
  What its documentation says: every field in error is reported; \<^verbatim>\<open>Required\<close> refuses the zero
  value, which every other rule accepts.
\<close>

fun rulePasses :: "(string \<Rightarrow> bool) \<Rightarrow> checked \<Rightarrow> rule \<Rightarrow> bool" where
  "rulePasses host (CheckString s) Required = (s \<noteq> [])"
| "rulePasses host (CheckString s) IsHost = (s = [] \<or> host s)"
| "rulePasses host (CheckInt i) Required = (i \<noteq> 0)"
| "rulePasses host (CheckInt i) (Min n) = (i = 0 \<or> n \<le> i)"
| "rulePasses host (CheckInt i) (Max n) = (i = 0 \<or> i \<le> n)"
| "rulePasses host _ _ = True"

fun fieldPasses :: "(string \<Rightarrow> bool) \<Rightarrow> string \<times> checked \<times> rule list \<Rightarrow> bool" where
  "fieldPasses host (name, v, rules) \<longleftrightarrow>
     list_all (rulePasses host v) rules \<and> (case v of CheckStruct errs \<Rightarrow> errs = [] | _ \<Rightarrow> True)"

definition ozzo_documented :: "ozzo \<Rightarrow> (string \<Rightarrow> bool) \<Rightarrow> bool" where
  "ozzo_documented lib host \<longleftrightarrow>
     (\<forall>flds. ValidateStruct lib flds = map fst (filter (\<lambda>f. \<not> fieldPasses host f) flds))"

subsection \<open>Redis and Valkey\<close>

definition maxPort :: int where
  "maxPort = 65535"

definition defaultConnectTimeoutMs :: int where
  "defaultConnectTimeoutMs = 5000"

record RedisConfig =
  Redis_Host :: string
  Redis_Port :: int
  Redis_Password :: string
  Redis_ConnectTimeoutMs :: int

definition redis_ConnectTimeout :: "RedisConfig \<Rightarrow> duration" where
  "redis_ConnectTimeout config =
     (if Redis_ConnectTimeoutMs config \<le> 0 then mulDuration defaultConnectTimeoutMs time_Millisecond
      else mulDuration (Redis_ConnectTimeoutMs config) time_Millisecond)"

definition redis_Validate :: "ozzo \<Rightarrow> RedisConfig \<Rightarrow> string list" where
  "redis_Validate lib config = ValidateStruct lib
     [(''host'', CheckString (Redis_Host config), [Required, IsHost]),
      (''port'', CheckInt (Redis_Port config), [Required, Min 1, Max maxPort]),
      (''connect_timeout_ms'', CheckInt (Redis_ConnectTimeoutMs config), [Min 0])]"

record ValkeyConfig =
  Valkey_Host :: string
  Valkey_Port :: int
  Valkey_Password :: string
  Valkey_ConnectTimeoutMs :: int

definition valkey_ConnectTimeout :: "ValkeyConfig \<Rightarrow> duration" where
  "valkey_ConnectTimeout config =
     (if Valkey_ConnectTimeoutMs config \<le> 0 then mulDuration defaultConnectTimeoutMs time_Millisecond
      else mulDuration (Valkey_ConnectTimeoutMs config) time_Millisecond)"

definition valkey_Validate :: "ozzo \<Rightarrow> ValkeyConfig \<Rightarrow> string list" where
  "valkey_Validate lib config = ValidateStruct lib
     [(''host'', CheckString (Valkey_Host config), [Required, IsHost]),
      (''port'', CheckInt (Valkey_Port config), [Required, Min 1, Max maxPort]),
      (''connect_timeout_ms'', CheckInt (Valkey_ConnectTimeoutMs config), [Min 0])]"

subsection \<open>Aerospike\<close>

record AerospikePolicy =
  ConnectionQueueSize :: int
  MinConnectionsPerNode :: int
  Aerospike_ConnectTimeoutMs :: int
  IdleTimeoutMs :: int

record AerospikeConfig =
  Aerospike_Host :: string
  Aerospike_Port :: int
  Aerospike_Namespace :: string
  Aerospike_Set :: string
  Aerospike_Policy :: AerospikePolicy

definition policy_Validate :: "ozzo \<Rightarrow> AerospikePolicy \<Rightarrow> string list" where
  "policy_Validate lib policy = ValidateStruct lib
     [(''connection_queue_size'', CheckInt (ConnectionQueueSize policy), [Min 0]),
      (''min_connections_per_node'', CheckInt (MinConnectionsPerNode policy), [Min 0]),
      (''connect_timeout_ms'', CheckInt (Aerospike_ConnectTimeoutMs policy), [Min 0]),
      (''idle_timeout_ms'', CheckInt (IdleTimeoutMs policy), [Min 0])]"

definition aerospike_Validate :: "ozzo \<Rightarrow> AerospikeConfig \<Rightarrow> string list" where
  "aerospike_Validate lib config = ValidateStruct lib
     [(''host'', CheckString (Aerospike_Host config), [Required, IsHost]),
      (''port'', CheckInt (Aerospike_Port config), [Required, Min 1, Max maxPort]),
      (''namespace'', CheckString (Aerospike_Namespace config), [Required]),
      (''set'', CheckString (Aerospike_Set config), [Required]),
      (''client_policy'', CheckStruct (policy_Validate lib (Aerospike_Policy config)), [])]"

text \<open>The fields of the library's policy that the code sets; its other defaults stay as they are.\<close>

record asClientPolicy =
  asp_ConnectionQueueSize :: int
  asp_MinConnectionsPerNode :: int
  asp_LimitConnectionsToQueueSize :: bool
  asp_Timeout :: duration
  asp_IdleTimeout :: duration

definition orDefault :: "int \<Rightarrow> int \<Rightarrow> int" where
  "orDefault value fallback = (if value > 0 then value else fallback)"

definition defaultConnectionQueueSize :: int where
  "defaultConnectionQueueSize = 1024"

definition defaultMinConnectionsPerNode :: int where
  "defaultMinConnectionsPerNode = 3"

definition clientPolicy :: "asClientPolicy \<Rightarrow> AerospikePolicy \<Rightarrow> asClientPolicy" where
  "clientPolicy NewClientPolicy config =
     (let policy = NewClientPolicy
            \<lparr>asp_ConnectionQueueSize := orDefault (ConnectionQueueSize config) defaultConnectionQueueSize,
             asp_MinConnectionsPerNode := orDefault (MinConnectionsPerNode config) defaultMinConnectionsPerNode,
             asp_LimitConnectionsToQueueSize := True\<rparr>;
          policy = (if Aerospike_ConnectTimeoutMs config > 0
            then policy\<lparr>asp_Timeout := mulDuration (Aerospike_ConnectTimeoutMs config) time_Millisecond\<rparr>
            else policy)
      in if IdleTimeoutMs config > 0
         then policy\<lparr>asp_IdleTimeout := mulDuration (IdleTimeoutMs config) time_Millisecond\<rparr>
         else policy)"

section \<open>Redis\<close>

record 'b redisClient =
  rdb_Get :: "ctx \<Rightarrow> string \<Rightarrow> 'b \<Rightarrow> (go_error + bytes) \<times> 'b"
  rdb_Set :: "ctx \<Rightarrow> string \<Rightarrow> bytes \<Rightarrow> duration \<Rightarrow> 'b \<Rightarrow> go_error option \<times> 'b"
  rdb_Ping :: "ctx \<Rightarrow> 'b \<Rightarrow> go_error option \<times> 'b"
  rdb_Close :: "'b \<Rightarrow> go_error option \<times> 'b"
  rdb_isNil :: "go_error \<Rightarrow> bool"

record 'b redisStore =
  redis_client :: 'b
  redis_closed :: bool
  redis_closeErr :: "go_error option"

text \<open>\<^verbatim>\<open>net.JoinHostPort\<close>.\<close>

definition JoinHostPort :: "string \<Rightarrow> string \<Rightarrow> string" where
  "JoinHostPort host port =
     (if CHR '':'' \<in> set host then ''['' @ host @ '']:'' @ port else host @ '':'' @ port)"

definition redis_NewWithClient :: "'b \<Rightarrow> 'b redisStore" where
  "redis_NewWithClient b = \<lparr>redis_client = b, redis_closed = False, redis_closeErr = None\<rparr>"

text \<open>
  \<open>NewClient\<close> makes a client from address, password and dial timeout. A failed ping leaves a
  closed client behind, which is returned with the error.
\<close>

definition redis_New ::
  "'b redisClient \<Rightarrow> (string \<Rightarrow> string \<Rightarrow> duration \<Rightarrow> 'b) \<Rightarrow> int \<Rightarrow> RedisConfig \<Rightarrow>
     (go_error \<times> 'b) + 'b redisStore" where
  "redis_New lib NewClient now config =
     (let client = NewClient (JoinHostPort (Redis_Host config) (Itoa (Redis_Port config)))
            (Redis_Password config) (redis_ConnectTimeout config);
          (err, client) = rdb_Ping lib (WithTimeout now Background (redis_ConnectTimeout config)) client
      in case err of
           Some e \<Rightarrow> Inl (e, snd (rdb_Close lib client))
         | None \<Rightarrow> Inr (redis_NewWithClient client))"

definition redis_Close :: "'b redisClient \<Rightarrow> 'b redisStore \<Rightarrow> go_error option \<times> 'b redisStore" where
  "redis_Close lib store =
     (let store = (if redis_closed store then store
        else (case rdb_Close lib (redis_client store) of (err, b) \<Rightarrow>
          store\<lparr>redis_client := b, redis_closed := True, redis_closeErr := err\<rparr>))
      in (redis_closeErr store, store))"

definition redis_Get ::
  "'b redisClient \<Rightarrow> ctx \<Rightarrow> string \<Rightarrow> 'b redisStore \<Rightarrow> (go_error + bytes) \<times> 'b redisStore" where
  "redis_Get lib c key store =
     (case rdb_Get lib c key (redis_client store) of
        (Inl err, b) \<Rightarrow>
          (if rdb_isNil lib err then (Inr [], store\<lparr>redis_client := b\<rparr>)
           else (Inl err, store\<lparr>redis_client := b\<rparr>))
      | (Inr value, b) \<Rightarrow> (Inr value, store\<lparr>redis_client := b\<rparr>))"

definition redis_Put ::
  "'b redisClient \<Rightarrow> ctx \<Rightarrow> string \<Rightarrow> bytes \<Rightarrow> duration \<Rightarrow> 'b redisStore \<Rightarrow>
     go_error option \<times> 'b redisStore" where
  "redis_Put lib c key value ttl store =
     (case rdb_Set lib c key value ttl (redis_client store) of
        (err, b) \<Rightarrow> (err, store\<lparr>redis_client := b\<rparr>))"

definition redisOps :: "'b redisClient \<Rightarrow> 'b redisStore Store" where
  "redisOps lib = \<lparr>Store_Get = redis_Get lib, Store_Put = redis_Put lib, Store_Close = redis_Close lib\<rparr>"

section \<open>Valkey\<close>

text \<open>The commands that the code builds; a lifetime is present when \<^verbatim>\<open>Px\<close> was called.\<close>

datatype valkeyCommand = ValkeyGet string | ValkeySet string bytes "duration option"

record 'b valkeyClient =
  vk_Do :: "ctx \<Rightarrow> valkeyCommand \<Rightarrow> 'b \<Rightarrow> (go_error + bytes) \<times> 'b"
  vk_Close :: "'b \<Rightarrow> 'b"
  vk_isNil :: "go_error \<Rightarrow> bool"

record 'b valkeyStore =
  valkey_client :: 'b
  valkey_closed :: bool

definition valkey_NewWithClient :: "'b \<Rightarrow> 'b valkeyStore" where
  "valkey_NewWithClient b = \<lparr>valkey_client = b, valkey_closed = False\<rparr>"

record valkeyOption =
  vo_InitAddress :: "string list"
  vo_Password :: string
  vo_DialTimeout :: duration
  vo_DisableCache :: bool
  vo_DisableRetry :: bool

definition valkey_New ::
  "(valkeyOption \<Rightarrow> go_error + 'b) \<Rightarrow> ValkeyConfig \<Rightarrow> go_error + 'b valkeyStore" where
  "valkey_New NewClient config =
     (case NewClient
        \<lparr>vo_InitAddress = [JoinHostPort (Valkey_Host config) (Itoa (Valkey_Port config))],
         vo_Password = Valkey_Password config, vo_DialTimeout = valkey_ConnectTimeout config,
         vo_DisableCache = True, vo_DisableRetry = True\<rparr> of
        Inl err \<Rightarrow> Inl err
      | Inr client \<Rightarrow> Inr (valkey_NewWithClient client))"

definition valkey_Close :: "'b valkeyClient \<Rightarrow> 'b valkeyStore \<Rightarrow> go_error option \<times> 'b valkeyStore" where
  "valkey_Close lib store =
     (None,
      if valkey_closed store then store
      else store\<lparr>valkey_client := vk_Close lib (valkey_client store), valkey_closed := True\<rparr>)"

definition valkey_Get ::
  "'b valkeyClient \<Rightarrow> ctx \<Rightarrow> string \<Rightarrow> 'b valkeyStore \<Rightarrow> (go_error + bytes) \<times> 'b valkeyStore" where
  "valkey_Get lib c key store =
     (case vk_Do lib c (ValkeyGet key) (valkey_client store) of
        (Inl err, b) \<Rightarrow>
          (if vk_isNil lib err then (Inr [], store\<lparr>valkey_client := b\<rparr>)
           else (Inl err, store\<lparr>valkey_client := b\<rparr>))
      | (Inr value, b) \<Rightarrow> (Inr value, store\<lparr>valkey_client := b\<rparr>))"

definition valkey_Put ::
  "'b valkeyClient \<Rightarrow> ctx \<Rightarrow> string \<Rightarrow> bytes \<Rightarrow> duration \<Rightarrow> 'b valkeyStore \<Rightarrow>
     go_error option \<times> 'b valkeyStore" where
  "valkey_Put lib c key value ttl store =
     (let command = (if ttl \<le> 0 then ValkeySet key value None else ValkeySet key value (Some ttl))
      in case vk_Do lib c command (valkey_client store) of
           (Inl err, b) \<Rightarrow> (Some err, store\<lparr>valkey_client := b\<rparr>)
         | (Inr _, b) \<Rightarrow> (None, store\<lparr>valkey_client := b\<rparr>))"

definition valkeyOps :: "'b valkeyClient \<Rightarrow> 'b valkeyStore Store" where
  "valkeyOps lib = \<lparr>Store_Get = valkey_Get lib, Store_Put = valkey_Put lib, Store_Close = valkey_Close lib\<rparr>"

section \<open>Aerospike\<close>

definition valueBin :: string where
  "valueBin = ''v''"

datatype binValue = BinString string | BinBytes bytes | BinOther

datatype existsAction = UPDATE | REPLACE

record writePolicy =
  wp_Generation :: int
  wp_Expiration :: int
  wp_RecordExistsAction :: existsAction

text \<open>
  Keys are made by the library from namespace, set and user key. A read gives an error, no
  record, or a record with its bins.
\<close>

record ('k, 'b) aerospikeClient =
  as_NewKey :: "string \<Rightarrow> string \<Rightarrow> string \<Rightarrow> go_error + 'k"
  as_Get :: "'k \<Rightarrow> string list \<Rightarrow> 'b \<Rightarrow> (go_error + (string \<rightharpoonup> binValue) option) \<times> 'b"
  as_Put :: "writePolicy \<Rightarrow> 'k \<Rightarrow> (string \<rightharpoonup> binValue) \<Rightarrow> 'b \<Rightarrow> go_error option \<times> 'b"
  as_Close :: "'b \<Rightarrow> 'b"
  as_isKeyNotFound :: "go_error \<Rightarrow> bool"

record 'b aerospikeStore =
  aero_client :: 'b
  aero_namespace :: string
  aero_set :: string
  aero_ownsClient :: bool
  aero_closed :: bool

definition aerospike_NewWithClient :: "'b \<Rightarrow> string \<Rightarrow> string \<Rightarrow> 'b aerospikeStore" where
  "aerospike_NewWithClient b namespace st =
     \<lparr>aero_client = b, aero_namespace = namespace, aero_set = st, aero_ownsClient = True, aero_closed = False\<rparr>"

definition aerospike_NewWithSharedClient :: "'b \<Rightarrow> string \<Rightarrow> string \<Rightarrow> 'b aerospikeStore" where
  "aerospike_NewWithSharedClient b namespace st =
     \<lparr>aero_client = b, aero_namespace = namespace, aero_set = st, aero_ownsClient = False, aero_closed = False\<rparr>"

definition aerospike_New ::
  "asClientPolicy \<Rightarrow> (asClientPolicy \<Rightarrow> string \<Rightarrow> int \<Rightarrow> go_error + 'b) \<Rightarrow> ('b \<Rightarrow> 'b) \<Rightarrow> AerospikeConfig \<Rightarrow>
     go_error + 'b aerospikeStore" where
  "aerospike_New NewClientPolicy NewClientWithPolicy DisableMetrics config =
     (case NewClientWithPolicy (clientPolicy NewClientPolicy (Aerospike_Policy config))
             (Aerospike_Host config) (Aerospike_Port config) of
        Inl err \<Rightarrow> Inl err
      | Inr client \<Rightarrow>
          Inr (aerospike_NewWithClient (DisableMetrics client) (Aerospike_Namespace config) (Aerospike_Set config)))"

definition aerospike_Close ::
  "('k, 'b) aerospikeClient \<Rightarrow> 'b aerospikeStore \<Rightarrow> go_error option \<times> 'b aerospikeStore" where
  "aerospike_Close lib store =
     (None,
      if aero_ownsClient store \<and> \<not> aero_closed store
      then store\<lparr>aero_client := as_Close lib (aero_client store), aero_closed := True\<rparr>
      else store)"

definition aerospike_Get ::
  "('k, 'b) aerospikeClient \<Rightarrow> ctx \<Rightarrow> string \<Rightarrow> 'b aerospikeStore \<Rightarrow> (go_error + bytes) \<times> 'b aerospikeStore" where
  "aerospike_Get lib c key store =
     (case as_NewKey lib (aero_namespace store) (aero_set store) key of
        Inl err \<Rightarrow> (Inl err, store)
      | Inr aerospikeKey \<Rightarrow>
          (case as_Get lib aerospikeKey [valueBin] (aero_client store) of
             (Inl err, b) \<Rightarrow>
               (if as_isKeyNotFound lib err then (Inr [], store\<lparr>aero_client := b\<rparr>)
                else (Inl err, store\<lparr>aero_client := b\<rparr>))
           | (Inr None, b) \<Rightarrow> (Inr [], store\<lparr>aero_client := b\<rparr>)
           | (Inr (Some bins), b) \<Rightarrow>
               (case bins valueBin of
                  Some (BinString value) \<Rightarrow> (Inr value, store\<lparr>aero_client := b\<rparr>)
                | Some (BinBytes value) \<Rightarrow> (Inr value, store\<lparr>aero_client := b\<rparr>)
                | _ \<Rightarrow> (Inr [], store\<lparr>aero_client := b\<rparr>))))"

definition expirationSeconds :: "duration \<Rightarrow> int" where
  "expirationSeconds ttl =
     (let seconds = ttl sdiv time_Second;
          seconds = (if ttl smod time_Second \<noteq> 0 then seconds + 1 else seconds);
          seconds = (if seconds < 1 then 1 else seconds)
      in wrap_u32 seconds)"

definition aerospike_Put ::
  "('k, 'b) aerospikeClient \<Rightarrow> ctx \<Rightarrow> string \<Rightarrow> bytes \<Rightarrow> duration \<Rightarrow> 'b aerospikeStore \<Rightarrow>
     go_error option \<times> 'b aerospikeStore" where
  "aerospike_Put lib c key value ttl store =
     (case as_NewKey lib (aero_namespace store) (aero_set store) key of
        Inl err \<Rightarrow> (Some err, store)
      | Inr aerospikeKey \<Rightarrow>
          (let policy = \<lparr>wp_Generation = 0, wp_Expiration = expirationSeconds ttl,
                 wp_RecordExistsAction = REPLACE\<rparr>
           in case as_Put lib policy aerospikeKey [valueBin \<mapsto> BinString value] (aero_client store) of
                (err, b) \<Rightarrow> (err, store\<lparr>aero_client := b\<rparr>)))"

definition aerospikeOps :: "('k, 'b) aerospikeClient \<Rightarrow> 'b aerospikeStore Store" where
  "aerospikeOps lib =
     \<lparr>Store_Get = aerospike_Get lib, Store_Put = aerospike_Put lib, Store_Close = aerospike_Close lib\<rparr>"

section \<open>The contract of a store\<close>

text \<open>
  A store answers a read with what its backend has: an error, nothing (which is no error and
  gives no bytes), or the stored bytes. Closing it again changes nothing and returns the same.
\<close>

fun asBytes :: "go_error + bytes option \<Rightarrow> go_error + bytes" where
  "asBytes (Inl err) = Inl err"
| "asBytes (Inr None) = Inr []"
| "asBytes (Inr (Some value)) = Inr value"

locale store_adapter =
  fixes ops :: "'s Store"
    and lookup :: "ctx \<Rightarrow> string \<Rightarrow> 's \<Rightarrow> (go_error + bytes option) \<times> 's"
  assumes get_lookup: "Store_Get ops c k s = map_prod asBytes id (lookup c k s)"
    and close_again: "Store_Close ops s = (err, s') \<Longrightarrow> Store_Close ops s' = (err, s')"
begin

lemma closed_for_good:
  assumes "Store_Close ops s = (err, s')"
  shows "((\<lambda>x. snd (Store_Close ops x)) ^^ n) s' = s' \<and> fst (Store_Close ops s') = err"
proof (induction n)
  case (Suc n)
  with close_again [OF assms] show ?case by simp
qed (simp add: close_again [OF assms])

lemma documented:
  assumes "\<And>c k s. content (snd (lookup c k s)) \<subseteq>\<^sub>m content s"
    and "\<And>c k s r. fst (lookup c k s) = Inr r \<Longrightarrow> r = content s k"
    and "\<And>c k v t s. overwrites k v (content s) (content (snd (Store_Put ops c k v t s)))"
    and "\<And>c k v t s. 0 < t \<Longrightarrow> fst (Store_Put ops c k v t s) = None \<Longrightarrow>
      content (snd (Store_Put ops c k v t s)) k = Some v"
  shows "l2_documented (store.truncate ops) content"
proof -
  have get: "b = (case content s k of None \<Rightarrow> [] | Some v \<Rightarrow> v)"
    if "fst (Store_Get (store.truncate ops) c k s) = Inr b" for c k s b
    using assms(2) [of c k s] that
    by (cases "fst (lookup c k s)"; cases "content s k") (auto simp: store.defs get_lookup)
  have "case fst (Store_Get (store.truncate ops) c k s) of Inl _ \<Rightarrow> True
      | Inr b \<Rightarrow> b = [] \<or> content s k = Some b" for c k s
    using get [of c k s] by (auto split: sum.splits option.splits)
  then have "l2_faithful (store.truncate ops) content"
    using assms(1,3) by (auto simp: l2_faithful_def store.defs get_lookup)
  then show ?thesis
    unfolding l2_documented_def using get assms(4) by (auto simp: store.defs)
qed

lemma error_from_lookup: "fst (Store_Get ops c k s) = Inl err \<longleftrightarrow> fst (lookup c k s) = Inl err"
  by (cases "fst (lookup c k s)" rule: asBytes.cases) (auto simp: get_lookup)

end

subsection \<open>Redis\<close>

definition redis_lookup ::
  "'b redisClient \<Rightarrow> ctx \<Rightarrow> string \<Rightarrow> 'b redisStore \<Rightarrow> (go_error + bytes option) \<times> 'b redisStore" where
  "redis_lookup lib c k s =
     (case rdb_Get lib c k (redis_client s) of (r, b) \<Rightarrow>
        (case r of Inl err \<Rightarrow> if rdb_isNil lib err then Inr None else Inl err | Inr v \<Rightarrow> Inr (Some v),
         s\<lparr>redis_client := b\<rparr>))"

interpretation redis: store_adapter "redisOps lib" "redis_lookup lib" for lib
  by unfold_locales
     (auto simp: redisOps_def redis_lookup_def redis_Get_def redis_Close_def Let_def
       split: prod.splits sum.splits if_splits)

text \<open>
  What the library and the server document: \<^verbatim>\<open>GET\<close> gives the value that the key has, the error
  \<^verbatim>\<open>Nil\<close> when it has none (absent or expired), or another error; a \<^verbatim>\<open>SET\<close> with a lifetime that
  returns no error has stored the value. One that fails may or may not have, and no \<^verbatim>\<open>SET\<close> gives
  another key a value.
\<close>

definition redis_documented :: "'b redisClient \<Rightarrow> ('b \<Rightarrow> string \<Rightarrow> bytes option) \<Rightarrow> bool" where
  "redis_documented lib content \<longleftrightarrow>
     (\<forall>c k b. content (snd (rdb_Get lib c k b)) \<subseteq>\<^sub>m content b \<and>
        (case fst (rdb_Get lib c k b) of
           Inl err \<Rightarrow> rdb_isNil lib err \<longrightarrow> content b k = None
         | Inr v \<Rightarrow> content b k = Some v)) \<and>
     (\<forall>c k v t b. overwrites k v (content b) (content (snd (rdb_Set lib c k v t b))) \<and>
        (0 < t \<and> fst (rdb_Set lib c k v t b) = None \<longrightarrow> content (snd (rdb_Set lib c k v t b)) k = Some v))"

lemma redis_adapter:
  assumes "redis_documented lib content"
  shows "l2_documented (store.truncate (redisOps lib)) (\<lambda>s. content (redis_client s))"
proof (rule redis.documented)
  fix c k s r
  have get: "content (snd (rdb_Get lib c k b)) \<subseteq>\<^sub>m content b"
    "case fst (rdb_Get lib c k b) of Inl err \<Rightarrow> rdb_isNil lib err \<longrightarrow> content b k = None
     | Inr v \<Rightarrow> content b k = Some v" for b
    using assms by (auto simp: redis_documented_def)
  show "content (redis_client (snd (redis_lookup lib c k s))) \<subseteq>\<^sub>m content (redis_client s)"
    by (simp add: redis_lookup_def case_prod_beta get(1))
  show "fst (redis_lookup lib c k s) = Inr r \<Longrightarrow> r = content (redis_client s) k"
    using get(2) [of "redis_client s"] by (auto simp: redis_lookup_def case_prod_beta split: sum.splits if_splits)
next
  fix c k v t s
  show "overwrites k v (content (redis_client s)) (content (redis_client (snd (Store_Put (redisOps lib) c k v t s))))"
    "0 < t \<Longrightarrow> fst (Store_Put (redisOps lib) c k v t s) = None \<Longrightarrow>
      content (redis_client (snd (Store_Put (redisOps lib) c k v t s))) k = Some v"
    using assms by (auto simp: redis_documented_def redisOps_def redis_Put_def case_prod_beta)
qed

subsection \<open>Valkey\<close>

definition valkey_lookup ::
  "'b valkeyClient \<Rightarrow> ctx \<Rightarrow> string \<Rightarrow> 'b valkeyStore \<Rightarrow> (go_error + bytes option) \<times> 'b valkeyStore" where
  "valkey_lookup lib c k s =
     (case vk_Do lib c (ValkeyGet k) (valkey_client s) of (r, b) \<Rightarrow>
        (case r of Inl err \<Rightarrow> if vk_isNil lib err then Inr None else Inl err | Inr v \<Rightarrow> Inr (Some v),
         s\<lparr>valkey_client := b\<rparr>))"

interpretation valkey: store_adapter "valkeyOps lib" "valkey_lookup lib" for lib
  by unfold_locales
     (auto simp: valkeyOps_def valkey_lookup_def valkey_Get_def valkey_Close_def
       split: prod.splits sum.splits if_splits)

definition valkey_documented :: "'b valkeyClient \<Rightarrow> ('b \<Rightarrow> string \<Rightarrow> bytes option) \<Rightarrow> bool" where
  "valkey_documented lib content \<longleftrightarrow>
     (\<forall>c k b. content (snd (vk_Do lib c (ValkeyGet k) b)) \<subseteq>\<^sub>m content b \<and>
        (case fst (vk_Do lib c (ValkeyGet k) b) of
           Inl err \<Rightarrow> vk_isNil lib err \<longrightarrow> content b k = None
         | Inr v \<Rightarrow> content b k = Some v)) \<and>
     (\<forall>c k v t b. overwrites k v (content b) (content (snd (vk_Do lib c (ValkeySet k v t) b))) \<and>
        (\<forall>ok. fst (vk_Do lib c (ValkeySet k v t) b) = Inr ok \<longrightarrow>
           content (snd (vk_Do lib c (ValkeySet k v t) b)) k = Some v))"

lemma valkey_adapter:
  assumes "valkey_documented lib content"
  shows "l2_documented (store.truncate (valkeyOps lib)) (\<lambda>s. content (valkey_client s))"
proof (rule valkey.documented)
  fix c k s r
  have get: "content (snd (vk_Do lib c (ValkeyGet k) b)) \<subseteq>\<^sub>m content b"
    "case fst (vk_Do lib c (ValkeyGet k) b) of Inl err \<Rightarrow> vk_isNil lib err \<longrightarrow> content b k = None
     | Inr v \<Rightarrow> content b k = Some v" for b
    using assms by (auto simp: valkey_documented_def)
  show "content (valkey_client (snd (valkey_lookup lib c k s))) \<subseteq>\<^sub>m content (valkey_client s)"
    by (simp add: valkey_lookup_def case_prod_beta get(1))
  show "fst (valkey_lookup lib c k s) = Inr r \<Longrightarrow> r = content (valkey_client s) k"
    using get(2) [of "valkey_client s"] by (auto simp: valkey_lookup_def case_prod_beta split: sum.splits if_splits)
next
  fix c k v t s
  have set: "overwrites k v (content b) (content (snd (vk_Do lib c (ValkeySet k v t) b)))"
    "fst (vk_Do lib c (ValkeySet k v t) b) = Inr ok \<Longrightarrow>
      content (snd (vk_Do lib c (ValkeySet k v t) b)) k = Some v" for t b ok
    using assms by (auto simp: valkey_documented_def)
  obtain t' where t': "Store_Put (valkeyOps lib) c k v t s =
      (case vk_Do lib c (ValkeySet k v t') (valkey_client s) of
         (Inl err, b) \<Rightarrow> (Some err, s\<lparr>valkey_client := b\<rparr>) | (Inr _, b) \<Rightarrow> (None, s\<lparr>valkey_client := b\<rparr>))"
    by (cases "t \<le> 0") (auto simp: valkeyOps_def valkey_Put_def)
  obtain r b where r: "vk_Do lib c (ValkeySet k v t') (valkey_client s) = (r, b)" by force
  show "overwrites k v (content (valkey_client s)) (content (valkey_client (snd (Store_Put (valkeyOps lib) c k v t s))))"
    "0 < t \<Longrightarrow> fst (Store_Put (valkeyOps lib) c k v t s) = None \<Longrightarrow>
      content (valkey_client (snd (Store_Put (valkeyOps lib) c k v t s))) k = Some v"
    unfolding t' using set [where t = t' and b = "valkey_client s"] r
    by (cases r; simp)+
qed

subsection \<open>Aerospike\<close>

fun binBytes :: "binValue option \<Rightarrow> bytes option" where
  "binBytes (Some (BinString value)) = Some value"
| "binBytes (Some (BinBytes value)) = Some value"
| "binBytes _ = None"

definition aerospike_lookup ::
  "('k, 'b) aerospikeClient \<Rightarrow> ctx \<Rightarrow> string \<Rightarrow> 'b aerospikeStore \<Rightarrow>
     (go_error + bytes option) \<times> 'b aerospikeStore" where
  "aerospike_lookup lib c key s =
     (case as_NewKey lib (aero_namespace s) (aero_set s) key of
        Inl err \<Rightarrow> (Inl err, s)
      | Inr k \<Rightarrow>
          (case as_Get lib k [valueBin] (aero_client s) of (r, b) \<Rightarrow>
             (case r of Inl err \<Rightarrow> if as_isKeyNotFound lib err then Inr None else Inl err
              | Inr None \<Rightarrow> Inr None
              | Inr (Some bins) \<Rightarrow> Inr (binBytes (bins valueBin)),
              s\<lparr>aero_client := b\<rparr>)))"

interpretation aerospike: store_adapter "aerospikeOps lib" "aerospike_lookup lib" for lib
  by unfold_locales
     (auto simp: aerospikeOps_def aerospike_lookup_def aerospike_Get_def aerospike_Close_def
       split: prod.splits sum.splits if_splits option.splits binValue.splits)

text \<open>
  The records by key: a read gives the named bins of the key's record, or no record or the error
  \<^verbatim>\<open>KeyNotFound\<close> when the key has none; a replacing write that returns no error leaves the written
  bins and no others, one that fails may or may not have been made, and no write changes another
  key; no two user keys of a set share a key.
\<close>

definition aerospike_documented ::
  "('k, 'b) aerospikeClient \<Rightarrow> ('b \<Rightarrow> 'k \<rightharpoonup> (string \<rightharpoonup> binValue)) \<Rightarrow> bool" where
  "aerospike_documented lib records \<longleftrightarrow>
     (\<forall>k names b. records (snd (as_Get lib k names b)) \<subseteq>\<^sub>m records b \<and>
        (case fst (as_Get lib k names b) of
           Inl err \<Rightarrow> as_isKeyNotFound lib err \<longrightarrow> records b k = None
         | Inr None \<Rightarrow> records b k = None
         | Inr (Some bins) \<Rightarrow> (\<exists>full. records b k = Some full \<and> bins = full |` set names))) \<and>
     (\<forall>policy k bins b. wp_RecordExistsAction policy = REPLACE \<longrightarrow>
        overwrites k bins (records b) (records (snd (as_Put lib policy k bins b))) \<and>
        (fst (as_Put lib policy k bins b) = None \<longrightarrow> records (snd (as_Put lib policy k bins b)) k = Some bins)) \<and>
     (\<forall>ns set u v k. as_NewKey lib ns set u = Inr k \<and> as_NewKey lib ns set v = Inr k \<longrightarrow> u = v)"

definition aerospike_content ::
  "('k, 'b) aerospikeClient \<Rightarrow> ('b \<Rightarrow> 'k \<rightharpoonup> (string \<rightharpoonup> binValue)) \<Rightarrow> 'b aerospikeStore \<Rightarrow> string \<Rightarrow> bytes option" where
  "aerospike_content lib records s key =
     (case as_NewKey lib (aero_namespace s) (aero_set s) key of
        Inl _ \<Rightarrow> None
      | Inr k \<Rightarrow> (case records (aero_client s) k of None \<Rightarrow> None | Some bins \<Rightarrow> binBytes (bins valueBin)))"

lemma aerospike_content_mono:
  "records b \<subseteq>\<^sub>m records (aero_client s) \<Longrightarrow>
    aerospike_content lib records (s\<lparr>aero_client := b\<rparr>) \<subseteq>\<^sub>m aerospike_content lib records s"
  by (auto simp: map_le_def aerospike_content_def dom_def split: sum.splits option.splits)

lemma aerospike_put_content:
  assumes doc: "aerospike_documented lib records"
    and put: "aerospike_Put lib c key v t s = (err, s')"
  shows "overwrites key v (aerospike_content lib records s) (aerospike_content lib records s')"
    and "err = None \<Longrightarrow> aerospike_content lib records s' key = Some v"
proof -
  let ?p = "\<lparr>wp_Generation = 0, wp_Expiration = expirationSeconds t, wp_RecordExistsAction = REPLACE\<rparr>"
  let ?bins = "[valueBin \<mapsto> BinString v]"
  have key: "as_NewKey lib ns st u = Inr k \<Longrightarrow> as_NewKey lib ns st w = Inr k \<Longrightarrow> u = w" for ns st u w k
    using doc unfolding aerospike_documented_def by blast
  have w: "overwrites k ?bins (records b) (records (snd (as_Put lib ?p k ?bins b)))"
    "fst (as_Put lib ?p k ?bins b) = None \<Longrightarrow> records (snd (as_Put lib ?p k ?bins b)) k = Some ?bins" for k b
    using doc by (simp_all add: aerospike_documented_def)
  have "overwrites key v (aerospike_content lib records s) (aerospike_content lib records s') \<and>
    (err = None \<longrightarrow> aerospike_content lib records s' key = Some v)"
  proof (cases "as_NewKey lib (aero_namespace s) (aero_set s) key")
    case (Inl e)
    with put show ?thesis by (auto simp: aerospike_Put_def overwrites_refl)
  next
    case (Inr k)
    obtain b where b: "as_Put lib ?p k ?bins (aero_client s) = (err, b)" and s': "s' = s\<lparr>aero_client := b\<rparr>"
      using put Inr by (auto simp: aerospike_Put_def case_prod_beta Let_def prod_eq_iff)
    have o: "overwrites k ?bins (records (aero_client s)) (records b)"
      "err = None \<longrightarrow> records b k = Some ?bins"
      using w [of k "aero_client s"] b by simp_all
    have "aerospike_content lib records s' u = None \<or>
        aerospike_content lib records s' u = aerospike_content lib records s u \<or>
        u = key \<and> aerospike_content lib records s' u = Some v" for u
    proof (cases "as_NewKey lib (aero_namespace s) (aero_set s) u")
      case (Inr k')
      have "k' = k \<Longrightarrow> u = key" using key Inr \<open>as_NewKey lib _ _ key = Inr k\<close> by blast
      moreover from o(1) have "records b k' = None \<or> records b k' = records (aero_client s) k' \<or>
          k' = k \<and> records b k' = Some ?bins" unfolding overwrites_def by blast
      ultimately show ?thesis using Inr by (auto simp: s' aerospike_content_def)
    qed (simp add: s' aerospike_content_def)
    then show ?thesis using o(2) Inr by (auto simp: overwrites_def s' aerospike_content_def)
  qed
  then show "overwrites key v (aerospike_content lib records s) (aerospike_content lib records s')"
    "err = None \<Longrightarrow> aerospike_content lib records s' key = Some v" by blast+
qed

lemma aerospike_adapter:
  assumes doc: "aerospike_documented lib records"
  shows "l2_documented (store.truncate (aerospikeOps lib)) (aerospike_content lib records)"
proof (rule aerospike.documented)
  fix c key s r
  have get: "records (snd (as_Get lib k ns b)) \<subseteq>\<^sub>m records b"
    "case fst (as_Get lib k ns b) of
       Inl err \<Rightarrow> as_isKeyNotFound lib err \<longrightarrow> records b k = None
     | Inr None \<Rightarrow> records b k = None
     | Inr (Some bins) \<Rightarrow> (\<exists>full. records b k = Some full \<and> bins = full |` set ns)" for k ns b
    using doc unfolding aerospike_documented_def by blast+
  show "aerospike_content lib records (snd (aerospike_lookup lib c key s)) \<subseteq>\<^sub>m aerospike_content lib records s"
    by (auto simp: aerospike_lookup_def case_prod_beta get(1) intro!: aerospike_content_mono split: sum.splits)
  show "r = aerospike_content lib records s key" if r: "fst (aerospike_lookup lib c key s) = Inr r"
  proof -
    from r obtain k where k: "as_NewKey lib (aero_namespace s) (aero_set s) key = Inr k"
      by (auto simp: aerospike_lookup_def split: sum.splits)
    show ?thesis
      using r k get(2) [where k = k and ns = "[valueBin]" and b = "aero_client s"]
      by (auto simp: aerospike_lookup_def aerospike_content_def case_prod_beta restrict_map_def
          split: sum.splits option.splits if_splits)
  qed
next
  fix c key v t s
  show "overwrites key v (aerospike_content lib records s)
      (aerospike_content lib records (snd (Store_Put (aerospikeOps lib) c key v t s)))"
    "0 < t \<Longrightarrow> fst (Store_Put (aerospikeOps lib) c key v t s) = None \<Longrightarrow>
      aerospike_content lib records (snd (Store_Put (aerospikeOps lib) c key v t s)) key = Some v"
    using aerospike_put_content [OF doc surjective_pairing] by (simp_all add: aerospikeOps_def)
qed


section \<open>Lifetimes and configuration\<close>

text \<open>
  C38. An Aerospike record gets the lifetime in whole seconds, rounded up and at least one, modulo
  two to the 32nd: for some number n of seconds that is at least one, covers the lifetime, and
  is not larger than it has to be, the expiration is n modulo 4294967296. So the record neither
  expires before the entry nor a second or more after it as long as the lifetime is at most
  4294967295 seconds; a longer one wraps, and 4294967295.5 seconds become zero.
\<close>

theorem expirationSeconds_spec:
  "\<exists>n. 1 \<le> n \<and> ttl \<le> n * time_Second \<and> (n = 1 \<or> (n - 1) * time_Second < ttl) \<and>
    expirationSeconds ttl = n mod 2 ^ 32"
proof (cases "0 < ttl")
  case True
  define q where "q = ttl div time_Second"
  define m where "m = ttl mod time_Second"
  have qm: "ttl = q * time_Second + m" "0 \<le> m" "m < time_Second"
    by (simp_all add: q_def m_def time_Second_def)
  have q: "0 \<le> q" using True by (simp add: q_def time_Second_def pos_imp_zdiv_nonneg_iff)
  have sm: "ttl smod time_Second = m" "ttl sdiv time_Second = q"
    using True by (simp_all add: q_def m_def sdiv_nonneg time_Second_def minus_div_mult_eq_mod
        flip: minus_sdiv_mult_eq_smod)
  let ?n = "if m \<noteq> 0 then q + 1 else q"
  have "m = 0 \<Longrightarrow> 1 \<le> q" using True qm by (auto simp: time_Second_def)
  then have "1 \<le> ?n" "expirationSeconds ttl = ?n mod 2 ^ 32"
    using q by (auto simp: expirationSeconds_def sm wrap_u32_def)
  moreover have "ttl \<le> ?n * time_Second" "?n = 1 \<or> (?n - 1) * time_Second < ttl"
    using qm True by (auto simp: time_Second_def)
  ultimately show ?thesis by blast
next
  case False
  then have "ttl sdiv time_Second \<le> 0"
    by (cases "ttl = 0") (auto simp: sdiv_neg time_Second_def div_int_pos_iff)
  then have "expirationSeconds ttl = 1" by (auto simp: expirationSeconds_def wrap_u32_def Let_def)
  with False show ?thesis by (intro exI [of _ 1]) (simp add: time_Second_def)
qed

text \<open>
  What the configurations accept. With the validation library as documented, a Redis or
  Valkey configuration passes exactly when the host is one, the port is in range and the
  timeout is not negative; an Aerospike one needs namespace and set as well, and its client
  policy is checked with it. A timeout that passes and fits a duration connects within a
  positive time.
\<close>

lemma store_configs_validated:
  assumes lib: "ozzo_documented lib host" and host: "\<not> host []"
  shows "(redis_Validate lib r = [] \<longleftrightarrow> host (Redis_Host r) \<and> 1 \<le> Redis_Port r \<and> Redis_Port r \<le> 65535 \<and>
      0 \<le> Redis_ConnectTimeoutMs r) \<and>
    (valkey_Validate lib v = [] \<longleftrightarrow> host (Valkey_Host v) \<and> 1 \<le> Valkey_Port v \<and> Valkey_Port v \<le> 65535 \<and>
      0 \<le> Valkey_ConnectTimeoutMs v) \<and>
    (aerospike_Validate lib a = [] \<longleftrightarrow> host (Aerospike_Host a) \<and> 1 \<le> Aerospike_Port a \<and>
      Aerospike_Port a \<le> 65535 \<and> Aerospike_Namespace a \<noteq> [] \<and> Aerospike_Set a \<noteq> [] \<and>
      0 \<le> ConnectionQueueSize (Aerospike_Policy a) \<and> 0 \<le> MinConnectionsPerNode (Aerospike_Policy a) \<and>
      0 \<le> Aerospike_ConnectTimeoutMs (Aerospike_Policy a) \<and> 0 \<le> IdleTimeoutMs (Aerospike_Policy a)) \<and>
    (redis_Validate lib r = [] \<and> Redis_ConnectTimeoutMs r * time_Millisecond < 2 ^ 63 \<longrightarrow>
      0 < redis_ConnectTimeout r)"
proof -
  have v: "ValidateStruct lib flds = [] \<longleftrightarrow> list_all (fieldPasses host) flds" for flds
    using lib by (simp add: ozzo_documented_def filter_empty_conv list_all_iff)
  have r: "redis_Validate lib r = [] \<longleftrightarrow> host (Redis_Host r) \<and> 1 \<le> Redis_Port r \<and> Redis_Port r \<le> 65535 \<and>
      0 \<le> Redis_ConnectTimeoutMs r"
    using host by (auto simp: redis_Validate_def v maxPort_def)
  moreover have "valkey_Validate lib v = [] \<longleftrightarrow> host (Valkey_Host v) \<and> 1 \<le> Valkey_Port v \<and>
      Valkey_Port v \<le> 65535 \<and> 0 \<le> Valkey_ConnectTimeoutMs v"
    using host by (auto simp: valkey_Validate_def v maxPort_def)
  moreover have "policy_Validate lib p = [] \<longleftrightarrow> 0 \<le> ConnectionQueueSize p \<and> 0 \<le> MinConnectionsPerNode p \<and>
      0 \<le> Aerospike_ConnectTimeoutMs p \<and> 0 \<le> IdleTimeoutMs p" for p
    by (auto simp: policy_Validate_def v)
  then have "aerospike_Validate lib a = [] \<longleftrightarrow> host (Aerospike_Host a) \<and> 1 \<le> Aerospike_Port a \<and>
      Aerospike_Port a \<le> 65535 \<and> Aerospike_Namespace a \<noteq> [] \<and> Aerospike_Set a \<noteq> [] \<and>
      0 \<le> ConnectionQueueSize (Aerospike_Policy a) \<and> 0 \<le> MinConnectionsPerNode (Aerospike_Policy a) \<and>
      0 \<le> Aerospike_ConnectTimeoutMs (Aerospike_Policy a) \<and> 0 \<le> IdleTimeoutMs (Aerospike_Policy a)"
    using host by (auto simp: aerospike_Validate_def v maxPort_def)
  moreover have "0 < redis_ConnectTimeout r"
    if "0 \<le> Redis_ConnectTimeoutMs r" "Redis_ConnectTimeoutMs r * time_Millisecond < 2 ^ 63"
    using that
    by (auto simp: redis_ConnectTimeout_def mulDuration_def defaultConnectTimeoutMs_def time_Millisecond_def
        wrap64_id in_int64_def)
  ultimately show ?thesis by blast
qed

end
