(* ===== verification/SharedCache.thy ===== *)
theory SharedCache
  imports Stores CacheSamples
begin

text \<open>
  Hosts that share a store: what one host's identity cache has stored, another host's cache
  finds. Reference clients of the three stores show that the hypotheses on the libraries hold
  for an in-memory server, and the statements of \<^verbatim>\<open>Stores\<close> are applied to them.
\<close>

section \<open>Reading what another host stored\<close>

lemma writeBoth_l2:
  assumes "l2_documented (ic_store cache) content"
  shows "x \<noteq> key \<Longrightarrow> content (cs_l2 (writeBoth cache c key e ttl st)) x \<in> {None, content (cs_l2 st) x}"
    and "encode (ic_codec cache) e = Some b \<Longrightarrow> 0 < ttl \<Longrightarrow>
      fst (Store_Put (ic_store cache) c key b ttl (cs_l2 st)) = None \<Longrightarrow>
      content (cs_l2 (writeBoth cache c key e ttl st)) key = Some b"
proof -
  have w: "overwrites key v (content s) (content (snd (Store_Put (ic_store cache) c key v t s)))"
    "0 < t \<Longrightarrow> fst (Store_Put (ic_store cache) c key v t s) = None \<Longrightarrow>
      content (snd (Store_Put (ic_store cache) c key v t s)) key = Some v" for v t s
    using assms by (simp_all add: l2_documented_def l2_faithful_def)
  note frame = writeBoth_frame [of _ cache c key e ttl st, OF refl]
  show "content (cs_l2 (writeBoth cache c key e ttl st)) x \<in> {None, content (cs_l2 st) x}" if "x \<noteq> key"
    using frame overwrites_other [OF w(1) that] by (auto split: option.splits)
  show "content (cs_l2 (writeBoth cache c key e ttl st)) key = Some b"
    if "encode (ic_codec cache) e = Some b" "0 < ttl"
      "fst (Store_Put (ic_store cache) c key b ttl (cs_l2 st)) = None"
    using frame that w(2) by simp
qed

lemma PutResolved_other_l2:
  assumes "l2_documented (ic_store cache) content" "key \<notin> Key_Value ` set ks"
  shows "content (cs_l2 (snd (PutResolved cache c ks result st))) key \<in> {None, content (cs_l2 st) key}"
  using assms(2)
proof (induction ks arbitrary: st)
  case (Cons k ks)
  have W: "content (cs_l2 (writeBoth cache c (Key_Value k) e ttl (st\<lparr>cs_clock := clk\<rparr>))) key \<in>
      {None, content (cs_l2 st) key}" for e ttl clk
    using writeBoth_l2(1) [OF assms(1), of key "Key_Value k" c e ttl "st\<lparr>cs_clock := clk\<rparr>"] Cons.prems by simp
  have IH: "content (cs_l2 (snd (PutResolved cache c ks result s))) key \<in> {None, content (cs_l2 s) key}" for s
    using Cons by simp
  show ?case
    unfolding PutResolved.simps Let_def case_prod_beta by (rule none_or_trans [OF IH W])
qed simp

lemma PutResolved_first_l2:
  assumes l2: "l2_documented (ic_store cache) content"
    and distinct: "distinct (map Key_Value (k # ks))"
    and ttl: "ttl = EffectiveTTL (ic_policy cache) (Key_Type k) (Result_CacheTTL result)" "0 < ttl"
    and b: "encode (ic_codec cache) (fst (resolved result ttl (cs_clock st))) = Some b"
    and taken: "fst (Store_Put (ic_store cache) c (Key_Value k) b ttl (cs_l2 st)) = None"
  shows "content (cs_l2 (snd (PutResolved cache c (k # ks) result st))) (Key_Value k) \<in> {None, Some b}"
proof -
  obtain e clk where e: "resolved result ttl (cs_clock st) = (e, clk)" by force
  let ?st = "writeBoth cache c (Key_Value k) e ttl (st\<lparr>cs_clock := clk\<rparr>)"
  have "content (cs_l2 (snd (PutResolved cache c ks result ?st))) (Key_Value k) \<in> {None, content (cs_l2 ?st) (Key_Value k)}"
    by (rule PutResolved_other_l2 [OF l2]) (use distinct in simp)
  moreover have "content (cs_l2 ?st) (Key_Value k) = Some b"
    by (rule writeBoth_l2(2) [OF l2]) (use b e ttl taken in simp_all)
  ultimately show ?thesis using e ttl(1) by simp
qed

text \<open>A key that only the store knows, asked for first, is answered from L2.\<close>

lemma Get_first_key_l2:
  assumes l2: "l2_documented (ic_store cache) scontent" and l1: "l1_faithful (ic_local cache) lcontent"
    and absent: "list_all (\<lambda>x. lcontent (cs_l1 st) (Key_Value x) = None) (k # ks)"
    and b: "scontent (cs_l2 st) (Key_Value k) = Some b" "decodeEntry (ic_codec cache) b = Some e"
    and read: "fst (Store_Get (ic_store cache) c (Key_Value k) (cs_l2 st)) = Inr v"
    and ip: "\<not> entry_InProgress e"
    and time: "UnixMilli (readings (cs_clock st) (reads (cs_clock st) + 2)) < entry_ExpiresAt e"
  shows "fst (Get cache c (k # ks) st) = Inr (cacheResultFromEntry e (Key_Type k) CacheLayerL2)"
proof -
  obtain f where g1: "getL1Loop cache 0 (k # ks) st = (None, st\<lparr>cs_l1 := f\<rparr>)"
    using getL1Loop_absent [OF l1, of "k # ks" st 0] absent by (auto simp: list_all_iff)
  have "fst (getFromStore cache c (Key_Value k) (st\<lparr>cs_l1 := f\<rparr>)) = Some e"
    by (rule getFromStore_answers [OF l2, where b = b and v = v]) (use b read time in simp_all)
  then obtain st3 where g2: "getFromStore cache c (Key_Value k) (st\<lparr>cs_l1 := f\<rparr>) = (Some e, st3)"
    by (metis surjective_pairing)
  with g1 ip show ?thesis by (simp add: Get_def)
qed


section \<open>Reference servers\<close>

definition redisNil :: go_error where
  "redisNil = PlainError ''redis: nil''"

definition mapRedis :: "(string \<Rightarrow> bytes option) redisClient" where
  "mapRedis =
     \<lparr>rdb_Get = (\<lambda>c k b. (case b k of None \<Rightarrow> Inl redisNil | Some v \<Rightarrow> Inr v, b)),
      rdb_Set = (\<lambda>c k v t b. (None, b(k \<mapsto> v))), rdb_Ping = (\<lambda>c b. (None, b)),
      rdb_Close = (\<lambda>b. (None, b)), rdb_isNil = (\<lambda>e. e = redisNil)\<rparr>"

fun mapValkeyDo ::
  "ctx \<Rightarrow> valkeyCommand \<Rightarrow> (string \<Rightarrow> bytes option) \<Rightarrow> (go_error + bytes) \<times> (string \<Rightarrow> bytes option)" where
  "mapValkeyDo c (ValkeyGet k) b = (case b k of None \<Rightarrow> Inl redisNil | Some v \<Rightarrow> Inr v, b)"
| "mapValkeyDo c (ValkeySet k v t) b = (Inr ''OK'', b(k \<mapsto> v))"

definition mapValkey :: "(string \<Rightarrow> bytes option) valkeyClient" where
  "mapValkey = \<lparr>vk_Do = mapValkeyDo, vk_Close = id, vk_isNil = (\<lambda>e. e = redisNil)\<rparr>"

definition mapAerospike ::
  "(string \<times> string \<times> string, (string \<times> string \<times> string) \<rightharpoonup> (string \<rightharpoonup> binValue)) aerospikeClient" where
  "mapAerospike =
     \<lparr>as_NewKey = (\<lambda>ns st u. Inr (ns, st, u)),
      as_Get = (\<lambda>k names b. (Inr (map_option (\<lambda>bins. bins |` set names) (b k)), b)),
      as_Put = (\<lambda>policy k bins b. (None, b(k \<mapsto> bins))),
      as_Close = id, as_isKeyNotFound = (\<lambda>_. False)\<rparr>"

lemma reference_clients:
  "redis_documented mapRedis id" "valkey_documented mapValkey id" "aerospike_documented mapAerospike id"
proof -
  show "redis_documented mapRedis id"
    by (auto simp: redis_documented_def mapRedis_def overwrites_upd split: option.splits)
  show "valkey_documented mapValkey id"
    by (auto simp: valkey_documented_def mapValkey_def overwrites_upd split: option.splits)
  show "aerospike_documented mapAerospike id"
    by (auto simp: aerospike_documented_def mapAerospike_def overwrites_upd split: option.splits)
qed

lemma mapRedis_documented: "l2_documented (store.truncate (redisOps mapRedis)) redis_client"
  using redis_adapter [OF reference_clients(1)] by simp

lemma mapRedis_ops:
  "fst (Store_Put (store.truncate (redisOps mapRedis)) c k v t s) = None"
  "redis_client (snd (Store_Put (store.truncate (redisOps mapRedis)) c k v t s)) = (redis_client s)(k \<mapsto> v)"
  "\<exists>v. fst (Store_Get (store.truncate (redisOps mapRedis)) c k s) = Inr v"
  by (auto simp: store.defs redisOps_def redis_Put_def redis_Get_def mapRedis_def split: option.splits)

text \<open>Two hosts on one Redis server.\<close>

definition redisHost :: "(bytes \<Rightarrow> bytes option, (string \<Rightarrow> bytes option) redisStore) identityCache" where
  "redisHost = \<lparr>ic_local = mapL1, ic_store = store.truncate (redisOps mapRedis),
     ic_policy = Config_TTLPolicy sampleConfig, ic_codec = referenceCodec\<rparr>"

definition redisHostState ::
  "int \<Rightarrow> (string \<Rightarrow> bytes option) redisStore \<Rightarrow> (bytes \<Rightarrow> bytes option, (string \<Rightarrow> bytes option) redisStore) cacheState" where
  "redisHostState t server =
     \<lparr>cs_l1 = Map.empty, cs_l2 = server, cs_clock = stillClock t, cs_events = []\<rparr>"


definition referenceOzzo :: "(string \<Rightarrow> bool) \<Rightarrow> ozzo" where
  "referenceOzzo host = \<lparr>ValidateStruct = (\<lambda>flds. map fst (filter (\<lambda>f. \<not> fieldPasses host f) flds))\<rparr>"

lemma store_configs_validated_sample:
  "redis_Validate (referenceOzzo (\<lambda>h. h = ''localhost''))
     \<lparr>Redis_Host = ''localhost'', Redis_Port = 6379, Redis_Password = [], Redis_ConnectTimeoutMs = 250\<rparr> = [] \<and>
   0 < redis_ConnectTimeout
     \<lparr>Redis_Host = ''localhost'', Redis_Port = 6379, Redis_Password = [], Redis_ConnectTimeoutMs = 250\<rparr>"
proof -
  have "ozzo_documented (referenceOzzo (\<lambda>h. h = ''localhost'')) (\<lambda>h. h = ''localhost'')"
    by (simp add: ozzo_documented_def referenceOzzo_def)
  from store_configs_validated [OF this, of
      "\<lparr>Redis_Host = ''localhost'', Redis_Port = 6379, Redis_Password = [], Redis_ConnectTimeoutMs = 250\<rparr>"]
  show ?thesis by (simp add: time_Millisecond_def)
qed

lemma PutResolved_keeps_l2:
  assumes "\<And>c k v t s x. content s x \<noteq> None \<Longrightarrow> content (snd (Store_Put (ic_store cache) c k v t s)) x \<noteq> None"
  shows "content (cs_l2 st) x \<noteq> None \<Longrightarrow> content (cs_l2 (snd (PutResolved cache c ks result st))) x \<noteq> None"
proof (induction ks arbitrary: st)
  case (Cons k ks)
  have "content (cs_l2 (writeBoth cache c key e ttl (st\<lparr>cs_clock := clk\<rparr>))) x \<noteq> None" for key e ttl clk
    using writeBoth_frame [of _ cache c key e ttl "st\<lparr>cs_clock := clk\<rparr>", OF refl] assms Cons.prems
    by (simp split: option.splits)
  then show ?case unfolding PutResolved.simps Let_def case_prod_beta by (rule Cons.IH)
qed simp

lemma first_key_stored:
  assumes "l2_documented (ic_store cache) content"
    and "\<And>c k v t s x. content s x \<noteq> None \<Longrightarrow> content (snd (Store_Put (ic_store cache) c k v t s)) x \<noteq> None"
    and "ttl = EffectiveTTL (ic_policy cache) (Key_Type k) (Result_CacheTTL result)" "0 < ttl"
    and "encode (ic_codec cache) (fst (resolved result ttl (cs_clock st))) = Some b"
    and "fst (Store_Put (ic_store cache) c (Key_Value k) b ttl (cs_l2 st)) = None"
  shows "content (cs_l2 (snd (PutResolved cache c (k # ks) result st))) (Key_Value k) \<noteq> None"
proof -
  obtain e clk where e: "resolved result ttl (cs_clock st) = (e, clk)" by force
  have "content (cs_l2 (writeBoth cache c (Key_Value k) e ttl (st\<lparr>cs_clock := clk\<rparr>))) (Key_Value k) = Some b"
    by (rule writeBoth_l2(2) [OF assms(1)]) (use assms(4-6) e in simp_all)
  then show ?thesis using PutResolved_keeps_l2 [of content cache, OF assms(2)] e assms(3) by simp
qed

lemma redisHost_stored:
  assumes "cs_clock st = stillClock t"
    and "ttl = EffectiveTTL (ic_policy redisHost) (Key_Type k) (Result_CacheTTL sampleResult)" "ttl = 3600000000000"
  shows "entry_ok (ic_codec redisHost) (fst (resolved sampleResult ttl (cs_clock st)))"
    and "redis_client (cs_l2 (snd (PutResolved redisHost Background (k # ks) sampleResult st))) (Key_Value k) \<noteq> None"
proof -
  show ok: "entry_ok (ic_codec redisHost) (fst (resolved sampleResult ttl (cs_clock st)))"
    using assms(1)
    by (simp add: assms(3) redisHost_def resolved_def expiry_def Now_def stillClock_def entry_ok_def
        sampleResult_def emptyResult_def emptyEntry_def sampleEID_ok isASCII_valid_utf8 isASCII_def wrap64_range)
       (simp add: in_int64_def)
  then obtain b where b: "encode (ic_codec redisHost) (fst (resolved sampleResult ttl (cs_clock st))) = Some b"
    using decodeEntry_encode by metis
  show "redis_client (cs_l2 (snd (PutResolved redisHost Background (k # ks) sampleResult st))) (Key_Value k) \<noteq> None"
    by (rule first_key_stored [OF _ _ assms(2) _ b])
       (use assms(3) in \<open>simp_all add: redisHost_def mapRedis_documented mapRedis_ops\<close>)
qed


end
