(* ===== verification/Fleet.thy ===== *)
theory Fleet
  imports SharedCache
begin

text \<open>
  Hosts that share one L2 store, over any history of cache operations: each has an L1 and a clock
  of its own, and the operations of different hosts follow one another in any order, each as a
  whole. The history says where everything in the layers, and so everything that a lookup
  serves, comes from.
\<close>

section \<open>What operations do to a property of stored entries\<close>

text \<open>Every entry that can be read from a layer has a property that depends on its key.\<close>

definition holds :: "eid_codec \<Rightarrow> (string \<Rightarrow> entry \<Rightarrow> bool) \<Rightarrow> (string \<Rightarrow> bytes option) \<Rightarrow> bool" where
  "holds codec Q m \<longleftrightarrow> (\<forall>k b e. m k = Some b \<longrightarrow> decodeEntry codec b = Some e \<longrightarrow> Q k e)"

definition kept ::
  "('f, 's) identityCache \<Rightarrow> ('f \<Rightarrow> string \<Rightarrow> bytes option) \<Rightarrow> ('s \<Rightarrow> string \<Rightarrow> bytes option) \<Rightarrow>
     (string \<Rightarrow> entry \<Rightarrow> bool) \<Rightarrow> ('f, 's) cacheState \<Rightarrow> bool" where
  "kept cache content1 content2 Q st \<longleftrightarrow>
     l1_faithful (ic_local cache) content1 \<and> l2_faithful (ic_store cache) content2 \<and>
     (\<forall>k e. Q k e \<longrightarrow> entry_ok (ic_codec cache) e) \<and>
     holds (ic_codec cache) Q (content1 (cs_l1 st)) \<and> holds (ic_codec cache) Q (content2 (cs_l2 st))"

lemma holds_le: "holds codec Q m \<Longrightarrow> m' \<subseteq>\<^sub>m m \<Longrightarrow> holds codec Q m'"
  unfolding holds_def by (meson map_le_SomeD)

lemma holds_upd:
  assumes "holds codec Q m" "encode codec e = Some b" "Q k e" "entry_ok codec e" "overwrites k b m m'"
  shows "holds codec Q m'"
proof -
  obtain b' where "encode codec e = Some b'" "decodeEntry codec b' = Some e" using decodeEntry_encode [OF assms(4)] .
  with assms(2) have d: "decodeEntry codec b = Some e" by simp
  show ?thesis
    unfolding holds_def
  proof (intro allI impI)
    fix x b' e'
    assume x: "m' x = Some b'" "decodeEntry codec b' = Some e'"
    with assms(5) have "m x = Some b' \<or> x = k \<and> b' = b" unfolding overwrites_def by (metis option.distinct(1) option.inject)
    with x(2) d assms(1,3) show "Q x e'" unfolding holds_def by auto
  qed
qed

lemma kept_clock [simp]: "kept cache content1 content2 Q (st\<lparr>cs_clock := clk\<rparr>) = kept cache content1 content2 Q st"
  by (simp add: kept_def)

lemma kept_tick: "kept cache content1 content2 Q st \<Longrightarrow> tick st = (t, st') \<Longrightarrow> kept cache content1 content2 Q st'"
  by (auto simp: tick_def Now_def)

lemma kept_localGet:
  assumes "kept cache content1 content2 Q st" "localGet cache key st = (v, st')"
  shows "kept cache content1 content2 Q st' \<and> (\<forall>e. v = Some e \<longrightarrow> Q key e)"
  using assms localGet_sound [OF _ assms(2), of content1] holds_le
  by (auto simp: kept_def) (auto simp: holds_def)

lemma kept_getFromStore:
  assumes "kept cache content1 content2 Q st" "getFromStore cache c key st = (v, st')"
  shows "kept cache content1 content2 Q st' \<and> (\<forall>e. v = Some e \<longrightarrow> Q key e)"
  using assms getFromStore_sound [OF _ assms(2), of content2] holds_le
  by (auto simp: kept_def) (auto simp: holds_def)

lemma kept_localSet:
  assumes "kept cache content1 content2 Q st" "encode (ic_codec cache) e = Some b" "Q key e"
  shows "kept cache content1 content2 Q (localSet cache key b ttl st)"
proof -
  have "overwrites key b (content1 (cs_l1 st)) (content1 (fcSet (ic_local cache) key b s (cs_l1 st)))" for s
    using assms(1) by (simp add: kept_def l1_faithful_def)
  with assms show ?thesis
    using holds_upd [of "ic_codec cache" Q "content1 (cs_l1 st)" e b key] by (simp add: kept_def localSet_def)
qed

lemma kept_writeL2:
  assumes "kept cache content1 content2 Q st" "encode (ic_codec cache) e = Some b" "Q key e"
    and "writeL2 cache c key b ttl st = (err, st')"
  shows "kept cache content1 content2 Q st'"
proof -
  have "overwrites key b (content2 (cs_l2 st)) (content2 (cs_l2 st'))" "cs_l1 st' = cs_l1 st"
    using assms(1) writeL2_frame [OF assms(4)] by (simp_all add: kept_def l2_faithful_def)
  with assms show ?thesis
    using holds_upd [of "ic_codec cache" Q "content2 (cs_l2 st)" e b key] by (simp add: kept_def)
qed

lemma kept_emit [simp]: "kept cache content1 content2 Q (emit ev st) = kept cache content1 content2 Q st"
  by (simp add: kept_def)

lemma kept_writeBoth:
  assumes "kept cache content1 content2 Q st" "Q key e"
  shows "kept cache content1 content2 Q (writeBoth cache c key e ttl st)"
proof (cases "encode (ic_codec cache) e")
  case (Some b)
  obtain err st1 where w: "writeL2 cache c key b ttl (localSet cache key b ttl st) = (err, st1)" by force
  have "kept cache content1 content2 Q st1"
    by (rule kept_writeL2 [OF kept_localSet [OF assms(1) Some assms(2)] Some assms(2) w])
  with w Some show ?thesis by (simp add: writeBoth_def split: option.split)
qed (simp add: writeBoth_def assms(1))

text \<open>The keys of one request may pass an entry to each other, with another expiry.\<close>

definition passes :: "(string \<Rightarrow> entry \<Rightarrow> bool) \<Rightarrow> CacheKey list \<Rightarrow> bool" where
  "passes Q keys \<longleftrightarrow>
     (\<forall>k k' e x. k \<in> Key_Value ` set keys \<longrightarrow> k' \<in> Key_Value ` set keys \<longrightarrow> Q k e \<longrightarrow> \<not> entry_InProgress e \<longrightarrow>
        in_int64 x \<longrightarrow> Q k' (e\<lparr>entry_ExpiresAt := x\<rparr>))"

lemma kept_promote:
  assumes "kept cache content1 content2 Q st" "Q key e"
  shows "kept cache content1 content2 Q (promote cache key e st)"
proof -
  obtain t st1 where t: "tick st = (t, st1)" by force
  with kept_tick [OF assms(1) t] kept_localSet [of cache content1 content2 Q st1 e _ key] assms(2)
  show ?thesis by (auto simp: promote_def Let_def split: option.split)
qed

lemma kept_backfillLoop:
  assumes "kept cache content1 content2 Q st"
    and "\<And>k x. k \<in> Key_Value ` set keys \<Longrightarrow> in_int64 x \<Longrightarrow> Q k (e\<lparr>entry_ExpiresAt := x\<rparr>)"
  shows "kept cache content1 content2 Q (backfillLoop cache c hi e remaining index keys st)"
  using assms
proof (induction keys arbitrary: index st)
  case (Cons k keys)
  obtain v st1 where g: "localGet cache (Key_Value k) st = (v, st1)" by force
  note k1 = kept_localGet [OF Cons.prems(1) g]
  have ih: "kept cache content1 content2 Q (backfillLoop cache c hi e remaining (Suc index) keys s)"
    if "kept cache content1 content2 Q s" for s
    using Cons.IH [OF that] Cons.prems(2) by simp
  show ?case
  proof (cases "index = hi \<or> v \<noteq> None")
    case True
    with g k1 ih Cons.prems(1) show ?thesis by auto
  next
    case False
    obtain t st2 where t: "tick st1 = (t, st2)" by force
    have q: "Q (Key_Value k) (e\<lparr>entry_ExpiresAt := wrap64 x\<rparr>)" for x
      using Cons.prems(2) wrap64_range by simp
    show ?thesis
      using False g t kept_tick [OF _ t] k1
      by (auto simp: Let_def intro!: ih kept_writeBoth q)
  qed
qed simp

lemma kept_backfill:
  assumes "kept cache content1 content2 Q st"
    and "\<And>k x. k \<in> Key_Value ` set keys \<Longrightarrow> in_int64 x \<Longrightarrow> Q k (e\<lparr>entry_ExpiresAt := x\<rparr>)"
  shows "kept cache content1 content2 Q (backfill cache c keys i e st)"
proof -
  obtain t st1 where t: "tick st = (t, st1)" by force
  from kept_backfillLoop [OF kept_tick [OF assms(1) t], of keys e] assms(2) kept_tick [OF assms(1) t]
  show ?thesis by (auto simp: backfill_def t Let_def)
qed

lemma kept_getL1Loop:
  assumes "kept cache content1 content2 Q st" "getL1Loop cache index keys st = (r, st')"
  shows "kept cache content1 content2 Q st' \<and>
    (\<forall>i key e. r = Some (i, key, e) \<longrightarrow> key \<in> set keys \<and> Q (Key_Value key) e \<and> \<not> entry_InProgress e)"
  using assms
proof (induction keys arbitrary: index st)
  case (Cons k keys)
  obtain v st1 where g: "localGet cache (Key_Value k) st = (v, st1)" by force
  note k1 = kept_localGet [OF Cons.prems(1) g]
  from Cons.prems(2) g Cons.IH [of st1 "Suc index"] k1 show ?case by (auto split: option.splits if_splits)
qed auto

lemma kept_getL2Loop:
  assumes "kept cache content1 content2 Q st" "getL2Loop cache c index ip keys st = (r, st')"
  shows "kept cache content1 content2 Q st' \<and>
    (\<forall>i key e. r = Inr (i, key, e) \<longrightarrow> key \<in> set keys \<and> Q (Key_Value key) e \<and> \<not> entry_InProgress e)"
  using assms
proof (induction keys arbitrary: index ip st)
  case (Cons k keys)
  obtain v st1 where g: "getFromStore cache c (Key_Value k) st = (v, st1)" by force
  note k1 = kept_getFromStore [OF Cons.prems(1) g]
  from Cons.prems(2) g Cons.IH [of st1 "Suc index"] k1 show ?case by (auto split: option.splits if_splits)
qed auto

lemma kept_Get:
  assumes k: "kept cache content1 content2 Q st" and p: "passes Q keys" and get: "Get cache c keys st = (r, st')"
  shows "kept cache content1 content2 Q st'"
proof (cases "keys = []")
  case True
  with get k show ?thesis by (auto simp: Get_def)
next
  case False
  have pass: "Q k (e\<lparr>entry_ExpiresAt := x\<rparr>)"
    if "key \<in> set keys" "Q (Key_Value key) e" "\<not> entry_InProgress e" "k \<in> Key_Value ` set keys" "in_int64 x" for k x key e
    using p that unfolding passes_def by blast
  obtain a st1 where g1: "getL1Loop cache 0 keys st = (a, st1)" by force
  note k1 = kept_getL1Loop [OF k g1]
  obtain b st2 where g2: "getL2Loop cache c 0 None keys st1 = (b, st2)" by force
  note k2 = kept_getL2Loop [OF conjunct1 [OF k1] g2]
  consider i key e where "a = Some (i, key, e)" | i key e where "a = None" "b = Inr (i, key, e)" | ip where "a = None" "b = Inl ip"
    by (cases a; cases b) auto
  then show ?thesis
  proof cases
    case 1
    with kept_backfill [OF conjunct1 [OF k1], of keys e] pass k1 get False g1 show ?thesis by (auto simp: Get_def)
  next
    case (2 i key e)
    with kept_backfill [OF kept_promote [OF conjunct1 [OF k2]], of "Key_Value key" e keys e] pass k2 get False g1 g2
    show ?thesis by (auto simp: Get_def)
  next
    case (3 ip)
    with get False g1 g2 k2 show ?thesis by (cases ip) (auto simp: Get_def)
  qed
qed

text \<open>What a lookup answers is an entry with the property, found under one of its keys.\<close>

lemma kept_found:
  assumes k: "kept cache content1 content2 Q st" and get: "Get cache c keys st = (Inr res, st')"
    and hit: "CR_State res \<in> {CacheHit, CacheNegative}"
  obtains key e l where "key \<in> set keys" "Q (Key_Value key) e" "\<not> entry_InProgress e"
    "res = cacheResultFromEntry e (Key_Type key) l"
proof -
  have ne: "keys \<noteq> []" using get hit by (auto simp: Get_def missResult_def)
  obtain a st1 where g1: "getL1Loop cache 0 keys st = (a, st1)" by force
  note k1 = kept_getL1Loop [OF k g1]
  obtain b st2 where g2: "getL2Loop cache c 0 None keys st1 = (b, st2)" by force
  note k2 = kept_getL2Loop [OF conjunct1 [OF k1] g2]
  from get hit ne g1 g2 that k1 k2 show thesis
    by (auto simp: Get_def missResult_def inProgressResult_def split: option.splits sum.splits)
qed

section \<open>Operations and where entries come from\<close>

datatype cacheOp =
    OpGet ctx "CacheKey list"
  | OpPutResolved ctx "CacheKey list" Result
  | OpPutNegative ctx "CacheKey list" ResultMetadata
  | OpPutInProgress ctx "CacheKey list" duration

fun runOp :: "('f, 's) identityCache \<Rightarrow> cacheOp \<Rightarrow> ('f, 's) cacheState \<Rightarrow> ('f, 's) cacheState" where
  "runOp cache (OpGet c keys) st = snd (Get cache c keys st)"
| "runOp cache (OpPutResolved c keys result) st = snd (PutResolved cache c keys result st)"
| "runOp cache (OpPutNegative c keys metadata) st = snd (PutNegative cache c keys metadata st)"
| "runOp cache (OpPutInProgress c keys ttl) st = snd (PutInProgress cache c keys ttl st)"

fun opKeys :: "cacheOp \<Rightarrow> CacheKey list" where
  "opKeys (OpGet _ keys) = keys" | "opKeys (OpPutResolved _ keys _) = keys"
| "opKeys (OpPutNegative _ keys _) = keys" | "opKeys (OpPutInProgress _ keys _) = keys"

text \<open>The entry that an operation makes, up to its expiry.\<close>

fun origin :: "cacheOp \<Rightarrow> entry option" where
  "origin (OpGet _ _) = None"
| "origin (OpPutResolved _ _ result) = Some (emptyEntry\<lparr>entry_EIDs := Result_EIDs result,
     entry_ABTestUUID := Result_ABTestUUID result, entry_TerminationCause := Result_TerminationCause result\<rparr>)"
| "origin (OpPutNegative _ _ metadata) = Some (emptyEntry\<lparr>entry_ABTestUUID := Meta_ABTestUUID metadata,
     entry_TerminationCause := Meta_TerminationCause metadata, entry_Negative := True\<rparr>)"
| "origin (OpPutInProgress _ _ _) = Some (emptyEntry\<lparr>entry_InProgress := True\<rparr>)"

lemma made_entries:
  "origin (OpPutResolved c keys result) = Some o1 \<Longrightarrow>
    \<exists>x. fst (resolved result ttl clk) = o1\<lparr>entry_ExpiresAt := x\<rparr> \<and> in_int64 x"
  "origin (OpPutNegative c keys metadata) = Some o1 \<Longrightarrow>
    \<exists>x. fst (negative metadata ttl clk) = o1\<lparr>entry_ExpiresAt := x\<rparr> \<and> in_int64 x"
  "origin (OpPutInProgress c keys d) = Some o1 \<Longrightarrow>
    \<exists>x. fst (inProgress ttl clk) = o1\<lparr>entry_ExpiresAt := x\<rparr> \<and> in_int64 x"
  by (auto simp: resolved_def negative_def inProgress_def expiry_def Let_def case_prod_beta emptyEntry_def
      intro!: exI [of _ "wrap64 _"] wrap64_range)

abbreviation made :: "(string \<Rightarrow> entry \<Rightarrow> bool) \<Rightarrow> cacheOp \<Rightarrow> CacheKey list \<Rightarrow> bool" where
  "made Q op keys \<equiv>
     (\<forall>k x o1. k \<in> Key_Value ` set keys \<longrightarrow> in_int64 x \<longrightarrow> origin op = Some o1 \<longrightarrow> Q k (o1\<lparr>entry_ExpiresAt := x\<rparr>))"

lemma kept_PutResolved:
  assumes "kept cache content1 content2 Q st" "made Q (OpPutResolved c all result) keys"
  shows "kept cache content1 content2 Q (snd (PutResolved cache c keys result st))"
  using assms
proof (induction keys arbitrary: st)
  case (Cons k keys)
  have "Q (Key_Value k) (fst (resolved result t clk))" for t clk
    using Cons.prems(2) made_entries(1) [of c all result _ t clk] by fastforce
  then have "kept cache content1 content2 Q
      (writeBoth cache c (Key_Value k) (fst (resolved result t clk)) t (st\<lparr>cs_clock := clk'\<rparr>))" for t clk clk'
    using Cons.prems(1) by (intro kept_writeBoth) simp_all
  then show ?case using Cons.IH Cons.prems(2) by (simp add: Let_def case_prod_beta)
qed simp

lemma kept_PutNegative:
  assumes "kept cache content1 content2 Q st" "made Q (OpPutNegative c all metadata) keys"
  shows "kept cache content1 content2 Q (putNegativeLoop cache c ttl keys metadata st)"
  using assms
proof (induction keys arbitrary: st)
  case (Cons k keys)
  have "Q (Key_Value k) (fst (negative metadata t clk))" for t clk
    using Cons.prems(2) made_entries(2) [of c all metadata _ t clk] by fastforce
  then have "kept cache content1 content2 Q
      (writeBoth cache c (Key_Value k) (fst (negative metadata t clk)) t (st\<lparr>cs_clock := clk'\<rparr>))" for t clk clk'
    using Cons.prems(1) by (intro kept_writeBoth) simp_all
  then show ?case using Cons.IH Cons.prems(2) by (simp add: Let_def case_prod_beta)
qed simp

lemma kept_PutInProgress:
  assumes "kept cache content1 content2 Q st" "made Q (OpPutInProgress c all d) keys"
  shows "kept cache content1 content2 Q (snd (putInProgressLoop cache c ttl fe keys st))"
  using assms
proof (induction keys arbitrary: fe st)
  case (Cons k keys)
  obtain v clk where v: "inProgress ttl (cs_clock st) = (v, clk)" by force
  then have q: "Q (Key_Value k) v"
    using Cons.prems(2) made_entries(3) [of c all d _ ttl "cs_clock st"] by fastforce
  obtain err st1 where w: "(case encode (ic_codec cache) v of
      None \<Rightarrow> (Some (PlainError ''json: marshal error''), st\<lparr>cs_clock := clk\<rparr>)
    | Some encoded \<Rightarrow> writeL2 cache c (Key_Value k) encoded ttl (st\<lparr>cs_clock := clk\<rparr>)) = (err, st1)"
    by force
  then have "kept cache content1 content2 Q st1"
    using Cons.prems(1) q kept_writeL2 [of cache content1 content2 Q "st\<lparr>cs_clock := clk\<rparr>" v _ "Key_Value k" c ttl err st1]
    by (auto split: option.splits)
  with v w Cons.IH Cons.prems(2) show ?case by (simp add: Let_def)
qed simp

lemma kept_runOp:
  assumes "kept cache content1 content2 Q st" "passes Q (opKeys op)" "made Q op (opKeys op)"
  shows "kept cache content1 content2 Q (runOp cache op st)"
proof (cases op)
  case (OpGet c keys)
  obtain r st' where g: "Get cache c keys st = (r, st')" by force
  from kept_Get [OF assms(1) _ g] assms(2) OpGet g show ?thesis by simp
next
  case (OpPutResolved c keys result)
  with assms kept_PutResolved [where keys = keys and all = keys] show ?thesis by simp
next
  case (OpPutNegative c keys metadata)
  with assms kept_PutNegative [where keys = keys and all = keys] show ?thesis
    by (simp add: PutNegative_def Let_def)
next
  case (OpPutInProgress c keys d)
  with assms kept_PutInProgress [where keys = keys and all = keys] show ?thesis
    by (simp add: PutInProgress_def)
qed

section \<open>Histories of a fleet\<close>

record ('f, 's) fleet =
  fl_l1 :: "nat \<Rightarrow> 'f"
  fl_l2 :: 's
  fl_clock :: "nat \<Rightarrow> clock_state"

definition hostState :: "('f, 's) fleet \<Rightarrow> nat \<Rightarrow> ('f, 's) cacheState" where
  "hostState s h = \<lparr>cs_l1 = fl_l1 s h, cs_l2 = fl_l2 s, cs_clock = fl_clock s h, cs_events = []\<rparr>"

definition afterOp :: "('f, 's) fleet \<Rightarrow> nat \<Rightarrow> ('f, 's) cacheState \<Rightarrow> ('f, 's) fleet" where
  "afterOp s h st = s\<lparr>fl_l1 := (fl_l1 s)(h := cs_l1 st), fl_l2 := cs_l2 st, fl_clock := (fl_clock s)(h := cs_clock st)\<rparr>"

text \<open>
  A history lists the operations with the hosts that ran them. A host may also start anew,
  with a fresh L1; the store stays.
\<close>

inductive fleet_run ::
  "(nat \<Rightarrow> ('f, 's) identityCache) \<Rightarrow> 'f \<Rightarrow> ('f, 's) fleet \<Rightarrow> (nat \<times> cacheOp) list \<Rightarrow> ('f, 's) fleet \<Rightarrow> bool"
  for caches fresh s0 where
  fleet_start: "fleet_run caches fresh s0 [] s0"
| fleet_op: "fleet_run caches fresh s0 hist s \<Longrightarrow>
    fleet_run caches fresh s0 (hist @ [(h, op)]) (afterOp s h (runOp (caches h) op (hostState s h)))"
| fleet_restart: "fleet_run caches fresh s0 hist s \<Longrightarrow> fleet_run caches fresh s0 hist (s\<lparr>fl_l1 := (fl_l1 s)(h := fresh)\<rparr>)"

text \<open>Keys that occurred in one operation, and keys linked by a chain of such operations.\<close>

definition together :: "(nat \<times> cacheOp) list \<Rightarrow> string \<Rightarrow> string \<Rightarrow> bool" where
  "together hist a b \<longleftrightarrow> (\<exists>x\<in>set hist. {a, b} \<subseteq> Key_Value ` set (opKeys (snd x)))"

abbreviation linked :: "(nat \<times> cacheOp) list \<Rightarrow> string \<Rightarrow> string \<Rightarrow> bool" where
  "linked hist \<equiv> (together hist)\<^sup>*\<^sup>*"

definition traced :: "(nat \<times> cacheOp) list \<Rightarrow> string \<Rightarrow> entry \<Rightarrow> bool" where
  "traced hist k e \<longleftrightarrow>
     (\<exists>h op k0 o1. (h, op) \<in> set hist \<and> origin op = Some o1 \<and> k0 \<in> Key_Value ` set (opKeys op) \<and>
        linked hist k0 k \<and> e\<lparr>entry_ExpiresAt := 0\<rparr> = o1\<lparr>entry_ExpiresAt := 0\<rparr>)"

definition op_ok :: "eid_codec \<Rightarrow> cacheOp \<Rightarrow> bool" where
  "op_ok codec op \<longleftrightarrow> (case origin op of None \<Rightarrow> True | Some o1 \<Rightarrow> entry_ok codec o1)"

definition sound :: "eid_codec \<Rightarrow> (nat \<times> cacheOp) list \<Rightarrow> string \<Rightarrow> entry \<Rightarrow> bool" where
  "sound codec hist k e \<longleftrightarrow> entry_ok codec e \<and> traced hist k e"

lemma linked_mono: "linked hist a b \<Longrightarrow> linked (hist @ hist') a b"
  by (erule rtranclp_mono [THEN predicate2D, rotated]) (unfold together_def set_append, blast)

lemma traced_mono: "traced hist k e \<Longrightarrow> traced (hist @ hist') k e"
  using linked_mono by (fastforce simp: traced_def)

lemma entry_ok_expiry: "entry_ok codec e \<Longrightarrow> in_int64 x \<Longrightarrow> entry_ok codec (e\<lparr>entry_ExpiresAt := x\<rparr>)"
  by (simp add: entry_ok_def)

lemma sound_passes: "passes (sound codec (hist @ [(h, op)])) (opKeys op)"
proof -
  have "traced (hist @ [(h, op)]) k' (e\<lparr>entry_ExpiresAt := x\<rparr>)"
    if k: "k \<in> Key_Value ` set (opKeys op)" "k' \<in> Key_Value ` set (opKeys op)" and t: "traced (hist @ [(h, op)]) k e" for k k' e x
  proof -
    have "together (hist @ [(h, op)]) k k'" using k by (auto simp: together_def)
    with t show ?thesis unfolding traced_def
      by (elim exE conjE) (intro exI conjI, assumption+, erule rtranclp.rtrancl_into_rtrancl, assumption, simp)
  qed
  then show ?thesis by (auto simp: passes_def sound_def entry_ok_expiry)
qed

lemma sound_made: "op_ok codec op \<Longrightarrow> made (sound codec (hist @ [(h, op)])) op (opKeys op)"
  by (force simp: sound_def op_ok_def traced_def entry_ok_expiry)

text \<open>Hosts whose caches have the documented layers and one entry codec.\<close>

definition fleet_ok ::
  "(nat \<Rightarrow> ('f, 's) identityCache) \<Rightarrow> eid_codec \<Rightarrow> ('f \<Rightarrow> string \<Rightarrow> bytes option) \<Rightarrow>
     ('s \<Rightarrow> string \<Rightarrow> bytes option) \<Rightarrow> bool" where
  "fleet_ok caches codec content1 content2 \<longleftrightarrow>
     (\<forall>h. l1_faithful (ic_local (caches h)) content1 \<and> l2_faithful (ic_store (caches h)) content2 \<and>
        ic_codec (caches h) = codec)"

definition fleet_sound ::
  "eid_codec \<Rightarrow> ('f \<Rightarrow> string \<Rightarrow> bytes option) \<Rightarrow> ('s \<Rightarrow> string \<Rightarrow> bytes option) \<Rightarrow>
     (nat \<times> cacheOp) list \<Rightarrow> ('f, 's) fleet \<Rightarrow> bool" where
  "fleet_sound codec content1 content2 hist s \<longleftrightarrow>
     (\<forall>h. holds codec (sound codec hist) (content1 (fl_l1 s h))) \<and> holds codec (sound codec hist) (content2 (fl_l2 s))"

lemma sound_mono: "sound codec hist k e \<Longrightarrow> sound codec (hist @ hist') k e"
  by (simp add: sound_def traced_mono)

lemma holds_mono: "holds codec Q m \<Longrightarrow> (\<And>k e. Q k e \<Longrightarrow> Q' k e) \<Longrightarrow> holds codec Q' m"
  by (auto simp: holds_def)

lemma fleet_sound_mono:
  "fleet_sound codec content1 content2 hist s \<Longrightarrow> fleet_sound codec content1 content2 (hist @ hist') s"
  by (auto simp: fleet_sound_def intro: holds_mono sound_mono)

lemma fleet_sound_kept:
  "fleet_ok caches codec content1 content2 \<Longrightarrow> fleet_sound codec content1 content2 hist s \<Longrightarrow>
   kept (caches h) content1 content2 (sound codec hist) (hostState s h)"
  by (simp add: fleet_ok_def fleet_sound_def kept_def hostState_def sound_def)

lemma fleet_invariant:
  assumes run: "fleet_run caches fresh s0 hist s" and ok: "fleet_ok caches codec content1 content2"
    and start: "fl_l1 s0 = (\<lambda>_. fresh)" "content1 fresh = Map.empty" "content2 (fl_l2 s0) = Map.empty"
    and ops: "list_all (\<lambda>(h, op). op_ok codec op) hist"
  shows "fleet_sound codec content1 content2 hist s"
  using run ops
proof induction
  case fleet_start
  with start show ?case by (simp add: fleet_sound_def holds_def)
next
  case (fleet_op hist s h op)
  let ?hist = "hist @ [(h, op)]"
  have s: "fleet_sound codec content1 content2 ?hist s" using fleet_op by (intro fleet_sound_mono) simp
  have "op_ok codec op" using fleet_op.prems by simp
  from kept_runOp [OF fleet_sound_kept [OF ok s] sound_passes sound_made [OF this]] s ok
  show ?case by (simp add: fleet_sound_def fleet_ok_def kept_def afterOp_def)
next
  case (fleet_restart hist s h)
  with start show ?case by (simp add: fleet_sound_def holds_def)
qed

lemma traced_resolved:
  assumes "traced hist k e" "\<not> entry_InProgress e" "\<not> entry_Negative e"
  obtains h c keys result k0 where "(h, OpPutResolved c keys result) \<in> set hist" "k0 \<in> Key_Value ` set keys"
    "linked hist k0 k" "entry_EIDs e = Result_EIDs result" "entry_ABTestUUID e = Result_ABTestUUID result"
    "entry_TerminationCause e = Result_TerminationCause result"
proof -
  obtain h op k0 o1 where t: "(h, op) \<in> set hist" "origin op = Some o1" "k0 \<in> Key_Value ` set (opKeys op)"
    "linked hist k0 k" and e: "e\<lparr>entry_ExpiresAt := 0\<rparr> = o1\<lparr>entry_ExpiresAt := 0\<rparr>"
    using assms(1) unfolding traced_def by blast
  have v: "entry_EIDs e = entry_EIDs o1" "entry_ABTestUUID e = entry_ABTestUUID o1" "entry_TerminationCause e = entry_TerminationCause o1"
    "entry_InProgress e = entry_InProgress o1" "entry_Negative e = entry_Negative o1"
    using e by (cases e; cases o1; simp)+
  from t(2) assms(2,3) obtain c keys result where "op = OpPutResolved c keys result"
    by (cases op) (auto simp: v)
  with t v that [of h c keys result k0] show thesis by auto
qed

text \<open>
  C5. Identifiers never pass between users. Whatever operations the hosts of a fleet have run on
  their caches, in any order and with any losses, evictions and restarts, a lookup at any of them
  that ends in a hit answers with exactly the EIDs, the A/B test id and the termination cause of
  one result that some host stored, under a key that a chain of requests links to the key that
  was asked for: each request of the chain has carried both of its keys.
\<close>

theorem fleet_traceback:
  assumes run: "fleet_run caches fresh s0 hist s" and ok: "fleet_ok caches codec content1 content2"
    and start: "fl_l1 s0 = (\<lambda>_. fresh)" "content1 fresh = Map.empty" "content2 (fl_l2 s0) = Map.empty"
    and ops: "list_all (\<lambda>(h, op). op_ok codec op) hist"
    and get: "Get (caches h) c keys (hostState s h) = (Inr res, st')" and hit: "CR_State res = CacheHit"
  shows "\<exists>h' c' keys' result k key. (h', OpPutResolved c' keys' result) \<in> set hist \<and>
    k \<in> set keys' \<and> key \<in> set keys \<and> linked hist (Key_Value k) (Key_Value key) \<and>
    CR_KeyType res = Key_Type key \<and>
    CR_Result res = emptyResult\<lparr>Result_EIDs := Result_EIDs result, Result_ABTestUUID := Result_ABTestUUID result,
      Result_TerminationCause := Result_TerminationCause result\<rparr>"
proof -
  have "fleet_sound codec content1 content2 hist s" by (rule fleet_invariant [OF run ok start ops])
  from kept_found [OF fleet_sound_kept [OF ok this] get] hit
  obtain key e l where key: "key \<in> set keys" "sound codec hist (Key_Value key) e" "\<not> entry_InProgress e"
    and f: "res = cacheResultFromEntry e (Key_Type key) l" by blast
  have neg: "\<not> entry_Negative e" using hit f by (auto simp: cacheResultFromEntry_def Let_def split: if_splits)
  from neg traced_resolved [of hist "Key_Value key" e] key(2,3) obtain h' c' keys' result k0 where
    "(h', OpPutResolved c' keys' result) \<in> set hist" "k0 \<in> Key_Value ` set keys'" "linked hist k0 (Key_Value key)"
    "entry_EIDs e = Result_EIDs result" "entry_ABTestUUID e = Result_ABTestUUID result"
    "entry_TerminationCause e = Result_TerminationCause result" unfolding sound_def by metis
  moreover from this f have "CR_KeyType res = Key_Type key"
    "CR_Result res = emptyResult\<lparr>Result_EIDs := Result_EIDs result, Result_ABTestUUID := Result_ABTestUUID result,
      Result_TerminationCause := Result_TerminationCause result\<rparr>"
    using key(3) neg by (simp_all add: cacheResultFromEntry_def Let_def emptyResult_def)
  ultimately show ?thesis using key(1) by blast
qed

section \<open>Two hosts on one Redis server\<close>

definition newFleet :: "(bytes \<Rightarrow> bytes option, (string \<Rightarrow> bytes option) redisStore) fleet" where
  "newFleet = \<lparr>fl_l1 = (\<lambda>_. Map.empty), fl_l2 = redis_NewWithClient Map.empty, fl_clock = (\<lambda>_. stillClock 0)\<rparr>"

definition sampleOp :: cacheOp where
  "sampleOp = OpPutResolved Background sampleKeys sampleResult"

definition warmFleet :: "(bytes \<Rightarrow> bytes option, (string \<Rightarrow> bytes option) redisStore) fleet" where
  "warmFleet = afterOp newFleet 0 (runOp redisHost sampleOp (hostState newFleet 0))"

lemma sampleOp_ok: "op_ok referenceCodec sampleOp"
  by (simp add: op_ok_def sampleOp_def entry_ok_def sampleResult_def emptyResult_def emptyEntry_def sampleEID_ok
      isASCII_valid_utf8 isASCII_def in_int64_def)

lemma redisFleet_ok: "fleet_ok (\<lambda>_. redisHost) referenceCodec (\<lambda>f. f) redis_client"
  using mapRedis_documented by (simp add: fleet_ok_def redisHost_def mapL1_faithful l2_documented_def)

lemma warmFleet_hit:
  "\<exists>e. fst (Get redisHost Background sampleKeys (hostState warmFleet 1)) = Inr (cacheResultFromEntry e CacheKeyFirstParty CacheLayerL2) \<and>
     \<not> entry_InProgress e \<and> \<not> entry_Negative e"
proof -
  let ?k = "\<lparr>Key_Value = ''p1'', Key_Type = CacheKeyFirstParty\<rparr> :: CacheKey"
  let ?ks = "[\<lparr>Key_Value = ''d1'', Key_Type = CacheKeyDevice\<rparr>] :: CacheKey list"
  let ?ttl = "EffectiveTTL (ic_policy redisHost) (Key_Type ?k) (Result_CacheTTL sampleResult)"
  have ttl: "?ttl = 3600000000000"
    by (simp add: redisHost_def samplePolicy EffectiveTTL_def sampleResult_def emptyResult_def)
  obtain e clk where e: "resolved sampleResult ?ttl (cs_clock (hostState newFleet 0)) = (e, clk)" by force
  then have e': "entry_ok (ic_codec redisHost) e" "\<not> entry_InProgress e" "\<not> entry_Negative e" "entry_ExpiresAt e = 3600000"
    unfolding ttl
    by (auto simp: redisHost_def resolved_def expiry_def Now_def hostState_def newFleet_def stillClock_def entry_ok_def
        sampleResult_def emptyResult_def emptyEntry_def sampleEID_ok isASCII_valid_utf8 isASCII_def in_int64_def
        UnixMilli_def Milliseconds_def time_Millisecond_def sdiv_nonneg wrap64_small)
  obtain b where b: "encode (ic_codec redisHost) e = Some b" "b \<noteq> []" "decodeEntry (ic_codec redisHost) b = Some e"
    using decodeEntry_encode [OF e'(1)] by metis
  have l2: "l2_documented (ic_store redisHost) redis_client" by (simp add: redisHost_def mapRedis_documented)
  have clk: "cs_clock (hostState newFleet 0) = stillClock 0" by (simp add: hostState_def newFleet_def)
  have b1: "encode (ic_codec redisHost) (fst (resolved sampleResult ?ttl (cs_clock (hostState newFleet 0)))) = Some b"
    using e b(1) by simp
  have taken: "fst (Store_Put (ic_store redisHost) Background (Key_Value ?k) b ?ttl (cs_l2 (hostState newFleet 0))) = None"
    by (simp add: redisHost_def mapRedis_ops)
  have "distinct (map Key_Value (?k # ?ks))" "0 < ?ttl" unfolding ttl by simp_all
  from PutResolved_first_l2 [OF l2 this(1) refl this(2) b1 taken] redisHost_stored(2) [OF clk refl ttl, of ?ks]
  have "redis_client (cs_l2 (hostState warmFleet 1)) ''p1'' = Some b"
    by (simp add: warmFleet_def sampleOp_def sampleKeys_def afterOp_def hostState_def del: PutResolved.simps) auto
  moreover obtain v where "fst (Store_Get (ic_store redisHost) Background (Key_Value ?k) (cs_l2 (hostState warmFleet 1))) = Inr v"
    unfolding redisHost_def identityCache.simps using mapRedis_ops(3) by blast
  ultimately have "fst (Get redisHost Background (?k # ?ks) (hostState warmFleet 1)) = Inr (cacheResultFromEntry e (Key_Type ?k) CacheLayerL2)"
    by (intro Get_first_key_l2 [OF l2, where lcontent = "\<lambda>f. f" and b = b and v = v])
       (use b e' in \<open>simp_all add: redisHost_def mapL1_faithful hostState_def warmFleet_def afterOp_def newFleet_def stillClock_def UnixMilli_def\<close>)
  with e' show ?thesis by (auto simp: sampleKeys_def)
qed

theorem fleet_traceback_witness:
  "\<exists>res h c keys result k key. fst (Get redisHost Background sampleKeys (hostState warmFleet 1)) = Inr res \<and>
    CR_State res = CacheHit \<and> (h, OpPutResolved c keys result) \<in> set [(0::nat, sampleOp)] \<and>
    k \<in> set keys \<and> key \<in> set sampleKeys \<and> linked [(0, sampleOp)] (Key_Value k) (Key_Value key) \<and>
    CR_KeyType res = Key_Type key \<and>
    CR_Result res = emptyResult\<lparr>Result_EIDs := Result_EIDs result, Result_ABTestUUID := Result_ABTestUUID result,
      Result_TerminationCause := Result_TerminationCause result\<rparr>"
proof -
  obtain e where e: "fst (Get redisHost Background sampleKeys (hostState warmFleet 1)) = Inr (cacheResultFromEntry e CacheKeyFirstParty CacheLayerL2)"
    "\<not> entry_InProgress e" "\<not> entry_Negative e" using warmFleet_hit by blast
  let ?res = "cacheResultFromEntry e CacheKeyFirstParty CacheLayerL2"
  have hit: "CR_State ?res = CacheHit" using e by (simp add: cacheResultFromEntry_def Let_def)
  obtain st' where get: "Get redisHost Background sampleKeys (hostState warmFleet 1) = (Inr ?res, st')"
    using e(1) by (metis surjective_pairing)
  have run: "fleet_run (\<lambda>_. redisHost) Map.empty newFleet [(0, sampleOp)] warmFleet"
    using fleet_op [OF fleet_start, of "\<lambda>_. redisHost" Map.empty newFleet 0 sampleOp] by (simp add: warmFleet_def)
  have "\<exists>h' c' keys' result k key. (h', OpPutResolved c' keys' result) \<in> set [(0::nat, sampleOp)] \<and>
    k \<in> set keys' \<and> key \<in> set sampleKeys \<and> linked [(0, sampleOp)] (Key_Value k) (Key_Value key) \<and>
    CR_KeyType ?res = Key_Type key \<and>
    CR_Result ?res = emptyResult\<lparr>Result_EIDs := Result_EIDs result, Result_ABTestUUID := Result_ABTestUUID result,
      Result_TerminationCause := Result_TerminationCause result\<rparr>"
    by (rule fleet_traceback [OF run redisFleet_ok _ _ _ _ get hit])
       (simp_all add: newFleet_def redis_NewWithClient_def sampleOp_ok)
  with e(1) hit show ?thesis by blast
qed

end
