(* ===== verification/FileStore.thy ===== *)
theory FileStore
  imports Stores
begin

text \<open>
  \<^verbatim>\<open>cmd/benchmark/filestore.go\<close>: a store that keeps each entry in a file of its own, behind its
  expiry as a big-endian 64-bit number.

  The file system is a record of functions on its state; each of them may fail. A path is the
  list of the elements that \<^verbatim>\<open>filepath.Join\<close> is given, so that \<^verbatim>\<open>filepath.Dir\<close> drops the last one.
  The digest function and the quoting of a path in a message are parameters.
\<close>

type_synonym path = "string list"

record 'd disk =
  os_ReadFile :: "path \<Rightarrow> 'd \<Rightarrow> (go_error + bytes) \<times> 'd"
  os_Remove :: "path \<Rightarrow> 'd \<Rightarrow> go_error option \<times> 'd"
  os_MkdirAll :: "path \<Rightarrow> int \<Rightarrow> 'd \<Rightarrow> go_error option \<times> 'd"
  os_Chmod :: "path \<Rightarrow> int \<Rightarrow> 'd \<Rightarrow> go_error option \<times> 'd"
  os_CreateTemp :: "path \<Rightarrow> string \<Rightarrow> 'd \<Rightarrow> (go_error + path) \<times> 'd"
  os_Write :: "path \<Rightarrow> bytes \<Rightarrow> 'd \<Rightarrow> go_error option \<times> 'd"
  os_CloseFile :: "path \<Rightarrow> 'd \<Rightarrow> go_error option \<times> 'd"
  os_Rename :: "path \<Rightarrow> path \<Rightarrow> 'd \<Rightarrow> go_error option \<times> 'd"
  os_isNotExist :: "go_error \<Rightarrow> bool"

text \<open>The store's own field, the library functions it is linked with, and what it runs on.\<close>

record 'd fileStore =
  file_dir :: string
  file_sha256 :: "bytes \<Rightarrow> bytes"
  file_quote :: "string \<Rightarrow> string"
  file_disk :: "'d disk"

record 'd fileState =
  fst_disk :: 'd
  fst_clock :: clock_state

section \<open>Encodings\<close>

definition expiryPrefixSize :: nat where
  "expiryPrefixSize = 8"

definition hexEncode :: "bytes \<Rightarrow> string" where
  "hexEncode b = concat (map (\<lambda>c. [lowerHex (byte c div 16), lowerHex (byte c mod 16)]) b)"

text \<open>\<^verbatim>\<open>binary.BigEndian\<close>, and the conversions between \<^verbatim>\<open>int64\<close> and \<^verbatim>\<open>uint64\<close>.\<close>

primrec bigEndian :: "nat \<Rightarrow> nat \<Rightarrow> bytes" where
  "bigEndian 0 x = []"
| "bigEndian (Suc n) x = bigEndian n (x div 256) @ [chr (x mod 256)]"

definition PutUint64 :: "nat \<Rightarrow> bytes" where
  "PutUint64 x = bigEndian 8 x"

definition Uint64 :: "bytes \<Rightarrow> nat" where
  "Uint64 b = foldl (\<lambda>a c. a * 256 + byte c) 0 b"

definition uint64_of :: "int \<Rightarrow> nat" where
  "uint64_of x = nat (x mod 2 ^ 64)"

definition int64_of :: "nat \<Rightarrow> int" where
  "int64_of x = wrap64 (int x)"

section \<open>The store\<close>

definition ensurePrivateDir :: "'d disk \<Rightarrow> path \<Rightarrow> 'd \<Rightarrow> go_error option \<times> 'd" where
  "ensurePrivateDir lib path d =
     (case os_MkdirAll lib path 448 d of
        (Some err, d) \<Rightarrow> (Some err, d)
      | (None, d) \<Rightarrow> os_Chmod lib path 448 d)"

definition newFileStore ::
  "'d disk \<Rightarrow> (bytes \<Rightarrow> bytes) \<Rightarrow> (string \<Rightarrow> string) \<Rightarrow> string \<Rightarrow> 'd \<Rightarrow>
     (go_error + 'd fileStore) \<times> 'd" where
  "newFileStore lib sha256 quote dir d =
     (case ensurePrivateDir lib [dir] d of
        (Some err, d) \<Rightarrow> (Inl err, d)
      | (None, d) \<Rightarrow> (Inr \<lparr>file_dir = dir, file_sha256 = sha256, file_quote = quote, file_disk = lib\<rparr>, d))"

definition file_path :: "'d fileStore \<Rightarrow> string \<Rightarrow> path" where
  "file_path store key =
     (let name = hexEncode (file_sha256 store key) in [file_dir store, take 2 name, drop 2 name])"

definition file_Get ::
  "'d fileStore \<Rightarrow> ctx \<Rightarrow> string \<Rightarrow> 'd fileState \<Rightarrow> (go_error + bytes) \<times> 'd fileState" where
  "file_Get store c key s =
     (let lib = file_disk store; path = file_path store key in
      case os_ReadFile lib path (fst_disk s) of
        (Inl err, d) \<Rightarrow>
          (if os_isNotExist lib err then (Inr [], s\<lparr>fst_disk := d\<rparr>)
           else (Inl (WrappedError ''read cache entry: '' err), s\<lparr>fst_disk := d\<rparr>))
      | (Inr contents, d) \<Rightarrow>
          if length contents < expiryPrefixSize then
            (Inl (PlainError (''cache entry '' @ file_quote store (Join path ''/'') @ '' is truncated'')), s\<lparr>fst_disk := d\<rparr>)
          else
            (let (now, clk) = Now (fst_clock s) in
             if wrap64 now > int64_of (Uint64 (take expiryPrefixSize contents)) then
               (Inr [], \<lparr>fst_disk = snd (os_Remove lib path d), fst_clock = clk\<rparr>)
             else (Inr (drop expiryPrefixSize contents), \<lparr>fst_disk = d, fst_clock = clk\<rparr>)))"

text \<open>The part of \<^verbatim>\<open>Put\<close> after the staging file exists; removing it is deferred to every way out.\<close>

definition commitStaged ::
  "'d disk \<Rightarrow> path \<Rightarrow> path \<Rightarrow> bytes \<Rightarrow> 'd \<Rightarrow> go_error option \<times> 'd" where
  "commitStaged lib path stagedName buffer d =
     (let (err, d) =
            (case os_Write lib stagedName buffer d of
               (Some err, d) \<Rightarrow> (Some err, snd (os_CloseFile lib stagedName d))
             | (None, d) \<Rightarrow>
                 (case os_CloseFile lib stagedName d of
                    (Some err, d) \<Rightarrow> (Some err, d)
                  | (None, d) \<Rightarrow> os_Rename lib stagedName path d))
      in (err, snd (os_Remove lib stagedName d)))"

definition file_Put ::
  "'d fileStore \<Rightarrow> ctx \<Rightarrow> string \<Rightarrow> bytes \<Rightarrow> duration \<Rightarrow> 'd fileState \<Rightarrow> go_error option \<times> 'd fileState" where
  "file_Put store c key value ttl s =
     (if ttl \<le> 0 then (None, s)
      else
        (let lib = file_disk store; path = file_path store key in
         case ensurePrivateDir lib (butlast path) (fst_disk s) of
           (Some err, d) \<Rightarrow> (Some err, s\<lparr>fst_disk := d\<rparr>)
         | (None, d) \<Rightarrow>
             (let (now, clk) = Now (fst_clock s);
                  buffer = PutUint64 (uint64_of (wrap64 (now + ttl))) @ value
              in case os_CreateTemp lib (butlast path) ''staging-'' d of
                   (Inl err, d) \<Rightarrow> (Some err, \<lparr>fst_disk = d, fst_clock = clk\<rparr>)
                 | (Inr stagedName, d) \<Rightarrow>
                     (case commitStaged lib path stagedName buffer d of
                        (err, d) \<Rightarrow> (err, \<lparr>fst_disk = d, fst_clock = clk\<rparr>)))))"

definition file_Close :: "'d fileStore \<Rightarrow> 'd fileState \<Rightarrow> go_error option \<times> 'd fileState" where
  "file_Close store s = (None, s)"

definition fileOps :: "'d fileStore \<Rightarrow> 'd fileState Store" where
  "fileOps store = \<lparr>Store_Get = file_Get store, Store_Put = file_Put store, Store_Close = file_Close store\<rparr>"

definition file_lookup ::
  "'d fileStore \<Rightarrow> ctx \<Rightarrow> string \<Rightarrow> 'd fileState \<Rightarrow> (go_error + bytes option) \<times> 'd fileState" where
  "file_lookup store c key s =
     (case file_Get store c key s of (r, s') \<Rightarrow>
        (case r of Inl err \<Rightarrow> Inl err | Inr v \<Rightarrow> Inr (if v = [] then None else Some v), s'))"

interpretation fs: store_adapter "fileOps store" "file_lookup store" for store
  by unfold_locales
     (auto simp: fileOps_def file_lookup_def file_Close_def case_prod_beta prod_eq_iff split: sum.splits)

section \<open>Round trips\<close>

lemma length_bigEndian [simp]: "length (bigEndian n x) = n"
  by (induction n arbitrary: x) simp_all

lemma Uint64_bigEndian: "Uint64 (bigEndian n x) = x mod 256 ^ n"
proof (induction n arbitrary: x)
  case (Suc n)
  have "Uint64 (bigEndian (Suc n) x) = Uint64 (bigEndian n (x div 256)) * 256 + x mod 256"
    by (simp add: Uint64_def)
  also have "\<dots> = x mod 256 ^ Suc n"
    unfolding Suc.IH by (metis mod_mult2_eq mult.commute power_Suc)
  finally show ?case .
qed (simp add: Uint64_def)

lemma int64_uint64: "in_int64 x \<Longrightarrow> int64_of (Uint64 (PutUint64 (uint64_of x))) = x"
proof -
  have "uint64_of x < 2 ^ 64" by (simp add: uint64_of_def nat_less_iff)
  then have "Uint64 (PutUint64 (uint64_of x)) = uint64_of x"
    by (simp add: PutUint64_def Uint64_bigEndian)
  moreover have "wrap64 (x mod 2 ^ 64) = wrap64 x" unfolding wrap64_def by (metis mod_add_left_eq)
  moreover assume "in_int64 x"
  ultimately show ?thesis by (simp add: int64_of_def uint64_of_def wrap64_id)
qed

text \<open>A working disk: nothing fails, and each operation does to the files what its name says.\<close>

definition disk_documented :: "'d disk \<Rightarrow> ('d \<Rightarrow> path \<Rightarrow> bytes option) \<Rightarrow> bool" where
  "disk_documented lib files \<longleftrightarrow>
     (\<forall>p d. files (snd (os_ReadFile lib p d)) = files d \<and>
        (case files d p of
           None \<Rightarrow> (\<exists>err. fst (os_ReadFile lib p d) = Inl err \<and> os_isNotExist lib err)
         | Some b \<Rightarrow> fst (os_ReadFile lib p d) = Inr b)) \<and>
     (\<forall>p d. files (snd (os_Remove lib p d)) = (files d)(p := None)) \<and>
     (\<forall>p m d. fst (os_MkdirAll lib p m d) = None \<and> files (snd (os_MkdirAll lib p m d)) = files d) \<and>
     (\<forall>p m d. fst (os_Chmod lib p m d) = None \<and> files (snd (os_Chmod lib p m d)) = files d) \<and>
     (\<forall>dir pattern d. \<exists>name. fst (os_CreateTemp lib dir pattern d) = Inr (dir @ [pattern @ name]) \<and>
        files d (dir @ [pattern @ name]) = None \<and>
        files (snd (os_CreateTemp lib dir pattern d)) = (files d)(dir @ [pattern @ name] \<mapsto> [])) \<and>
     (\<forall>p b d. fst (os_Write lib p b d) = None \<and>
        files (snd (os_Write lib p b d)) = (files d)(p \<mapsto> (case files d p of None \<Rightarrow> b | Some a \<Rightarrow> a @ b))) \<and>
     (\<forall>p d. fst (os_CloseFile lib p d) = None \<and> files (snd (os_CloseFile lib p d)) = files d) \<and>
     (\<forall>p q d. p \<noteq> q \<longrightarrow> fst (os_Rename lib p q d) = None \<and>
        files (snd (os_Rename lib p q d)) = (files d)(q := files d p, p := None))"

lemma disk_read:
  assumes "disk_documented lib files"
  shows "\<exists>r d'. os_ReadFile lib p d = (r, d') \<and> files d' = files d \<and> (\<forall>b. files d p = Some b \<longrightarrow> r = Inr b)"
proof -
  have "files (snd (os_ReadFile lib p d)) = files d \<and>
      (case files d p of None \<Rightarrow> (\<exists>err. fst (os_ReadFile lib p d) = Inl err \<and> os_isNotExist lib err)
       | Some b \<Rightarrow> fst (os_ReadFile lib p d) = Inr b)"
    using assms [unfolded disk_documented_def, THEN conjunct1] by simp
  then show ?thesis by (cases "os_ReadFile lib p d") auto
qed

lemma disk_temp:
  assumes "disk_documented lib files"
  obtains name d' where "os_CreateTemp lib dir pattern d = (Inr (dir @ [pattern @ name]), d')"
    "files d (dir @ [pattern @ name]) = None" "files d' = (files d)(dir @ [pattern @ name] \<mapsto> [])"
proof -
  have "\<exists>name. fst (os_CreateTemp lib dir pattern d) = Inr (dir @ [pattern @ name]) \<and>
      files d (dir @ [pattern @ name]) = None \<and>
      files (snd (os_CreateTemp lib dir pattern d)) = (files d)(dir @ [pattern @ name] \<mapsto> [])"
    using assms unfolding disk_documented_def by blast
  with that show thesis by (cases "os_CreateTemp lib dir pattern d") auto
qed

lemma disk_steps:
  assumes "disk_documented lib files"
  shows "\<exists>d'. os_MkdirAll lib p m d = (None, d') \<and> files d' = files d"
    and "\<exists>d'. os_Chmod lib p m d = (None, d') \<and> files d' = files d"
    and "\<exists>d'. os_Write lib p b d = (None, d') \<and>
      files d' = (files d)(p \<mapsto> (case files d p of None \<Rightarrow> b | Some a \<Rightarrow> a @ b))"
    and "\<exists>d'. os_CloseFile lib p d = (None, d') \<and> files d' = files d"
    and "p \<noteq> q \<Longrightarrow> \<exists>d'. os_Rename lib p q d = (None, d') \<and> files d' = (files d)(q := files d p, p := None)"
    and "files (snd (os_Remove lib p d)) = (files d)(p := None)"
proof -
  note D = assms [unfolded disk_documented_def]
  from D have "fst (os_MkdirAll lib p m d) = None \<and> files (snd (os_MkdirAll lib p m d)) = files d" by blast
  then show "\<exists>d'. os_MkdirAll lib p m d = (None, d') \<and> files d' = files d" by (cases "os_MkdirAll lib p m d") simp
  from D have "fst (os_Chmod lib p m d) = None \<and> files (snd (os_Chmod lib p m d)) = files d" by blast
  then show "\<exists>d'. os_Chmod lib p m d = (None, d') \<and> files d' = files d" by (cases "os_Chmod lib p m d") simp
  from D have "fst (os_Write lib p b d) = None \<and>
      files (snd (os_Write lib p b d)) = (files d)(p \<mapsto> (case files d p of None \<Rightarrow> b | Some a \<Rightarrow> a @ b))" by blast
  then show "\<exists>d'. os_Write lib p b d = (None, d') \<and>
      files d' = (files d)(p \<mapsto> (case files d p of None \<Rightarrow> b | Some a \<Rightarrow> a @ b))" by (cases "os_Write lib p b d") simp
  from D have "fst (os_CloseFile lib p d) = None \<and> files (snd (os_CloseFile lib p d)) = files d" by blast
  then show "\<exists>d'. os_CloseFile lib p d = (None, d') \<and> files d' = files d" by (cases "os_CloseFile lib p d") simp
  show "\<exists>d'. os_Rename lib p q d = (None, d') \<and> files d' = (files d)(q := files d p, p := None)" if "p \<noteq> q"
  proof -
    from D that have "fst (os_Rename lib p q d) = None \<and> files (snd (os_Rename lib p q d)) = (files d)(q := files d p, p := None)"
      by blast
    then show ?thesis by (cases "os_Rename lib p q d") simp
  qed
  from D show "files (snd (os_Remove lib p d)) = (files d)(p := None)" by blast
qed

lemma hexEncode_no_s: "CHR ''s'' \<notin> set (hexEncode b)"
proof -
  have "CHR ''s'' \<noteq> lowerHex d" if "d < 16" for d
  proof
    assume "CHR ''s'' = lowerHex d"
    then have "byte (lowerHex d) = 115" by (simp flip: \<open>CHR ''s'' = lowerHex d\<close>)
    with that show False by (auto simp: lowerHex_def split: if_splits)
  qed
  then have "CHR ''s'' \<noteq> lowerHex (byte c div 16)" "CHR ''s'' \<noteq> lowerHex (byte c mod 16)" for c
    by (simp_all add: less_mult_imp_div_less)
  then show ?thesis by (auto simp: hexEncode_def)
qed

lemma file_path_not_staging: "file_path store key \<noteq> dir @ [''staging-'' @ name]"
proof
  assume "file_path store key = dir @ [''staging-'' @ name]"
  then have "drop 2 (hexEncode (file_sha256 store key)) = ''staging-'' @ name"
    by (simp add: file_path_def Let_def Cons_eq_append_conv)
  then have "CHR ''s'' \<in> set (hexEncode (file_sha256 store key))"
    by (metis append_Cons in_set_dropD list.set_intros(1))
  then show False by (simp add: hexEncode_no_s)
qed

lemma commitStaged_works:
  assumes disk: "disk_documented lib files" and staged: "files d n = Some []" and n: "n \<noteq> p"
    and commit: "commitStaged lib p n buffer d = (err, d')"
  shows "err = None \<and> files d' = (files d)(p \<mapsto> buffer, n := None)"
proof -
  obtain d1 where w: "os_Write lib n buffer d = (None, d1)" "files d1 = (files d)(n \<mapsto> buffer)"
    using disk_steps(3) [OF disk, of n buffer d] staged by auto
  obtain d2 where c: "os_CloseFile lib n d1 = (None, d2)" "files d2 = files d1"
    using disk_steps(4) [OF disk] by blast
  obtain d3 where r: "os_Rename lib n p d2 = (None, d3)" "files d3 = (files d2)(p := files d2 n, n := None)"
    using disk_steps(5) [OF disk n] by blast
  have "files (snd (os_Remove lib n d3)) = (files d3)(n := None)" by (rule disk_steps(6) [OF disk])
  with commit w c r n show ?thesis by (auto simp: commitStaged_def)
qed

lemma file_Put_works:
  assumes disk: "disk_documented (file_disk store) files" and ttl: "0 < ttl"
    and put: "file_Put store c key value ttl s = (err, s1)"
  shows "err = None \<and> fst_clock s1 = snd (Now (fst_clock s)) \<and>
    files (fst_disk s1) = (files (fst_disk s))(file_path store key \<mapsto>
      PutUint64 (uint64_of (wrap64 (fst (Now (fst_clock s)) + ttl))) @ value)"
proof -
  let ?lib = "file_disk store" and ?p = "file_path store key"
  have dir: "\<exists>d1. ensurePrivateDir ?lib q d = (None, d1) \<and> files d1 = files d" for q d
  proof -
    obtain d1 where "os_MkdirAll ?lib q 448 d = (None, d1)" "files d1 = files d"
      using disk_steps(1) [OF disk] by blast
    moreover obtain d2 where "os_Chmod ?lib q 448 d1 = (None, d2)" "files d2 = files d1"
      using disk_steps(2) [OF disk] by blast
    ultimately show ?thesis by (simp add: ensurePrivateDir_def)
  qed
  then obtain d1 where d1: "ensurePrivateDir ?lib (butlast ?p) (fst_disk s) = (None, d1)"
      "files d1 = files (fst_disk s)" by blast
  obtain name d2 where t: "os_CreateTemp ?lib (butlast ?p) ''staging-'' d1 = (Inr (butlast ?p @ [''staging-'' @ name]), d2)"
      "files d1 (butlast ?p @ [''staging-'' @ name]) = None"
      "files d2 = (files d1)(butlast ?p @ [''staging-'' @ name] \<mapsto> [])"
    by (rule disk_temp [OF disk])
  let ?n = "butlast ?p @ [''staging-'' @ name]"
  let ?b = "PutUint64 (uint64_of (wrap64 (fst (Now (fst_clock s)) + ttl))) @ value"
  have n: "?n \<noteq> ?p" using file_path_not_staging by metis
  obtain e d3 where k: "commitStaged ?lib ?p ?n ?b d2 = (e, d3)" by force
  have "e = None \<and> files d3 = (files d2)(?p \<mapsto> ?b, ?n := None)"
    by (rule commitStaged_works [OF disk _ n k]) (simp add: t)
  moreover from this have "files d3 = (files (fst_disk s))(?p \<mapsto> ?b)"
    using n t(2,3) d1(2) by (auto simp: fun_eq_iff)
  ultimately show ?thesis
    using put ttl d1(1) t(1) k by (auto simp: file_Put_def Let_def case_prod_beta)
qed

text \<open>
  C32. An entry of the benchmark's file store reads back exactly, up to and including its
  expiry; after it the entry is gone, and its file too. A put leaves no staging file behind
  and changes no other entry. (On a working disk, for instants in the 64-bit range.)
\<close>

theorem fileStore_roundtrip:
  assumes disk: "disk_documented (file_disk store) files" and ttl: "0 < ttl"
    and put: "file_Put store c key value ttl s = (err, s1)"
    and now: "now = fst (Now (fst_clock s))" "later = fst (Now (fst_clock s1))"
    and range: "in_int64 (now + ttl)" "in_int64 later"
  shows "err = None \<and>
    (later \<le> now + ttl \<longrightarrow> fst (file_Get store c' key s1) = Inr value) \<and>
    (now + ttl < later \<longrightarrow> fst (file_Get store c' key s1) = Inr [] \<and>
       files (fst_disk (snd (file_Get store c' key s1))) (file_path store key) = None) \<and>
    (\<forall>p. p \<noteq> file_path store key \<longrightarrow> files (fst_disk s1) p = files (fst_disk s) p)"
proof -
  let ?lib = "file_disk store" and ?p = "file_path store key"
  let ?b = "PutUint64 (uint64_of (wrap64 (now + ttl))) @ value"
  have w: "err = None" "files (fst_disk s1) = (files (fst_disk s))(?p \<mapsto> ?b)"
    using file_Put_works [OF disk ttl put] now by auto
  obtain d where r: "os_ReadFile ?lib ?p (fst_disk s1) = (Inr ?b, d)" "files d = files (fst_disk s1)"
    using disk_read [OF disk, of ?p "fst_disk s1"] w(2) by auto
  have len: "length (PutUint64 x) = 8" for x by (simp add: PutUint64_def)
  have ex: "int64_of (Uint64 (take expiryPrefixSize ?b)) = now + ttl"
    using range(1) by (simp add: expiryPrefixSize_def len wrap64_id int64_uint64)
  have "file_Get store c' key s1 =
      (if now + ttl < later
       then (Inr [], \<lparr>fst_disk = snd (os_Remove ?lib ?p d), fst_clock = snd (Now (fst_clock s1))\<rparr>)
       else (Inr value, \<lparr>fst_disk = d, fst_clock = snd (Now (fst_clock s1))\<rparr>))"
    using r ex now(2) range(2)
    by (simp add: file_Get_def Let_def case_prod_beta wrap64_id) (simp add: expiryPrefixSize_def len)
  moreover have "files (snd (os_Remove ?lib ?p d)) ?p = None"
    using disk unfolding disk_documented_def by simp
  ultimately show ?thesis using w by auto
qed

section \<open>A disk in memory\<close>

text \<open>Files as an association list; a name that is longer than all of theirs is new.\<close>

type_synonym memory = "(path \<times> bytes) list"

definition freshName :: "memory \<Rightarrow> string" where
  "freshName d = replicate (Suc (sum_list (map (\<lambda>(p, b). length (last p)) d))) CHR ''0''"

definition memoryDisk :: "memory disk" where
  "memoryDisk =
     \<lparr>os_ReadFile = (\<lambda>p d. (case map_of d p of None \<Rightarrow> Inl (PlainError ''file does not exist'') | Some b \<Rightarrow> Inr b, d)),
      os_Remove = (\<lambda>p d. (None, filter (\<lambda>(q, b). q \<noteq> p) d)),
      os_MkdirAll = (\<lambda>p m d. (None, d)), os_Chmod = (\<lambda>p m d. (None, d)),
      os_CreateTemp = (\<lambda>dir pattern d. let n = dir @ [pattern @ freshName d] in (Inr n, (n, []) # d)),
      os_Write = (\<lambda>p b d. (None, (p, case map_of d p of None \<Rightarrow> b | Some a \<Rightarrow> a @ b) # d)),
      os_CloseFile = (\<lambda>p d. (None, d)),
      os_Rename = (\<lambda>p q d. (None, case map_of d p of
         None \<Rightarrow> filter (\<lambda>(r, b). r \<noteq> p \<and> r \<noteq> q) d
       | Some b \<Rightarrow> (q, b) # filter (\<lambda>(r, b). r \<noteq> p) d)),
      os_isNotExist = (\<lambda>e. e = PlainError ''file does not exist'')\<rparr>"

lemma freshName_new: "map_of d (dir @ [pattern @ freshName d]) = None"
proof -
  have "length (last p) < length (pattern @ freshName d)" if "(p, b) \<in> set d" for p b
    using member_le_sum_list [of "length (last p)" "map (\<lambda>(p, b). length (last p)) d"] that
    by (force simp: freshName_def)
  then have "(dir @ [pattern @ freshName d], b) \<notin> set d" for b by fastforce
  then show ?thesis by (auto simp: map_of_eq_None_iff)
qed

lemma map_of_filter_key: "map_of (filter (\<lambda>(q, b). P q) d) = (\<lambda>q. if P q then map_of d q else None)"
  by (induction d) auto

lemma memoryDisk_documented: "disk_documented memoryDisk map_of"
  unfolding disk_documented_def
  by (auto simp: memoryDisk_def freshName_new map_of_filter_key Let_def fun_eq_iff split: option.splits)

definition sampleFileStore :: "memory fileStore" where
  "sampleFileStore = \<lparr>file_dir = ''d'', file_sha256 = id, file_quote = id, file_disk = memoryDisk\<rparr>"

theorem fileStore_roundtrip_witness:
  "fst (file_Put sampleFileStore Background ''k'' ''v'' 10
      \<lparr>fst_disk = [], fst_clock = \<lparr>readings = int, reads = 5\<rparr>\<rparr>) = None \<and>
   fst (file_Get sampleFileStore Background ''k'' (snd (file_Put sampleFileStore Background ''k'' ''v'' 10
      \<lparr>fst_disk = [], fst_clock = \<lparr>readings = int, reads = 5\<rparr>\<rparr>))) = Inr ''v''"
proof -
  let ?s = "\<lparr>fst_disk = [], fst_clock = \<lparr>readings = int, reads = 5\<rparr>\<rparr> :: memory fileState"
  obtain err s1 where p: "file_Put sampleFileStore Background ''k'' ''v'' 10 ?s = (err, s1)" by force
  have d: "disk_documented (file_disk sampleFileStore) map_of"
    by (simp add: sampleFileStore_def memoryDisk_documented)
  have c: "fst_clock s1 = snd (Now (fst_clock ?s))" using file_Put_works [OF d _ p] by simp
  from fileStore_roundtrip [OF d _ p refl refl, of Background] p c show ?thesis
    by (simp add: Now_def in_int64_def)
qed

end
