(* ===== verification/Prometheus.thy ===== *)
theory Prometheus
  imports EnricherSystem Reporter IdentityCache
begin

text \<open>
  \<^verbatim>\<open>integrations/prometheus/metrics.go\<close>: the metrics of the enricher, the cache and the reporter as
  Prometheus collectors.

  The Prometheus library (the registry and the values of its collectors) is a record of
  functions on a state; a collector is a value of its own type. The struct \<^verbatim>\<open>Metrics\<close> has one
  field for each collector: it is a function on the names of those fields.
\<close>

section \<open>Collectors\<close>

datatype collectorKind = CounterVec | HistogramVec | Histogram | Gauge

record collectorDesc =
  cd_kind :: collectorKind
  cd_Name :: string
  cd_Help :: string
  cd_Buckets :: "rat list"
  cd_labels :: "string list"

datatype 'col registerError = AlreadyRegistered 'col | RegisterError go_error

record ('col, 'r) promLib =
  pl_New :: "collectorDesc \<Rightarrow> 'r \<Rightarrow> 'col \<times> 'r"
  pl_nil :: 'col
  pl_kind :: "'col \<Rightarrow> collectorKind"
  pl_typeName :: "'col \<Rightarrow> string"
  pl_Register :: "'col \<Rightarrow> 'r \<Rightarrow> 'col registerError option \<times> 'r"
  pl_DefBuckets :: "rat list"
  pl_Inc :: "'col \<Rightarrow> string list \<Rightarrow> 'r \<Rightarrow> 'r"
  pl_ObserveWith :: "'col \<Rightarrow> string list \<Rightarrow> rat \<Rightarrow> 'r \<Rightarrow> 'r"
  pl_Observe :: "'col \<Rightarrow> rat \<Rightarrow> 'r \<Rightarrow> 'r"
  pl_GaugeSet :: "'col \<Rightarrow> rat \<Rightarrow> 'r \<Rightarrow> 'r"
  pl_GaugeInc :: "'col \<Rightarrow> 'r \<Rightarrow> 'r"
  pl_GaugeDec :: "'col \<Rightarrow> 'r \<Rightarrow> 'r"

definition promPrefix :: string where
  "promPrefix = ''iiq'' @ ''_'' @ ''identity'' @ ''_''"

definition l2LatencyBuckets :: "rat list" where
  "l2LatencyBuckets = [5 / 10000, 1 / 1000, 25 / 10000, 5 / 1000, 1 / 100, 25 / 1000, 5 / 100, 1 / 10, 25 / 100, 5 / 10, 1]"

text \<open>The fields of \<^verbatim>\<open>Metrics\<close>.\<close>

datatype metricField =
    F_cacheLookup | F_requests | F_apiSuccess | F_apiError | F_enriched | F_notEnriched
  | F_apiLatency | F_backgroundActive | F_backgroundCapacity
  | F_impressionReported | F_impressionError | F_impressionRejected | F_impressionLatency
  | F_reportingActive | F_reportingCapacity
  | F_l2GetLatency | F_l2PutLatency | F_l2Requests

definition counterOf :: "string \<Rightarrow> string \<Rightarrow> string list \<Rightarrow> collectorDesc" where
  "counterOf name help labels =
     \<lparr>cd_kind = CounterVec, cd_Name = promPrefix @ name, cd_Help = help, cd_Buckets = [], cd_labels = labels\<rparr>"

definition histogramOf :: "collectorKind \<Rightarrow> string \<Rightarrow> string \<Rightarrow> rat list \<Rightarrow> string list \<Rightarrow> collectorDesc" where
  "histogramOf kind name help buckets labels =
     \<lparr>cd_kind = kind, cd_Name = promPrefix @ name, cd_Help = help, cd_Buckets = buckets, cd_labels = labels\<rparr>"

definition gaugeOf :: "string \<Rightarrow> string \<Rightarrow> collectorDesc" where
  "gaugeOf name help =
     \<lparr>cd_kind = Gauge, cd_Name = promPrefix @ name, cd_Help = help, cd_Buckets = [], cd_labels = []\<rparr>"

text \<open>What \<^verbatim>\<open>New\<close> makes for each field.\<close>

fun metricDesc :: "rat list \<Rightarrow> metricField \<Rightarrow> collectorDesc" where
  "metricDesc def F_cacheLookup = counterOf ''cache_lookup_total''
     ''Cache lookups by result: hit=positive entry served (no API call), miss=no positive entry (true miss, negative sentinel or in-flight marker). layer is l1/l2 on a hit, none on a miss. Sum = total lookups.''
     [''result'', ''layer'', ''partner_id'']"
| "metricDesc def F_requests = counterOf ''requests_total''
     ''Enrich-hook invocations (identity ingress QPS), by partner_id.'' [''partner_id'']"
| "metricDesc def F_apiSuccess = counterOf ''api_success_total''
     ''Resolution API responded 2xx and parsed OK, by partner_id.'' [''partner_id'']"
| "metricDesc def F_apiError = counterOf ''api_error_total''
     ''Resolution S2S failures, by reason (timeout|transport|status|body_read|parse|request), status_code (HTTP code when a response was received, else empty), and partner_id.''
     [''reason'', ''status_code'', ''partner_id'']"
| "metricDesc def F_enriched = counterOf ''enriched_total''
     ''Resolutions that added >=1 eid to user.eids (a match), by partner_id.'' [''partner_id'']"
| "metricDesc def F_notEnriched = counterOf ''not_enriched_total''
     ''Resolutions that added no eids, by reason (no_ids|no_ids_cached|in_progress|no_endpoint|wait_expired|background_limit) and partner_id. S2S failures are counted in api_error_total.''
     [''reason'', ''partner_id'']"
| "metricDesc def F_apiLatency = histogramOf HistogramVec ''api_latency_seconds''
     ''Resolution API call duration in seconds, by partner_id.'' def [''partner_id'']"
| "metricDesc def F_backgroundActive = gaugeOf ''background_active''
     ''Current number of admitted async or hybrid enrichment jobs.''"
| "metricDesc def F_backgroundCapacity = gaugeOf ''background_capacity''
     ''Maximum number of concurrently admitted async or hybrid enrichment jobs.''"
| "metricDesc def F_impressionReported = counterOf ''impression_reported_total''
     ''Winning bids reported to the reports_endpoint, by partner_id.'' [''partner_id'']"
| "metricDesc def F_impressionError = counterOf ''impression_error_total''
     ''Impression-report calls that failed, by partner_id.'' [''partner_id'']"
| "metricDesc def F_impressionRejected = counterOf ''impression_rejected_total''
     ''Impression reports rejected before execution, by reason (at_capacity|shutting_down) and partner_id.''
     [''reason'', ''partner_id'']"
| "metricDesc def F_impressionLatency = histogramOf HistogramVec ''impression_api_latency_seconds''
     ''Impression reporting API call duration in seconds, by partner_id.'' def [''partner_id'']"
| "metricDesc def F_reportingActive = gaugeOf ''reporting_active''
     ''Current number of admitted impression reporting jobs.''"
| "metricDesc def F_reportingCapacity = gaugeOf ''reporting_capacity''
     ''Maximum number of concurrently admitted impression reporting jobs.''"
| "metricDesc def F_l2GetLatency = histogramOf Histogram ''l2_get_latency_seconds''
     ''L2 (shared store) GET duration in seconds.'' l2LatencyBuckets []"
| "metricDesc def F_l2PutLatency = histogramOf Histogram ''l2_put_latency_seconds''
     ''L2 (shared store) PUT duration in seconds.'' l2LatencyBuckets []"
| "metricDesc def F_l2Requests = counterOf ''l2_requests_total''
     ''L2 (shared store) operations, by op (get|put) and result (hit|miss|stored|error).'' [''op'', ''result'']"

text \<open>The order in which \<^verbatim>\<open>New\<close> registers them.\<close>

definition metricFields :: "metricField list" where
  "metricFields =
     [F_cacheLookup, F_requests, F_apiSuccess, F_apiError, F_enriched, F_notEnriched, F_apiLatency,
      F_backgroundActive, F_backgroundCapacity, F_impressionReported, F_impressionError,
      F_impressionRejected, F_impressionLatency, F_reportingActive, F_reportingCapacity,
      F_l2GetLatency, F_l2PutLatency, F_l2Requests]"

section \<open>Registration\<close>

definition prom_register :: "('col, 'r) promLib \<Rightarrow> 'col \<Rightarrow> 'r \<Rightarrow> (go_error + 'col) \<times> 'r" where
  "prom_register lib collector r =
     (case pl_Register lib collector r of
        (None, r) \<Rightarrow> (Inr collector, r)
      | (Some (AlreadyRegistered existing), r) \<Rightarrow> (Inr existing, r)
      | (Some (RegisterError err), r) \<Rightarrow> (Inl err, r))"

fun kindName :: "collectorKind \<Rightarrow> string" where
  "kindName CounterVec = ''*prometheus.CounterVec''"
| "kindName HistogramVec = ''*prometheus.HistogramVec''"
| "kindName Histogram = ''prometheus.Histogram''"
| "kindName Gauge = ''prometheus.Gauge''"

text \<open>
  \<^verbatim>\<open>registerCounterVec\<close>, \<^verbatim>\<open>registerHistogramVec\<close>, \<^verbatim>\<open>registerHistogram\<close> and \<^verbatim>\<open>registerGauge\<close>, which
  differ in the type that they ask the registered collector for.
\<close>

definition registerKind ::
  "('col, 'r) promLib \<Rightarrow> collectorKind \<Rightarrow> 'col \<Rightarrow> 'r \<Rightarrow> (go_error + 'col) \<times> 'r" where
  "registerKind lib kind collector r =
     (case prom_register lib collector r of
        (Inl err, r) \<Rightarrow> (Inl err, r)
      | (Inr existing, r) \<Rightarrow>
          if pl_kind lib existing = kind then (Inr existing, r)
          else (Inl (PlainError (''registered collector has type '' @ pl_typeName lib existing @
                  '', want '' @ kindName kind)), r))"

type_synonym 'col Metrics = "metricField \<Rightarrow> 'col"

fun registerFields ::
  "('col, 'r) promLib \<Rightarrow> metricField list \<Rightarrow> 'col Metrics \<Rightarrow> 'r \<Rightarrow> (go_error + 'col Metrics) \<times> 'r" where
  "registerFields lib [] metrics r = (Inr metrics, r)"
| "registerFields lib (f # fs) metrics r =
     (let desc = metricDesc (pl_DefBuckets lib) f; (collector, r) = pl_New lib desc r in
      case registerKind lib (cd_kind desc) collector r of
        (Inl err, r) \<Rightarrow> (Inl err, r)
      | (Inr registered, r) \<Rightarrow> registerFields lib fs (metrics(f := registered)) r)"

definition metrics_New :: "('col, 'r) promLib \<Rightarrow> 'r \<Rightarrow> (go_error + 'col Metrics) \<times> 'r" where
  "metrics_New lib r = registerFields lib metricFields (\<lambda>_. pl_nil lib) r"

section \<open>The metrics interfaces\<close>

fun NotEnrichedReason_string :: "NotEnrichedReason \<Rightarrow> string" where
  "NotEnrichedReason_string ReasonNoIDs = ''no_ids''"
| "NotEnrichedReason_string ReasonNoIDsCached = ''no_ids_cached''"
| "NotEnrichedReason_string ReasonUnresolved = ''unresolved''"
| "NotEnrichedReason_string ReasonInProgress = ''in_progress''"
| "NotEnrichedReason_string ReasonNoEndpoint = ''no_endpoint''"
| "NotEnrichedReason_string ReasonWaitExpired = ''wait_expired''"
| "NotEnrichedReason_string ReasonBackgroundLimit = ''background_limit''"

fun CacheLookupResult_string :: "CacheLookupResult \<Rightarrow> string" where
  "CacheLookupResult_string CacheLookupHit = ''hit''"
| "CacheLookupResult_string CacheLookupMiss = ''miss''"

text \<open>Each call of a metrics method by the enricher, by name; the logger is not a metric.\<close>

fun enricherMetric :: "('col, 'r) promLib \<Rightarrow> 'col Metrics \<Rightarrow> enricher_event \<Rightarrow> 'r \<Rightarrow> 'r" where
  "enricherMetric lib m (EnrichRequest partnerID) r = pl_Inc lib (m F_requests) [partnerID] r"
| "enricherMetric lib m (Enriched partnerID) r = pl_Inc lib (m F_enriched) [partnerID] r"
| "enricherMetric lib m (NotEnriched partnerID reason) r =
     pl_Inc lib (m F_notEnriched) [NotEnrichedReason_string reason, partnerID] r"
| "enricherMetric lib m (APIRequestDuration partnerID duration) r =
     pl_ObserveWith lib (m F_apiLatency) [partnerID] (Duration_Seconds duration) r"
| "enricherMetric lib m (APISuccess partnerID) r = pl_Inc lib (m F_apiSuccess) [partnerID] r"
| "enricherMetric lib m (APIErrorCount partnerID kind statusCode) r =
     pl_Inc lib (m F_apiError) [kind, if statusCode \<noteq> 0 then Itoa statusCode else [], partnerID] r"
| "enricherMetric lib m (CacheLookup partnerID result layer) r =
     pl_Inc lib (m F_cacheLookup) [CacheLookupResult_string result, CacheLayer_Token layer, partnerID] r"
| "enricherMetric lib m (BackgroundCapacity capacity) r =
     pl_GaugeSet lib (m F_backgroundCapacity) (IdentityCache.float64 (of_int capacity)) r"
| "enricherMetric lib m BackgroundStarted r = pl_GaugeInc lib (m F_backgroundActive) r"
| "enricherMetric lib m BackgroundFinished r = pl_GaugeDec lib (m F_backgroundActive) r"
| "enricherMetric lib m (EnrichWarn _) r = r"

fun reporterMetric :: "('col, 'r) promLib \<Rightarrow> 'col Metrics \<Rightarrow> report_event \<Rightarrow> 'r \<Rightarrow> 'r" where
  "reporterMetric lib m (ImpressionReported partnerID) r = pl_Inc lib (m F_impressionReported) [partnerID] r"
| "reporterMetric lib m (ImpressionError partnerID) r = pl_Inc lib (m F_impressionError) [partnerID] r"
| "reporterMetric lib m (ImpressionRejected partnerID reason) r =
     pl_Inc lib (m F_impressionRejected) [ReportResult_string reason, partnerID] r"
| "reporterMetric lib m (ImpressionAPIRequestDuration partnerID duration) r =
     pl_ObserveWith lib (m F_impressionLatency) [partnerID] (Duration_Seconds duration) r"
| "reporterMetric lib m (ReportingCapacity capacity) r =
     pl_GaugeSet lib (m F_reportingCapacity) (IdentityCache.float64 (of_int capacity)) r"
| "reporterMetric lib m ReportingStarted r = pl_GaugeInc lib (m F_reportingActive) r"
| "reporterMetric lib m ReportingFinished r = pl_GaugeDec lib (m F_reportingActive) r"
| "reporterMetric lib m (ReportImpression _) r = r"
| "reporterMetric lib m (ReportWarn _) r = r"
| "reporterMetric lib m (ReportErrorLog _) r = r"

fun cacheMetric :: "('col, 'r) promLib \<Rightarrow> 'col Metrics \<Rightarrow> cache_event \<Rightarrow> 'r \<Rightarrow> 'r" where
  "cacheMetric lib m (L2Request operation result) r = pl_Inc lib (m F_l2Requests) [operation, result] r"
| "cacheMetric lib m (L2GetLatency duration) r = pl_Observe lib (m F_l2GetLatency) (Duration_Seconds duration) r"
| "cacheMetric lib m (L2PutLatency duration) r = pl_Observe lib (m F_l2PutLatency) (Duration_Seconds duration) r"
| "cacheMetric lib m (CacheWarn _) r = r"

section \<open>What the library documents\<close>

text \<open>
  The registry holds at most one collector for each full name. Registering another one for the
  same series (same labels and help) reports the one that is there, any other name clash is an
  error.
\<close>

definition sameSeries :: "collectorDesc \<Rightarrow> collectorDesc \<Rightarrow> bool" where
  "sameSeries a b \<longleftrightarrow> cd_Name a = cd_Name b \<and> cd_Help a = cd_Help b \<and> cd_labels a = cd_labels b"

definition prom_registry ::
  "('col, 'r) promLib \<Rightarrow> ('r \<Rightarrow> string \<rightharpoonup> 'col) \<Rightarrow> ('col \<Rightarrow> collectorDesc) \<Rightarrow> bool" where
  "prom_registry lib reg desc \<longleftrightarrow>
     (\<forall>d r. desc (fst (pl_New lib d r)) = d \<and> reg (snd (pl_New lib d r)) = reg r) \<and>
     (\<forall>c. pl_kind lib c = cd_kind (desc c)) \<and>
     (\<forall>c r. case reg r (cd_Name (desc c)) of
        None \<Rightarrow> fst (pl_Register lib c r) = None \<and>
          reg (snd (pl_Register lib c r)) = (reg r)(cd_Name (desc c) \<mapsto> c)
      | Some existing \<Rightarrow> reg (snd (pl_Register lib c r)) = reg r \<and>
          (if sameSeries (desc existing) (desc c)
           then fst (pl_Register lib c r) = Some (AlreadyRegistered existing)
           else (\<exists>err. fst (pl_Register lib c r) = Some (RegisterError err))))"

text \<open>
  Counters count, gauges move by one or are set, and no operation touches another series. (A
  gauge is a \<^verbatim>\<open>float64\<close>, which is exact on the integers that a count of goroutines reaches.)
\<close>

definition prom_values ::
  "('col, 'r) promLib \<Rightarrow> ('r \<Rightarrow> 'col \<times> string list \<Rightarrow> nat) \<Rightarrow> ('r \<Rightarrow> 'col \<Rightarrow> rat) \<Rightarrow> bool" where
  "prom_values lib counter gauge \<longleftrightarrow>
     (\<forall>c ls r. counter (pl_Inc lib c ls r) = (counter r)((c, ls) := Suc (counter r (c, ls))) \<and>
        gauge (pl_Inc lib c ls r) = gauge r) \<and>
     (\<forall>c ls x r. counter (pl_ObserveWith lib c ls x r) = counter r \<and> gauge (pl_ObserveWith lib c ls x r) = gauge r) \<and>
     (\<forall>c x r. counter (pl_GaugeSet lib c x r) = counter r \<and> gauge (pl_GaugeSet lib c x r) = (gauge r)(c := x)) \<and>
     (\<forall>c r. counter (pl_GaugeInc lib c r) = counter r \<and>
        gauge (pl_GaugeInc lib c r) = (gauge r)(c := gauge r c + 1)) \<and>
     (\<forall>c r. counter (pl_GaugeDec lib c r) = counter r \<and>
        gauge (pl_GaugeDec lib c r) = (gauge r)(c := gauge r c - 1))"

section \<open>Registration is idempotent\<close>

abbreviation fieldDesc :: "('col, 'r) promLib \<Rightarrow> metricField \<Rightarrow> collectorDesc" where
  "fieldDesc lib f \<equiv> metricDesc (pl_DefBuckets lib) f"

text \<open>A registered collector that serves a field.\<close>

definition serves :: "('col, 'r) promLib \<Rightarrow> ('r \<Rightarrow> string \<rightharpoonup> 'col) \<Rightarrow> ('col \<Rightarrow> collectorDesc) \<Rightarrow> 'r \<Rightarrow> metricField \<Rightarrow> 'col \<Rightarrow> bool" where
  "serves lib reg desc r f c \<longleftrightarrow>
     reg r (cd_Name (fieldDesc lib f)) = Some c \<and> sameSeries (desc c) (fieldDesc lib f) \<and>
     cd_kind (desc c) = cd_kind (fieldDesc lib f)"

lemma register_cases:
  assumes "prom_registry lib reg desc" and g: "pl_Register lib c r = (e, r')"
  shows "reg r (cd_Name (desc c)) = None \<and> e = None \<and> reg r' = (reg r)(cd_Name (desc c) \<mapsto> c) \<or>
    (\<exists>x. reg r (cd_Name (desc c)) = Some x \<and> reg r' = reg r \<and>
       (if sameSeries (desc x) (desc c) then e = Some (AlreadyRegistered x) else \<exists>err. e = Some (RegisterError err)))"
proof -
  have "case reg r (cd_Name (desc c)) of
        None \<Rightarrow> fst (pl_Register lib c r) = None \<and>
          reg (snd (pl_Register lib c r)) = (reg r)(cd_Name (desc c) \<mapsto> c)
      | Some existing \<Rightarrow> reg (snd (pl_Register lib c r)) = reg r \<and>
          (if sameSeries (desc existing) (desc c)
           then fst (pl_Register lib c r) = Some (AlreadyRegistered existing)
           else (\<exists>err. fst (pl_Register lib c r) = Some (RegisterError err)))"
    using assms(1) unfolding prom_registry_def by blast
  with g show ?thesis by (cases "reg r (cd_Name (desc c))") (auto split: if_splits)
qed

lemma new_desc:
  assumes "prom_registry lib reg desc" "pl_New lib d r = (c, r0)"
  shows "desc c = d" "reg r0 = reg r"
proof -
  have "desc (fst (pl_New lib d r)) = d \<and> reg (snd (pl_New lib d r)) = reg r"
    using assms(1) unfolding prom_registry_def by blast
  with assms(2) show "desc c = d" "reg r0 = reg r" by simp_all
qed

lemma kind_desc: "prom_registry lib reg desc \<Longrightarrow> pl_kind lib c = cd_kind (desc c)"
  by (simp add: prom_registry_def)

lemma registerKind_new:
  assumes reg: "prom_registry lib reg desc" and new: "pl_New lib (fieldDesc lib f) r = (c, r0)"
    and k: "registerKind lib (cd_kind (fieldDesc lib f)) c r0 = (Inr d, r1)"
  shows "serves lib reg desc r1 f d \<and> reg r \<subseteq>\<^sub>m reg r1"
proof -
  obtain e r2 where g: "pl_Register lib c r0 = (e, r2)" by force
  note law = register_cases [OF reg g, unfolded new_desc [OF reg new]]
  show ?thesis
  proof (cases "reg r (cd_Name (fieldDesc lib f))")
    case None
    with law have fresh: "e = None" "reg r2 = (reg r)(cd_Name (fieldDesc lib f) \<mapsto> c)" by simp_all
    then have "d = c" "r1 = r2" using k g by (auto simp: registerKind_def prom_register_def split: if_splits)
    with fresh None show ?thesis by (auto simp: serves_def new_desc(1) [OF reg new] sameSeries_def map_le_def)
  next
    case (Some x)
    with law have x: "reg r2 = reg r"
      "if sameSeries (desc x) (fieldDesc lib f) then e = Some (AlreadyRegistered x) else \<exists>err. e = Some (RegisterError err)"
      by simp_all
    then have "sameSeries (desc x) (fieldDesc lib f)" "d = x" "r1 = r2" "pl_kind lib x = cd_kind (fieldDesc lib f)"
      using k g by (auto simp: registerKind_def prom_register_def split: if_splits)
    with x(1) Some show ?thesis by (simp add: serves_def kind_desc [OF reg])
  qed
qed

lemma registerKind_again:
  assumes reg: "prom_registry lib reg desc" and new: "pl_New lib (fieldDesc lib f) r = (c, r0)"
    and s: "serves lib reg desc r f d"
  shows "\<exists>r1. registerKind lib (cd_kind (fieldDesc lib f)) c r0 = (Inr d, r1) \<and> reg r1 = reg r"
proof -
  obtain e r2 where g: "pl_Register lib c r0 = (e, r2)" by force
  have "e = Some (AlreadyRegistered d)" "reg r2 = reg r"
    using register_cases [OF reg g] s unfolding new_desc [OF reg new] serves_def by auto
  with g s show ?thesis by (simp add: registerKind_def prom_register_def serves_def kind_desc [OF reg])
qed

lemma serves_mono: "serves lib reg desc r f c \<Longrightarrow> reg r \<subseteq>\<^sub>m reg r' \<Longrightarrow> serves lib reg desc r' f c"
  by (auto simp: serves_def dest: map_le_SomeD)

lemma registerFields_serves:
  assumes "prom_registry lib reg desc"
  shows "\<lbrakk>registerFields lib fs m r = (Inr m', r'); distinct fs\<rbrakk> \<Longrightarrow>
    reg r \<subseteq>\<^sub>m reg r' \<and> list_all (\<lambda>f. serves lib reg desc r' f (m' f)) fs \<and> (\<forall>f. f \<notin> set fs \<longrightarrow> m' f = m f)"
proof (induction fs arbitrary: m r)
  case (Cons f fs)
  obtain c r0 where n: "pl_New lib (fieldDesc lib f) r = (c, r0)" by force
  with Cons.prems obtain d r1 where k: "registerKind lib (cd_kind (fieldDesc lib f)) c r0 = (Inr d, r1)"
      and rec: "registerFields lib fs (m(f := d)) r1 = (Inr m', r')"
    by (auto simp: Let_def split: prod.splits sum.splits)
  from registerKind_new [OF assms n k] Cons.IH [OF rec] Cons.prems(2)
  show ?case by (auto intro: map_le_trans serves_mono)
qed simp

lemma registerFields_again:
  assumes "prom_registry lib reg desc"
  shows "list_all (\<lambda>f. serves lib reg desc r f (m' f)) fs \<Longrightarrow>
    \<exists>r'. registerFields lib fs m r = (Inr (\<lambda>f. if f \<in> set fs then m' f else m f), r') \<and> reg r' = reg r"
proof (induction fs arbitrary: m r)
  case (Cons f fs)
  obtain c r0 where n: "pl_New lib (fieldDesc lib f) r = (c, r0)" by force
  obtain r1 where k: "registerKind lib (cd_kind (fieldDesc lib f)) c r0 = (Inr (m' f), r1)" "reg r1 = reg r"
    using registerKind_again [OF assms n] Cons.prems by auto
  have "list_all (\<lambda>f. serves lib reg desc r1 f (m' f)) fs"
    using Cons.prems k(2) by (auto simp: list_all_iff serves_def)
  from Cons.IH [OF this, of "m(f := m' f)"] obtain r' where
    "registerFields lib fs (m(f := m' f)) r1 = (Inr (\<lambda>g. if g \<in> set fs then m' g else (m(f := m' f)) g), r')"
    "reg r' = reg r1" by blast
  moreover have "(\<lambda>g. if g \<in> set fs then m' g else (m(f := m' f)) g) =
      (\<lambda>g. if g \<in> set (f # fs) then m' g else m g)" by (simp add: fun_eq_iff)
  ultimately show ?case using n k by (simp add: Let_def)
qed simp

lemma metricFields_all: "set metricFields = UNIV" "distinct metricFields"
proof -
  have "f \<in> set metricFields" for f by (cases f) (simp_all add: metricFields_def)
  then show "set metricFields = UNIV" by blast
qed (simp add: metricFields_def)

lemma metricDesc_name: "cd_Name (metricDesc b f) = cd_Name (metricDesc b g) \<Longrightarrow> f = g"
  by (cases f; cases g) (simp_all add: counterOf_def histogramOf_def gaugeOf_def)

text \<open>
  C34. Collector registration is idempotent on a shared registry: a second \<^verbatim>\<open>New\<close> on the
  registry that a first one left gives the same collectors and changes no registration; and
  what it gives is registered under the documented names, one collector for each field.
\<close>

theorem metrics_New_idempotent:
  assumes reg: "prom_registry lib reg desc" and new: "metrics_New lib r = (Inr m, r1)"
  shows "(\<exists>r2. metrics_New lib r1 = (Inr m, r2) \<and> reg r2 = reg r1) \<and>
    (\<forall>f. reg r1 (cd_Name (metricDesc (pl_DefBuckets lib) f)) = Some (m f)) \<and> inj m"
proof -
  have all: "list_all (\<lambda>f. serves lib reg desc r1 f (m f)) metricFields"
    using registerFields_serves [OF reg] new metricFields_all(2) by (auto simp: metrics_New_def)
  then have s: "serves lib reg desc r1 f (m f)" for f by (simp add: list_all_iff metricFields_all)
  have "inj m"
  proof (rule injI)
    fix f g
    assume "m f = m g"
    with s [of f] s [of g] have "cd_Name (fieldDesc lib f) = cd_Name (fieldDesc lib g)"
      by (simp add: serves_def sameSeries_def)
    then show "f = g" by (rule metricDesc_name)
  qed
  with registerFields_again [OF reg all, of "\<lambda>_. pl_nil lib"] s show ?thesis
    by (simp add: metrics_New_def metricFields_all serves_def)
qed

section \<open>The exported values\<close>

lemma enricher_gauge:
  assumes v: "prom_values lib counter gauge" and m: "inj m"
  shows "gauge (fold (enricherMetric lib m) evs r) (m F_backgroundActive) =
    gauge r (m F_backgroundActive) + of_nat (length (filter (\<lambda>x. x = BackgroundStarted) evs))
      - of_nat (length (filter (\<lambda>x. x = BackgroundFinished) evs))"
proof (induction evs arbitrary: r)
  case (Cons ev evs)
  have ne: "m F_backgroundCapacity \<noteq> m F_backgroundActive" using m by (auto dest: injD)
  show ?case
    using v unfolding prom_values_def
    by (cases ev) (simp_all add: Cons.IH ne [symmetric])
qed simp

text \<open>The counter, if any, that a call on the enricher's metrics increments.\<close>

fun counted :: "enricher_event \<Rightarrow> (metricField \<times> string list) option" where
  "counted (EnrichRequest p) = Some (F_requests, [p])"
| "counted (Enriched p) = Some (F_enriched, [p])"
| "counted (NotEnriched p reason) = Some (F_notEnriched, [NotEnrichedReason_string reason, p])"
| "counted (APISuccess p) = Some (F_apiSuccess, [p])"
| "counted (APIErrorCount p kind status) =
     Some (F_apiError, [kind, if status \<noteq> 0 then Itoa status else [], p])"
| "counted (CacheLookup p result layer) =
     Some (F_cacheLookup, [CacheLookupResult_string result, CacheLayer_Token layer, p])"
| "counted _ = None"

lemma enricher_counter:
  assumes v: "prom_values lib counter gauge" and m: "inj m"
  shows "counter (fold (enricherMetric lib m) evs r) (m f, ls) =
    counter r (m f, ls) + length (filter (\<lambda>x. counted x = Some (f, ls)) evs)"
proof (induction evs arbitrary: r)
  case (Cons ev evs)
  have inj: "m a = m b \<longleftrightarrow> a = b" for a b using m by (auto dest: injD)
  show ?case
    using v unfolding prom_values_def
    by (cases ev) (auto simp: Cons.IH inj)
qed simp

lemma size_filter_imp: "(\<And>x. P x \<Longrightarrow> Q x) \<Longrightarrow> size (filter_mset P M) \<le> size (filter_mset Q M)"
  by (induction M) (auto simp: le_SucI)

text \<open>
  C33. What Prometheus shows of the enricher is true. In every reachable state of the enricher,
  with a fresh registry that has seen all its metric calls, the gauge of active background
  jobs is the number of admitted jobs that have not finished and is at most the configured
  capacity, and every counter is the number of calls with these labels.
\<close>

theorem prometheus_shows_enricher:
  assumes "enricher_reachable e s" and v: "prom_values lib counter gauge" and m: "inj m"
    and fresh: "gauge r (m F_backgroundActive) = 0" "counter r (m f, ls) = 0"
    and shown: "r' = fold (enricherMetric lib m) (sy_events s) r"
  shows "gauge r' (m F_backgroundActive) = of_nat (many ongoing s) \<and>
    gauge r' (m F_backgroundActive) \<le> of_nat (e_limiterCap e) \<and>
    counter r' (m f, ls) = length (filter (\<lambda>x. counted x = Some (f, ls)) (sy_events s))"
proof -
  have i: "einv e s" using enr.reachable_inv [OF assms(1)] by blast
  then have g: "gauge r' (m F_backgroundActive) = of_nat (many ongoing s)"
    by (simp add: shown enricher_gauge [OF v m] fresh einv_def)
  have "many ongoing s \<le> many background s"
    unfolding many_def by (rule size_filter_imp) (auto elim: ongoing.elims)
  also have "\<dots> \<le> e_limiterCap e"
    using enr.working_bounded [OF assms(1)] i by (simp add: eview_def einv_def)
  finally show ?thesis using g by (simp add: shown enricher_counter [OF v m] fresh)
qed

section \<open>A library in memory\<close>

type_synonym memCollector = "collectorDesc \<times> nat"

record memProm =
  mp_reg :: "string \<rightharpoonup> memCollector"
  mp_counter :: "memCollector \<times> string list \<Rightarrow> nat"
  mp_gauge :: "memCollector \<Rightarrow> rat"
  mp_next :: nat

definition memProm_Register :: "memCollector \<Rightarrow> memProm \<Rightarrow> memCollector registerError option \<times> memProm" where
  "memProm_Register c r =
     (case mp_reg r (cd_Name (fst c)) of
        None \<Rightarrow> (None, r\<lparr>mp_reg := (mp_reg r)(cd_Name (fst c) \<mapsto> c)\<rparr>)
      | Some x \<Rightarrow> (Some (if sameSeries (fst x) (fst c) then AlreadyRegistered x
                   else RegisterError (PlainError ''duplicate metrics collector registration attempted'')), r))"

definition memLib :: "(memCollector, memProm) promLib" where
  "memLib =
     \<lparr>pl_New = (\<lambda>d r. ((d, mp_next r), r\<lparr>mp_next := Suc (mp_next r)\<rparr>)),
      pl_nil = (counterOf [] [] [], 0), pl_kind = (\<lambda>c. cd_kind (fst c)), pl_typeName = (\<lambda>c. kindName (cd_kind (fst c))),
      pl_Register = memProm_Register, pl_DefBuckets = [1],
      pl_Inc = (\<lambda>c ls r. r\<lparr>mp_counter := (mp_counter r)((c, ls) := Suc (mp_counter r (c, ls)))\<rparr>),
      pl_ObserveWith = (\<lambda>c ls x r. r), pl_Observe = (\<lambda>c x r. r),
      pl_GaugeSet = (\<lambda>c x r. r\<lparr>mp_gauge := (mp_gauge r)(c := x)\<rparr>),
      pl_GaugeInc = (\<lambda>c r. r\<lparr>mp_gauge := (mp_gauge r)(c := mp_gauge r c + 1)\<rparr>),
      pl_GaugeDec = (\<lambda>c r. r\<lparr>mp_gauge := (mp_gauge r)(c := mp_gauge r c - 1)\<rparr>)\<rparr>"

definition emptyProm :: memProm where
  "emptyProm = \<lparr>mp_reg = Map.empty, mp_counter = (\<lambda>_. 0), mp_gauge = (\<lambda>_. 0), mp_next = 0\<rparr>"

lemma memLib_registry: "prom_registry memLib mp_reg fst"
  unfolding prom_registry_def
  by (auto simp: memLib_def memProm_Register_def split: option.splits)

lemma memLib_values: "prom_values memLib mp_counter mp_gauge"
  by (simp add: prom_values_def memLib_def)

text \<open>Registering fields whose names are not taken succeeds.\<close>

lemma memLib_registers:
  "\<lbrakk>distinct fs; \<forall>f\<in>set fs. mp_reg r (cd_Name (metricDesc [1] f)) = None\<rbrakk> \<Longrightarrow>
    \<exists>m' r'. registerFields memLib fs m r = (Inr m', r')"
proof (induction fs arbitrary: m r)
  case (Cons f fs)
  have ne: "cd_Name (metricDesc [1] g) \<noteq> cd_Name (metricDesc [1] f)" if "g \<in> set fs" for g
    using Cons.prems(1) that metricDesc_name [of "[1]" g f] by auto
  let ?d = "metricDesc [1] f"
  let ?c = "(?d, mp_next r)"
  let ?r = "r\<lparr>mp_next := Suc (mp_next r), mp_reg := (mp_reg r)(cd_Name ?d \<mapsto> ?c)\<rparr>"
  have "\<exists>m' r'. registerFields memLib fs (m(f := ?c)) ?r = (Inr m', r')"
    using Cons.prems ne by (intro Cons.IH) auto
  moreover have "pl_DefBuckets memLib = [1]" "pl_New memLib ?d r = (?c, r\<lparr>mp_next := Suc (mp_next r)\<rparr>)"
    "registerKind memLib (cd_kind ?d) ?c (r\<lparr>mp_next := Suc (mp_next r)\<rparr>) = (Inr ?c, ?r)"
    using Cons.prems(2) by (simp_all add: memLib_def registerKind_def prom_register_def memProm_Register_def)
  ultimately show ?case by (simp add: Let_def)
qed simp

theorem metrics_New_idempotent_witness:
  "\<exists>m r1 r2. metrics_New memLib emptyProm = (Inr m, r1) \<and> metrics_New memLib r1 = (Inr m, r2) \<and> mp_reg r2 = mp_reg r1"
proof -
  have "\<forall>f\<in>set metricFields. mp_reg emptyProm (cd_Name (metricDesc [1] f)) = None" by (simp add: emptyProm_def)
  then obtain m r1 where n: "metrics_New memLib emptyProm = (Inr m, r1)"
    unfolding metrics_New_def using memLib_registers [OF metricFields_all(2)] by blast
  from metrics_New_idempotent [OF memLib_registry n] n show ?thesis by blast
qed

theorem prometheus_shows_enricher_witness:
  "\<exists>s :: unit system. \<exists>r'. sy_threads s = {#EMark Background asyncPlan asyncJob#} \<and>
     r' = fold (enricherMetric memLib (\<lambda>f. (metricDesc [1] f, 0))) (sy_events s) emptyProm \<and>
     mp_gauge r' (metricDesc [1] F_backgroundActive, 0) = 1 \<and>
     mp_counter r' ((metricDesc [1] F_requests, 0), [''p'']) =
       length (filter (\<lambda>x. counted x = Some (F_requests, [''p''])) (sy_events s))"
proof -
  let ?m = "\<lambda>f. (metricDesc [1] f, 0 :: nat)"
  obtain s where s: "slots 1 False NotDraining {#EMark Background asyncPlan asyncJob#} s" using slots_admitted ..
  then have r: "enricher_reachable oneSlot s" and t: "sy_threads s = {#EMark Background asyncPlan asyncJob#}"
    by (simp_all add: slots_def)
  have inj: "inj ?m" by (rule injI) (auto intro: metricDesc_name [of "[1]"])
  have "mp_gauge emptyProm (?m F_backgroundActive) = 0" "mp_counter emptyProm (?m F_requests, [''p'']) = 0"
    by (simp_all add: emptyProm_def)
  from prometheus_shows_enricher [OF r memLib_values inj this refl] t show ?thesis
    by (intro exI [of _ s]) (simp add: many_def)
qed

end
