(* ===== verification/Benchmark.thy ===== *)
theory Benchmark
  imports FileStore Prometheus
begin

text \<open>
  \<^verbatim>\<open>cmd/benchmark/server.go\<close>: the benchmark server, from its flags to the answer of \<^verbatim>\<open>POST /enrich\<close>.

  What the listener delivers of a request is its query, its body and its context. Quoting, the
  text of a duration and the decoding of a body into an auction are parameters, and so is the
  enricher that the handler calls.
\<close>

section \<open>Configuration\<close>

record serverConfig =
  sc_listen :: string
  sc_endpoint :: string
  sc_partnerID :: string
  sc_timeout :: duration
  sc_concurrency :: int
  sc_maxConcurrentCalls :: int
  sc_verbose :: bool
  sc_cacheDir :: string
  sc_cacheTTL :: duration
  sc_cacheMaxKeys :: int

definition flagDefaults :: serverConfig where
  "flagDefaults =
     \<lparr>sc_listen = '':8081'', sc_endpoint = [], sc_partnerID = [], sc_timeout = 400 * time_Millisecond,
      sc_concurrency = 16, sc_maxConcurrentCalls = 2000, sc_verbose = False, sc_cacheDir = [],
      sc_cacheTTL = 3600 * time_Second, sc_cacheMaxKeys = 10\<rparr>"

definition server_validate :: "serverConfig \<Rightarrow> go_error option" where
  "server_validate cfg =
     (if sc_endpoint cfg = [] \<or> sc_partnerID cfg = [] then Some (PlainError ''-endpoint and -partner are required'')
      else if sc_concurrency cfg < 1 then Some (PlainError ''-concurrency must be positive'')
      else if sc_maxConcurrentCalls cfg < 1 then Some (PlainError ''-max-concurrent-calls must be positive'')
      else None)"

text \<open>The conversion of a float to an integer truncates.\<close>

definition truncateFloat :: "rat \<Rightarrow> int" where
  "truncateFloat x = (if x < 0 then \<lceil>x\<rceil> else \<lfloor>x\<rfloor>)"

definition benchmarkCacheConfig :: "serverConfig \<Rightarrow> CacheConfig" where
  "benchmarkCacheConfig cfg =
     \<lparr>Enabled = True, Provider = ''file'', TTLSeconds = truncateFloat (Duration_Seconds (sc_cacheTTL cfg)),
      MaxKeys = sc_cacheMaxKeys cfg, MaxSize = 2 ^ 20, TTLCeilingFirstPartySeconds = 86400,
      TTLCeilingThirdPartySeconds = 43200, TTLCeilingDeviceSeconds = 900, NegativeTTLSeconds = 300\<rparr>"

section \<open>Construction\<close>

text \<open>What the server is made from: the disk and the digest of its store, FreeCache, and the libraries.\<close>

record ('f, 'd) benchEnv =
  be_disk :: "'d disk"
  be_sha256 :: "bytes \<Rightarrow> bytes"
  be_quote :: "string \<Rightarrow> string"
  be_freecache :: "'f freecache"
  be_NewCache :: "int \<Rightarrow> 'f"
  be_codec :: eid_codec
  be_unicode :: unicode
  be_order :: "string list \<Rightarrow> string list"

record transport =
  MaxIdleConns :: int
  MaxIdleConnsPerHost :: int

definition benchTransport :: "serverConfig \<Rightarrow> transport" where
  "benchTransport cfg =
     \<lparr>MaxIdleConns = wrap64 (sc_concurrency cfg * 2), MaxIdleConnsPerHost = wrap64 (sc_concurrency cfg * 2)\<rparr>"

type_synonym ('f, 'd) benchEnricher = "('f, 'd fileState) cacheState enricher \<times> s2sLimiter \<times> enricher_event list"

definition buildEnricher ::
  "('f, 'd) benchEnv \<Rightarrow> serverConfig \<Rightarrow> 'd \<Rightarrow> (go_error + ('f, 'd) benchEnricher) \<times> 'd" where
  "buildEnricher env cfg d =
     (let build = (\<lambda>cache maxKeys.
            enricher_New True cache (sc_maxConcurrentCalls cfg) maxKeys (be_unicode env) (be_order env) (be_codec env))
      in if sc_cacheDir cfg = [] then (build None 0, d)
      else case newFileStore (be_disk env) (be_sha256 env) (be_quote env) (sc_cacheDir cfg) d of
        (Inl err, d) \<Rightarrow> (Inl (WrappedError ''create cache store: '' err), d)
      | (Inr store, d) \<Rightarrow>
          (case cache_New (be_freecache env) (be_NewCache env) (Some (store.truncate (fileOps store))) (be_codec env)
                  (benchmarkCacheConfig cfg) of
             Inl err \<Rightarrow> (Inl (WrappedError ''create identity cache: '' err), d)
           | Inr cache \<Rightarrow> (build (map_option (\<lambda>(ic, _). identityCacheOps ic) cache) (sc_cacheMaxKeys cfg), d)))"

text \<open>\<^verbatim>\<open>run\<close> up to serving: what it would serve, or the error it ends with.\<close>

definition bench_run ::
  "('col, 'r) promLib \<Rightarrow> ('f, 'd) benchEnv \<Rightarrow> serverConfig \<Rightarrow> 'r \<Rightarrow> 'd \<Rightarrow>
     (go_error + ('f, 'd) benchEnricher) \<times> 'r \<times> 'd" where
  "bench_run lib env cfg registry d =
     (case server_validate cfg of
        Some err \<Rightarrow> (Inl err, registry, d)
      | None \<Rightarrow>
          (case metrics_New lib registry of
             (Inl err, registry) \<Rightarrow> (Inl (WrappedError ''create metrics: '' err), registry, d)
           | (Inr metrics, registry) \<Rightarrow>
               (let (e, d) = buildEnricher env cfg d in (e, registry, d))))"

section \<open>Parts of the handler\<close>

definition liftExtEIDs :: "eid_codec \<Rightarrow> BidRequest \<Rightarrow> BidRequest" where
  "liftExtEIDs codec auction =
     (case BidRequest_User auction of None \<Rightarrow> auction
      | Some user \<Rightarrow>
          if length (User_EIDs user) > 0 \<or> length (User_Ext user) = 0 then auction
          else
            (case parseJSON (User_Ext user) of None \<Rightarrow> auction
             | Some j \<Rightarrow>
                 (case decodeStruct (eidsField codec) j None of
                    Some (Some eids) \<Rightarrow>
                      if length eids = 0 then auction
                      else auction\<lparr>BidRequest_User := Some (user\<lparr>User_EIDs := eids\<rparr>)\<rparr>
                  | _ \<Rightarrow> auction)))"

definition reference :: "BidRequest \<Rightarrow> string" where
  "reference auction =
     (case BidRequest_Site auction of
        Some site \<Rightarrow> if Domain site \<noteq> [] then Domain site else Page site
      | None \<Rightarrow>
          (case BidRequest_App auction of
             Some app \<Rightarrow> if Bundle app \<noteq> [] then Bundle app else App_Name app
           | None \<Rightarrow> []))"

definition classify :: "go_error \<Rightarrow> string \<times> int" where
  "classify err = (fst (ErrorLabels err), case asAPIError err of None \<Rightarrow> 0 | Some (_, status) \<Rightarrow> status)"

definition milliseconds :: "duration \<Rightarrow> rat" where
  "milliseconds d = IdentityCache.float64 (IdentityCache.float64 (of_int (d sdiv 1000)) / 1000)"

record resultRecord =
  rr_EIDs :: "EID list"
  rr_CacheTTLMS :: int
  rr_ABTestUUID :: string
  rr_TerminationCause :: "int option"

record errorRecord =
  er_Kind :: string
  er_Status :: int
  er_Message :: string

record benchRecord =
  br_AuctionID :: string
  br_Reference :: string
  br_DurationMS :: rat
  br_Outcome :: string
  br_FromCache :: bool
  br_Result :: "resultRecord option"
  br_Error :: "errorRecord option"

definition emptyRecord :: benchRecord where
  "emptyRecord = \<lparr>br_AuctionID = [], br_Reference = [], br_DurationMS = 0, br_Outcome = [],
     br_FromCache = False, br_Result = None, br_Error = None\<rparr>"

record benchResponse =
  bs_ContentType :: string
  bs_Status :: int
  bs_Body :: benchRecord

definition respond :: "int \<Rightarrow> benchRecord \<Rightarrow> benchResponse" where
  "respond status body = \<lparr>bs_ContentType = ''application/json'', bs_Status = status, bs_Body = body\<rparr>"

definition maxBodySize :: nat where
  "maxBodySize = 16 * 2 ^ 20"

text \<open>\<^verbatim>\<open>url.Values\<close>, and \<^verbatim>\<open>strconv.Atoi\<close>, which also takes a plus sign.\<close>

type_synonym Values = "string \<rightharpoonup> string list"

definition values_Get :: "Values \<Rightarrow> string \<Rightarrow> string" where
  "values_Get form key = (case form key of Some (v # _) \<Rightarrow> v | _ \<Rightarrow> [])"

definition Atoi :: "string \<Rightarrow> int option" where
  "Atoi s =
     (case s of c # t \<Rightarrow> if c = CHR ''+'' then if list_all isDigit t then parseInt 64 t else None else parseInt 64 s
      | [] \<Rightarrow> None)"

record benchText =
  bt_quote :: "string \<Rightarrow> string"
  bt_duration :: "duration \<Rightarrow> string"

definition requestWait :: "benchText \<Rightarrow> serverConfig \<Rightarrow> Values \<Rightarrow> go_error + duration option" where
  "requestWait txt cfg form =
     (let mode = values_Get form ''mode'';
          mode = (if mode = [] then ''sync'' else mode)
      in if mode \<noteq> ''sync'' \<and> sc_cacheDir cfg = [] then Inl (PlainError (''mode '' @ mode @ '' requires -cache''))
      else if mode = ''sync'' then Inr None
      else if mode = ''async'' then Inr (Some 0)
      else if mode = ''hybrid'' then
        (let bad = Inl (PlainError (''hybrid mode needs a positive wait_ms, got '' @ bt_quote txt (values_Get form ''wait_ms''))) in
         case Atoi (values_Get form ''wait_ms'') of None \<Rightarrow> bad
         | Some ms \<Rightarrow>
             if ms \<le> 0 then bad
             else
               (let wait = mulDuration ms time_Millisecond in
                if wait \<ge> sc_timeout cfg
                then Inl (PlainError (''wait_ms '' @ Itoa ms @ '' must be less than timeout '' @ bt_duration txt (sc_timeout cfg)))
                else Inr (Some wait)))
      else Inl (PlainError (''unknown mode '' @ bt_quote txt mode @ ''; want sync, async or hybrid'')))"

section \<open>The handler\<close>

definition benchRequest :: "serverConfig \<Rightarrow> BidRequest \<Rightarrow> duration option \<Rightarrow> Request" where
  "benchRequest cfg auction wait =
     \<lparr>PartnerID = sc_partnerID cfg, Endpoint = sc_endpoint cfg, Auction = Some auction,
      Timeout = sc_timeout cfg, WaitTimeout = wait, CacheEnabled = (sc_cacheDir cfg \<noteq> [])\<rparr>"

definition badRequest :: "string \<Rightarrow> go_error \<Rightarrow> benchResponse" where
  "badRequest kind err = respond 400 (emptyRecord\<lparr>br_Outcome := ''bad_request'',
     br_Error := Some \<lparr>er_Kind = kind, er_Status = 0, er_Message = errorText err\<rparr>\<rparr>)"

definition benchmarkHandler ::
  "benchText \<Rightarrow> (nat \<Rightarrow> bytes \<Rightarrow> go_error + BidRequest) \<Rightarrow> eid_codec \<Rightarrow> serverConfig \<Rightarrow>
     (ctx \<Rightarrow> Request \<Rightarrow> 'e \<Rightarrow> (go_error + Result) \<times> 'e) \<Rightarrow> ctx \<Rightarrow> Values \<Rightarrow> bytes \<Rightarrow> 'e \<Rightarrow> clock_state \<Rightarrow>
     benchResponse \<times> 'e \<times> clock_state" where
  "benchmarkHandler txt decodeAuction codec cfg enrich c form body e clk =
     (case requestWait txt cfg form of
        Inl err \<Rightarrow> (badRequest ''request_mode'' err, e, clk)
      | Inr wait \<Rightarrow>
          (case decodeAuction maxBodySize body of
             Inl err \<Rightarrow> (badRequest ''request_parse'' err, e, clk)
           | Inr auction \<Rightarrow>
               (let auction = liftExtEIDs codec auction;
                    result = emptyRecord\<lparr>br_AuctionID := BidRequest_ID auction, br_Reference := reference auction\<rparr>;
                    (started, clk) = Now clk;
                    (enriched, e) = enrich c (benchRequest cfg auction wait) e;
                    (ended, clk) = Now clk;
                    result = result\<lparr>br_DurationMS := milliseconds (timeSub ended started)\<rparr>
                in case enriched of
                     Inl err \<Rightarrow>
                       (let (kind, status) = classify err in
                        (respond 200 (result\<lparr>br_Outcome := ''error'',
                           br_Error := Some \<lparr>er_Kind = kind, er_Status = status, er_Message = errorText err\<rparr>\<rparr>), e, clk))
                   | Inr r \<Rightarrow>
                       (respond 200 (result\<lparr>br_Outcome := Outcome_string (Result_Outcome r), br_FromCache := FromCache r,
                          br_Result := Some \<lparr>rr_EIDs = Result_EIDs r, rr_CacheTTLMS = Milliseconds (Result_CacheTTL r),
                            rr_ABTestUUID = Result_ABTestUUID r, rr_TerminationCause = Result_TerminationCause r\<rparr>\<rparr>), e, clk))))"

section \<open>What the server accepts\<close>

lemma buildEnricher_cache:
  assumes "buildEnricher env cfg d = (Inr (e, limiter, evs), d')"
  shows "e_cache e \<noteq> None \<longleftrightarrow> sc_cacheDir cfg \<noteq> []"
    and "0 < sc_maxConcurrentCalls cfg \<Longrightarrow> e_limiterCap e = nat (sc_maxConcurrentCalls cfg)"
  using assms
  by (auto simp: buildEnricher_def enricher_New_def cache_New_def benchmarkCacheConfig_def newS2SLimiter_def Let_def
      split: if_splits sum.splits prod.splits option.splits)

lemma requestWait_cases:
  assumes "requestWait txt cfg form = Inr wait"
  obtains (Sync) "values_Get form ''mode'' \<in> {[], ''sync''}" "wait = None"
  | (Async) "values_Get form ''mode'' = ''async''" "wait = Some 0" "sc_cacheDir cfg \<noteq> []"
  | (Hybrid) ms where "values_Get form ''mode'' = ''hybrid''" "Atoi (values_Get form ''wait_ms'') = Some ms" "0 < ms"
      "wait = Some (mulDuration ms time_Millisecond)" "mulDuration ms time_Millisecond < sc_timeout cfg" "sc_cacheDir cfg \<noteq> []"
  using assms by (auto simp: requestWait_def Let_def split: if_splits option.splits)

text \<open>
  C39. A benchmark server whose flags passed validation and whose timeout is positive hands its
  enricher only requests that the enricher plans as the query asked: no mode or \<^verbatim>\<open>sync\<close> is
  planned as synchronous, \<^verbatim>\<open>async\<close> as asynchronous, and \<^verbatim>\<open>hybrid\<close> as hybrid with a wait of that
  many milliseconds, below the timeout (as long as that many milliseconds fit a duration); the
  enricher never refuses them for the lack of a cache or of capacity.
\<close>

theorem benchmark_modes_planned:
  assumes valid: "server_validate cfg = None" "0 < sc_timeout cfg"
    and built: "buildEnricher env cfg d = (Inr (e, limiter, evs), d')"
    and wait: "requestWait txt cfg form = Inr wait"
    and fits: "case Atoi (values_Get form ''wait_ms'') of None \<Rightarrow> True | Some ms \<Rightarrow> in_int64 (ms * time_Millisecond)"
  shows "\<exists>plan. executionPlanFor e (benchRequest cfg auction wait) = Inr plan \<and>
    (case values_Get form ''mode'' of
       [] \<Rightarrow> plan_mode plan = WaitModeSync
     | _ # _ \<Rightarrow>
         if values_Get form ''mode'' = ''sync'' then plan_mode plan = WaitModeSync
         else if values_Get form ''mode'' = ''async'' then plan_mode plan = WaitModeAsync \<and> plan_wait plan = 0
         else values_Get form ''mode'' = ''hybrid'' \<and> plan_mode plan = WaitModeHybrid \<and>
           0 < plan_wait plan \<and> plan_wait plan < sc_timeout cfg \<and>
           Atoi (values_Get form ''wait_ms'') = Some (Milliseconds (plan_wait plan)))"
proof -
  have cap: "e_limiterCap e \<noteq> 0"
    using valid buildEnricher_cache(2) [OF built] by (simp add: server_validate_def split: if_splits)
  note cache = buildEnricher_cache(1) [OF built]
  from wait show ?thesis
  proof (cases rule: requestWait_cases)
    case Sync
    with valid show ?thesis
      by (auto simp: executionPlanFor_def benchRequest_def normalizeWaitTimeout_def)
  next
    case Async
    with valid cap cache show ?thesis
      by (simp add: executionPlanFor_def benchRequest_def normalizeWaitTimeout_def)
  next
    case (Hybrid ms)
    with fits have m: "mulDuration ms time_Millisecond = ms * time_Millisecond" by (simp add: mulDuration_id)
    have "Milliseconds (ms * time_Millisecond) = ms"
      by (simp add: Milliseconds_def time_Millisecond_def sdiv_mult_self)
    with Hybrid m valid cap cache show ?thesis
      by (auto simp: executionPlanFor_def benchRequest_def normalizeWaitTimeout_def time_Millisecond_def)
  qed
qed

lemma Atoi_Itoa: "0 \<le> i \<Longrightarrow> in_int64 i \<Longrightarrow> Atoi (Itoa i) = Some i"
proof -
  assume i: "0 \<le> i" "in_int64 i"
  obtain ch t where ct: "Itoa i = ch # t" using i by (cases "Itoa i") (auto simp: Itoa_def)
  with i natString_digits [of "nat i"] have "isDigit ch" by (auto simp: Itoa_def)
  then have "ch \<noteq> CHR ''+''" by (auto simp: isDigit_def)
  with ct parseInt_Itoa [of 64 i] i show ?thesis by (simp add: Atoi_def in_int64_def)
qed

text \<open>
  Without that bound the product wraps around: some \<^verbatim>\<open>wait_ms\<close> far beyond the timeout passes the
  comparison with it and becomes a wait of less than a millisecond.
\<close>

theorem requestWait_wraps:
  "requestWait txt (flagDefaults\<lparr>sc_cacheDir := ''cache''\<rparr>)
     [''mode'' \<mapsto> [''hybrid''], ''wait_ms'' \<mapsto> [Itoa 18446744073710]] = Inr (Some 448384)"
proof -
  have "Atoi (Itoa 18446744073710) = Some 18446744073710"
    by (rule Atoi_Itoa) (simp_all add: in_int64_def)
  then show ?thesis
    by (simp add: requestWait_def values_Get_def flagDefaults_def mulDuration_def wrap64_def time_Millisecond_def)
qed

definition benchSample :: serverConfig where
  "benchSample = flagDefaults\<lparr>sc_endpoint := ''e'', sc_partnerID := ''p'', sc_cacheDir := ''cache''\<rparr>"

definition benchSampleEnv :: "(bytes \<Rightarrow> bytes option, memory) benchEnv" where
  "benchSampleEnv =
     \<lparr>be_disk = memoryDisk, be_sha256 = (\<lambda>b. b), be_quote = (\<lambda>s. s), be_freecache = mapL1,
      be_NewCache = (\<lambda>_. Map.empty), be_codec = referenceCodec,
      be_unicode = \<lparr>runeToUpper = (\<lambda>r. r), runeToLower = (\<lambda>r. r)\<rparr>, be_order = (\<lambda>ks. ks)\<rparr>"

definition hybridForm :: Values where
  "hybridForm = [''mode'' \<mapsto> [''hybrid''], ''wait_ms'' \<mapsto> [Itoa 50]]"

definition emptyAuction :: BidRequest where
  "emptyAuction =
     \<lparr>BidRequest_ID = ''a'', BidRequest_Site = None, BidRequest_App = None, BidRequest_User = None,
      BidRequest_Device = None, BidRequest_Regs = None\<rparr>"

theorem benchmark_modes_planned_witness:
  "\<exists>e limiter evs d' plan.
     buildEnricher benchSampleEnv benchSample [] = (Inr (e, limiter, evs), d') \<and>
     executionPlanFor e (benchRequest benchSample emptyAuction (Some 50000000)) = Inr plan \<and>
     plan_mode plan = WaitModeHybrid \<and> plan_wait plan < 400000000"
proof -
  have built: "\<exists>e limiter evs d'. buildEnricher benchSampleEnv benchSample [] = (Inr (e, limiter, evs), d')"
    by (simp add: buildEnricher_def benchSampleEnv_def benchSample_def flagDefaults_def newFileStore_def ensurePrivateDir_def
        memoryDisk_def cache_New_def benchmarkCacheConfig_def enricher_New_def Let_def)
  then obtain e limiter evs d' where b: "buildEnricher benchSampleEnv benchSample [] = (Inr (e, limiter, evs), d')"
    by blast
  have valid: "server_validate benchSample = None" "0 < sc_timeout benchSample"
    by (simp_all add: server_validate_def benchSample_def flagDefaults_def time_Millisecond_def)
  have f: "values_Get hybridForm ''mode'' = ''hybrid''" "Atoi (values_Get hybridForm ''wait_ms'') = Some 50"
    by (simp_all add: values_Get_def hybridForm_def Atoi_Itoa in_int64_def)
  have w: "requestWait \<lparr>bt_quote = (\<lambda>s. s), bt_duration = Itoa\<rparr> benchSample hybridForm = Inr (Some 50000000)"
    using f by (simp add: requestWait_def benchSample_def flagDefaults_def mulDuration_def wrap64_def time_Millisecond_def)
  have fits: "case Atoi (values_Get hybridForm ''wait_ms'') of None \<Rightarrow> True | Some ms \<Rightarrow> in_int64 (ms * time_Millisecond)"
    by (simp add: f in_int64_def time_Millisecond_def)
  from benchmark_modes_planned [OF valid b w fits, of emptyAuction] b show ?thesis
    by (auto simp: f benchSample_def flagDefaults_def time_Millisecond_def)
qed

section \<open>What the handler answers\<close>

text \<open>A request that is not understood never reaches the enricher.\<close>

lemma benchmarkHandler_bad_request:
  assumes "requestWait txt cfg form = Inl err \<or> decodeAuction maxBodySize body = Inl err"
    and "benchmarkHandler txt decodeAuction codec cfg enrich c form body e clk = (resp, e', clk')"
  shows "bs_Status resp = 400 \<and> br_Outcome (bs_Body resp) = ''bad_request'' \<and> e' = e"
  using assms
  by (auto simp: benchmarkHandler_def badRequest_def respond_def Let_def split: sum.splits prod.splits)

text \<open>Otherwise the answer tells exactly what the enricher returned.\<close>

lemma benchmarkHandler_answers:
  assumes "requestWait txt cfg form = Inr wait" "decodeAuction maxBodySize body = Inr auction"
    and "enrich c (benchRequest cfg (liftExtEIDs codec auction) wait) e = (r, e1)"
    and "benchmarkHandler txt decodeAuction codec cfg enrich c form body e clk = (resp, e', clk')"
  shows "e' = e1 \<and> bs_Status resp = 200 \<and> br_AuctionID (bs_Body resp) = BidRequest_ID auction \<and>
    (case r of
       Inl err \<Rightarrow> br_Result (bs_Body resp) = None \<and> br_Outcome (bs_Body resp) = ''error'' \<and>
         map_option er_Status (br_Error (bs_Body resp)) =
           Some (case asAPIError err of None \<Rightarrow> 0 | Some (_, status) \<Rightarrow> status)
     | Inr x \<Rightarrow> br_Error (bs_Body resp) = None \<and> br_Outcome (bs_Body resp) = Outcome_string (Result_Outcome x) \<and>
         map_option rr_EIDs (br_Result (bs_Body resp)) = Some (Result_EIDs x))"
proof -
  have id: "BidRequest_ID (liftExtEIDs codec auction) = BidRequest_ID auction"
    by (simp add: liftExtEIDs_def split: option.split)
  show ?thesis
    using assms id
    by (auto simp: benchmarkHandler_def respond_def emptyRecord_def classify_def Let_def
        split: sum.splits prod.splits)
qed

text \<open>Lifting keeps ids that are there, and lifting again changes nothing.\<close>

lemma liftExtEIDs_idem: "liftExtEIDs codec (liftExtEIDs codec auction) = liftExtEIDs codec auction"
  by (auto simp: liftExtEIDs_def split: option.splits)

lemma liftExtEIDs_keeps:
  "BidRequest_User auction = Some user \<Longrightarrow> User_EIDs user \<noteq> [] \<Longrightarrow> liftExtEIDs codec auction = auction"
  by (simp add: liftExtEIDs_def)

end
