(* ===== verification/BenchServer.thy ===== *)
theory BenchServer
  imports Benchmark
begin

text \<open>
  \<^verbatim>\<open>cmd/benchmark/server.go\<close>: the command line of the benchmark server and the routes that it
  serves. Package \<^verbatim>\<open>flag\<close> scans the arguments and exits on an error; the texts of integers and
  durations are parameters. \<^verbatim>\<open>http.ServeMux\<close> cleans a path, finds the route and tells a path it
  does not know from a method that a path does not have.
\<close>

section \<open>The command line\<close>

text \<open>\<^verbatim>\<open>strconv.ParseInt\<close> with any base and \<^verbatim>\<open>time.ParseDuration\<close>.\<close>

record flagNumbers =
  fn_Int :: "string \<Rightarrow> int option"
  fn_Duration :: "string \<Rightarrow> duration option"

definition ParseBool :: "string \<Rightarrow> bool option" where
  "ParseBool s =
     (if s \<in> {''1'', ''t'', ''T'', ''true'', ''TRUE'', ''True''} then Some True
      else if s \<in> {''0'', ''f'', ''F'', ''false'', ''FALSE'', ''False''} then Some False
      else None)"

text \<open>The flags that \<^verbatim>\<open>parseFlags\<close> defines, with what setting each does to the configuration.\<close>

definition serverFlags :: "flagNumbers \<Rightarrow> (string \<times> (string \<Rightarrow> serverConfig \<Rightarrow> serverConfig option)) list" where
  "serverFlags nums =
     [(''listen'', \<lambda>v cfg. Some (cfg\<lparr>sc_listen := v\<rparr>)),
      (''endpoint'', \<lambda>v cfg. Some (cfg\<lparr>sc_endpoint := v\<rparr>)),
      (''partner'', \<lambda>v cfg. Some (cfg\<lparr>sc_partnerID := v\<rparr>)),
      (''timeout'', \<lambda>v cfg. map_option (\<lambda>d. cfg\<lparr>sc_timeout := d\<rparr>) (fn_Duration nums v)),
      (''concurrency'', \<lambda>v cfg. map_option (\<lambda>n. cfg\<lparr>sc_concurrency := n\<rparr>) (fn_Int nums v)),
      (''max-concurrent-calls'', \<lambda>v cfg. map_option (\<lambda>n. cfg\<lparr>sc_maxConcurrentCalls := n\<rparr>) (fn_Int nums v)),
      (''verbose'', \<lambda>v cfg. map_option (\<lambda>b. cfg\<lparr>sc_verbose := b\<rparr>) (ParseBool v)),
      (''cache'', \<lambda>v cfg. Some (cfg\<lparr>sc_cacheDir := v\<rparr>)),
      (''cache-ttl'', \<lambda>v cfg. map_option (\<lambda>d. cfg\<lparr>sc_cacheTTL := d\<rparr>) (fn_Duration nums v)),
      (''cache-max-keys'', \<lambda>v cfg. map_option (\<lambda>n. cfg\<lparr>sc_cacheMaxKeys := n\<rparr>) (fn_Int nums v))]"

definition isBoolFlag :: "string \<Rightarrow> bool" where
  "isBoolFlag name \<longleftrightarrow> name = ''verbose''"

definition splitFlag :: "string \<Rightarrow> string \<times> string option" where
  "splitFlag name =
     (takeWhile (\<lambda>c. c \<noteq> CHR ''='') name,
      case dropWhile (\<lambda>c. c \<noteq> CHR ''='') name of [] \<Rightarrow> None | _ # v \<Rightarrow> Some v)"

text \<open>\<^verbatim>\<open>flag.Parse\<close>: the configuration, or the status with which the process exits.\<close>

fun parseArgs :: "flagNumbers \<Rightarrow> string list \<Rightarrow> serverConfig \<Rightarrow> nat + serverConfig" where
  "parseArgs nums [] cfg = Inr cfg"
| "parseArgs nums (s # args) cfg =
     (if length s < 2 \<or> hd s \<noteq> CHR ''-'' then Inr cfg
      else if s = ''--'' then Inr cfg
      else
        (let text = drop (if s ! 1 = CHR ''-'' then 2 else 1) s in
         if text = [] \<or> hd text = CHR ''-'' \<or> hd text = CHR ''='' then Inl 2
         else
           (case map_of (serverFlags nums) (fst (splitFlag text)) of
              None \<Rightarrow> Inl (if fst (splitFlag text) \<in> {''help'', ''h''} then 0 else 2)
            | Some setter \<Rightarrow>
                if isBoolFlag (fst (splitFlag text)) then
                  (case setter (case snd (splitFlag text) of Some v \<Rightarrow> v | None \<Rightarrow> ''true'') cfg of
                     None \<Rightarrow> Inl 2 | Some cfg \<Rightarrow> parseArgs nums args cfg)
                else
                  (case snd (splitFlag text) of
                     Some v \<Rightarrow> (case setter v cfg of None \<Rightarrow> Inl 2 | Some cfg \<Rightarrow> parseArgs nums args cfg)
                   | None \<Rightarrow>
                       (case args of
                          [] \<Rightarrow> Inl 2
                        | v # args \<Rightarrow> (case setter v cfg of None \<Rightarrow> Inl 2 | Some cfg \<Rightarrow> parseArgs nums args cfg))))))"

definition parseFlags :: "flagNumbers \<Rightarrow> string list \<Rightarrow> nat + serverConfig" where
  "parseFlags nums args = parseArgs nums args flagDefaults"

text \<open>A configuration as a command line, with texts for its numbers.\<close>

definition flagArgs :: "(int \<Rightarrow> string) \<Rightarrow> (duration \<Rightarrow> string) \<Rightarrow> serverConfig \<Rightarrow> string list" where
  "flagArgs showInt showDuration cfg =
     [''-listen='' @ sc_listen cfg, ''-endpoint='' @ sc_endpoint cfg, ''-partner='' @ sc_partnerID cfg,
      ''-timeout='' @ showDuration (sc_timeout cfg), ''-concurrency='' @ showInt (sc_concurrency cfg),
      ''-max-concurrent-calls='' @ showInt (sc_maxConcurrentCalls cfg),
      ''-verbose='' @ (if sc_verbose cfg then ''true'' else ''false''), ''-cache='' @ sc_cacheDir cfg,
      ''-cache-ttl='' @ showDuration (sc_cacheTTL cfg), ''-cache-max-keys='' @ showInt (sc_cacheMaxKeys cfg)]"

section \<open>Routes\<close>

text \<open>
  What the listener delivers of a request: \<^verbatim>\<open>URL.EscapedPath\<close>, the query, the body and the context.
\<close>

record httpRequest =
  rq_Method :: string
  rq_Path :: string
  rq_Query :: Values
  rq_Body :: bytes
  rq_Ctx :: ctx

record textResponse =
  tx_Status :: int
  tx_ContentType :: string
  tx_Allow :: "string list"
  tx_Body :: bytes

datatype 'm httpAnswer =
    EnrichAnswer benchResponse
  | TextAnswer textResponse
  | MetricsAnswer 'm
  | Redirect string

datatype route = RouteEnrich | RouteHealth | RouteMetrics

definition serveRoutes :: "(string \<times> string \<times> route) list" where
  "serveRoutes =
     [(''POST'', ''/enrich'', RouteEnrich), (''GET'', ''/health'', RouteHealth), (''GET'', ''/metrics'', RouteMetrics)]"

text \<open>\<^verbatim>\<open>path.Clean\<close> of a rooted path, and \<^verbatim>\<open>cleanPath\<close>, which keeps a trailing slash.\<close>

fun splitSlash :: "string \<Rightarrow> string list" where
  "splitSlash [] = [[]]"
| "splitSlash (c # s) =
     (if c = CHR ''/'' then [] # splitSlash s
      else (case splitSlash s of [] \<Rightarrow> [[c]] | seg # segs \<Rightarrow> (c # seg) # segs))"

fun cleanStep :: "string list \<Rightarrow> string \<Rightarrow> string list" where
  "cleanStep out seg =
     (if seg = [] \<or> seg = ''.'' then out else if seg = ''..'' then butlast out else out @ [seg])"

definition joinSlash :: "string list \<Rightarrow> string" where
  "joinSlash segs = concat (map (\<lambda>s. CHR ''/'' # s) segs)"

definition path_Clean :: "string \<Rightarrow> string" where
  "path_Clean p = (case foldl cleanStep [] (splitSlash p) of [] \<Rightarrow> ''/'' | out \<Rightarrow> joinSlash out)"

definition cleanPath :: "string \<Rightarrow> string" where
  "cleanPath p =
     (if p = [] then ''/''
      else
        (let p = (if hd p \<noteq> CHR ''/'' then CHR ''/'' # p else p);
             np = path_Clean p
         in if last p = CHR ''/'' \<and> np \<noteq> ''/'' then np @ ''/'' else np))"

text \<open>\<^verbatim>\<open>url.PathUnescape\<close>; the mux takes a segment that it cannot decode as it is.\<close>

fun PathUnescape :: "string \<Rightarrow> string option" where
  "PathUnescape [] = Some []"
| "PathUnescape (c # s) =
     (if c = CHR ''%'' then
        (case s of
           h # l # t \<Rightarrow>
             (case (hexDigit h, hexDigit l) of
                (Some a, Some b) \<Rightarrow> map_option (\<lambda>r. chr (16 * a + b) # r) (PathUnescape t)
              | _ \<Rightarrow> None)
         | _ \<Rightarrow> None)
      else map_option (\<lambda>r. c # r) (PathUnescape s))"

definition pathMatches :: "string \<Rightarrow> string \<Rightarrow> bool" where
  "pathMatches pattern p =
     (case p of
        c # seg \<Rightarrow>
          c = CHR ''/'' \<and> seg \<noteq> [] \<and> CHR ''/'' \<notin> set seg \<and>
          pattern = CHR ''/'' # (case PathUnescape seg of Some u \<Rightarrow> u | None \<Rightarrow> seg)
      | [] \<Rightarrow> False)"

definition methodMatches :: "string \<Rightarrow> string \<Rightarrow> bool" where
  "methodMatches m method \<longleftrightarrow> m = method \<or> m = ''GET'' \<and> method = ''HEAD''"

definition findRoute :: "string \<Rightarrow> string \<Rightarrow> route option" where
  "findRoute method p =
     map_option (\<lambda>(_, _, r). r) (find (\<lambda>(m, pattern, _). methodMatches m method \<and> pathMatches pattern p) serveRoutes)"

definition allowedMethods :: "string \<Rightarrow> string list" where
  "allowedMethods p =
     concat (map (\<lambda>(m, pattern, _).
       if pathMatches pattern p then if m = ''GET'' then [m, ''HEAD''] else [m] else []) serveRoutes)"

definition textAnswer :: "int \<Rightarrow> string list \<Rightarrow> string \<Rightarrow> 'm httpAnswer" where
  "textAnswer status allow text = TextAnswer \<lparr>tx_Status = status, tx_ContentType = ''text/plain; charset=utf-8'',
     tx_Allow = allow, tx_Body = text @ [CHR 0x0A]\<rparr>"

text \<open>\<^verbatim>\<open>serve\<close>: what its mux does with a request. The page of metrics is the Prometheus library's.\<close>

definition serve ::
  "benchText \<Rightarrow> (nat \<Rightarrow> bytes \<Rightarrow> go_error + BidRequest) \<Rightarrow> eid_codec \<Rightarrow> ('r \<Rightarrow> 'm) \<Rightarrow> serverConfig \<Rightarrow>
     (ctx \<Rightarrow> Request \<Rightarrow> 'e \<Rightarrow> (go_error + Result) \<times> 'e) \<Rightarrow> 'r \<Rightarrow> httpRequest \<Rightarrow> 'e \<Rightarrow> clock_state \<Rightarrow>
     'm httpAnswer \<times> 'e \<times> clock_state" where
  "serve txt decodeAuction codec metricsPage cfg enrich registry rq e clk =
     (let p = (if rq_Method rq = ''CONNECT'' then rq_Path rq else cleanPath (rq_Path rq)) in
      if p \<noteq> rq_Path rq then (Redirect p, e, clk)
      else
        (case findRoute (rq_Method rq) p of
           Some RouteEnrich \<Rightarrow>
             (let (resp, e, clk) =
                    benchmarkHandler txt decodeAuction codec cfg enrich (rq_Ctx rq) (rq_Query rq) (rq_Body rq) e clk
              in (EnrichAnswer resp, e, clk))
         | Some RouteHealth \<Rightarrow> (textAnswer 200 [] ''ok'', e, clk)
         | Some RouteMetrics \<Rightarrow> (MetricsAnswer (metricsPage registry), e, clk)
         | None \<Rightarrow>
             if allowedMethods p \<noteq> [] then (textAnswer 405 (allowedMethods p) ''Method Not Allowed'', e, clk)
             else (textAnswer 404 [] ''404 page not found'', e, clk)))"

text \<open>\<^verbatim>\<open>main\<close>: the exit status of the process, when \<^verbatim>\<open>ListenAndServe\<close> ends with an error.\<close>

definition bench_main ::
  "flagNumbers \<Rightarrow> ('col, 'r) promLib \<Rightarrow> ('f, 'd) benchEnv \<Rightarrow> (serverConfig \<Rightarrow> ('f, 'd) benchEnricher \<Rightarrow> go_error option) \<Rightarrow>
     string list \<Rightarrow> 'r \<Rightarrow> 'd \<Rightarrow> nat \<times> 'r \<times> 'd" where
  "bench_main nums lib env listenAndServe args registry d =
     (case parseFlags nums args of
        Inl status \<Rightarrow> (status, registry, d)
      | Inr cfg \<Rightarrow>
          (case bench_run lib env cfg registry d of
             (Inl err, registry, d) \<Rightarrow> (1, registry, d)
           | (Inr e, registry, d) \<Rightarrow> (case listenAndServe cfg e of Some err \<Rightarrow> 1 | None \<Rightarrow> 0, registry, d)))"

section \<open>What the command line says\<close>

lemma splitFlag_value: "CHR ''='' \<notin> set name \<Longrightarrow> splitFlag (name @ CHR ''='' # v) = (name, Some v)"
  by (induction name) (auto simp: splitFlag_def)

text \<open>One argument \<^verbatim>\<open>-name=value\<close> sets one flag.\<close>

lemma parseArgs_set:
  assumes "map_of (serverFlags nums) name = Some setter" "name \<noteq> []" "hd name \<noteq> CHR ''-''" "CHR ''='' \<notin> set name"
  shows "parseArgs nums ((CHR ''-'' # name @ CHR ''='' # v) # args) cfg =
    (case setter v cfg of None \<Rightarrow> Inl 2 | Some cfg' \<Rightarrow> parseArgs nums args cfg')"
proof -
  obtain c t where n: "name = c # t" using assms(2) by (cases name) auto
  with assms splitFlag_value [OF assms(4), of v] show ?thesis
    by (auto simp: Let_def split: option.split)
qed

text \<open>The value of a flag may be the next argument, except for the boolean one.\<close>

lemma parseArgs_set_next:
  assumes "map_of (serverFlags nums) name = Some setter" "name \<noteq> []" "hd name \<noteq> CHR ''-''" "CHR ''='' \<notin> set name"
    and "\<not> isBoolFlag name"
  shows "parseArgs nums ((CHR ''-'' # name) # v # args) cfg = parseArgs nums ((CHR ''-'' # name @ CHR ''='' # v) # args) cfg"
proof -
  obtain c t where n: "name = c # t" using assms(2) by (cases name) auto
  have no: "\<forall>x\<in>set name. x \<noteq> CHR ''=''" using assms(4) by auto
  then have "takeWhile (\<lambda>c. c \<noteq> CHR ''='') name = name" "dropWhile (\<lambda>c. c \<noteq> CHR ''='') name = []"
    by (simp_all only: takeWhile_eq_all_conv dropWhile_eq_Nil_conv)
  then have "splitFlag name = (name, None)" by (simp only: splitFlag_def list.case)
  with n have e: "splitFlag (c # t) = (c # t, None)" by simp
  show ?thesis unfolding parseArgs_set [OF assms(1-4)] using assms n by (auto simp: Let_def e)
qed

lemma parseArgs_status: "parseArgs nums args cfg = Inl status \<Longrightarrow> status = 0 \<or> status = 2"
  by (induction nums args cfg rule: parseArgs.induct)
     (auto simp: Let_def split: if_splits option.splits list.splits)

text \<open>A command line that spells out a configuration gives that configuration.\<close>

lemma parseFlags_roundtrip:
  assumes "\<And>n. fn_Int nums (showInt n) = Some n" "\<And>d. fn_Duration nums (showDuration d) = Some d"
  shows "parseFlags nums (flagArgs showInt showDuration cfg) = Inr cfg"
  using assms
  by (simp add: parseFlags_def flagArgs_def splitFlag_def serverFlags_def isBoolFlag_def ParseBool_def flagDefaults_def)

text \<open>A bad command line ends the process with 0 or 2 and a bad configuration with 1, before anything is opened.\<close>

lemma bench_main_refuses:
  assumes "case parseFlags nums args of Inl _ \<Rightarrow> True | Inr cfg \<Rightarrow> server_validate cfg \<noteq> None"
  shows "\<exists>status \<le> 2. bench_main nums lib env listenAndServe args registry d = (status, registry, d) \<and>
    (status = 1 \<longleftrightarrow> (\<exists>cfg. parseFlags nums args = Inr cfg))"
  using assms parseArgs_status [of nums args flagDefaults]
  by (cases "parseFlags nums args") (auto simp: bench_main_def bench_run_def parseFlags_def split: option.splits)

section \<open>Where requests go\<close>

lemma splitSlash_not_empty [simp]: "splitSlash s \<noteq> []"
  by (induction s) (auto split: list.split)

lemma splitSlash_app: "CHR ''/'' \<notin> set s \<Longrightarrow> splitSlash (s @ CHR ''/'' # t) = s # splitSlash t"
  by (induction s) auto

lemma splitSlash_single: "CHR ''/'' \<notin> set s \<Longrightarrow> splitSlash s = [s]"
  by (induction s) auto

lemma splitSlash_parts: "seg \<in> set (splitSlash s) \<Longrightarrow> CHR ''/'' \<notin> set seg"
proof (induction s arbitrary: seg)
  case (Cons c s)
  then show ?case by (cases "splitSlash s") (auto split: if_splits)
qed simp

definition segment :: "string \<Rightarrow> bool" where
  "segment s \<longleftrightarrow> CHR ''/'' \<notin> set s \<and> s \<noteq> [] \<and> s \<noteq> ''.'' \<and> s \<noteq> ''..''"

lemma splitSlash_join: "list_all segment segs \<Longrightarrow> segs \<noteq> [] \<Longrightarrow> splitSlash (joinSlash segs @ t) = [] # butlast segs @ splitSlash (last segs @ t)"
proof (induction segs)
  case (Cons s segs)
  show ?case
  proof (cases segs)
    case Nil
    then show ?thesis by (simp add: joinSlash_def)
  next
    case (Cons s' segs')
    with Cons.IH Cons.prems have "splitSlash (joinSlash segs @ t) = [] # butlast segs @ splitSlash (last segs @ t)" by simp
    moreover have "joinSlash segs @ t = CHR ''/'' # (s' @ joinSlash segs' @ t)" using Cons by (simp add: joinSlash_def)
    ultimately have "splitSlash (s' @ joinSlash segs' @ t) = butlast segs @ splitSlash (last segs @ t)" by simp
    with Cons Cons.prems splitSlash_app [of s "s' @ joinSlash segs' @ t"] show ?thesis
      by (simp add: joinSlash_def segment_def)
  qed
qed simp

lemma cleanStep_segments: "list_all segment out \<Longrightarrow> CHR ''/'' \<notin> set seg \<Longrightarrow> list_all segment (cleanStep out seg)"
  by (auto simp: segment_def list_all_iff dest: in_set_butlastD)

lemma clean_segments:
  "list_all segment out \<Longrightarrow> (\<And>seg. seg \<in> set segs \<Longrightarrow> CHR ''/'' \<notin> set seg) \<Longrightarrow> list_all segment (foldl cleanStep out segs)"
  by (induction segs arbitrary: out) (simp_all add: cleanStep_segments del: cleanStep.simps)

lemma clean_clean: "list_all segment segs \<Longrightarrow> foldl cleanStep out segs = out @ segs"
  by (induction segs arbitrary: out) (auto simp: segment_def)

lemma path_Clean_segments:
  obtains segs where "list_all segment segs" "path_Clean p = (case segs of [] \<Rightarrow> ''/'' | _ \<Rightarrow> joinSlash segs)"
proof (rule that)
  show "list_all segment (foldl cleanStep [] (splitSlash p))"
    by (rule clean_segments) (auto dest: splitSlash_parts)
qed (simp add: path_Clean_def split: list.split)

lemma path_Clean_join:
  "list_all segment segs \<Longrightarrow> segs \<noteq> [] \<Longrightarrow> path_Clean (joinSlash segs) = joinSlash segs"
  "list_all segment segs \<Longrightarrow> segs \<noteq> [] \<Longrightarrow> path_Clean (joinSlash segs @ ''/'') = joinSlash segs"
proof -
  assume s: "list_all segment segs" "segs \<noteq> []"
  then have l: "CHR ''/'' \<notin> set (last segs)" by (simp add: list_all_iff segment_def)
  have "splitSlash (joinSlash segs) = [] # segs"
    using splitSlash_join [OF s, of "[]"] s by (simp add: splitSlash_single [OF l])
  moreover have "splitSlash (joinSlash segs @ ''/'') = [] # segs @ [[]]"
    using splitSlash_join [OF s, of "''/''"] s by (simp add: splitSlash_app [OF l])
  ultimately show "path_Clean (joinSlash segs) = joinSlash segs" "path_Clean (joinSlash segs @ ''/'') = joinSlash segs"
    using s by (simp_all add: path_Clean_def clean_clean split: list.split)
qed

lemma joinSlash_ends: "list_all segment segs \<Longrightarrow> segs \<noteq> [] \<Longrightarrow>
    joinSlash segs \<noteq> [] \<and> hd (joinSlash segs) = CHR ''/'' \<and> last (joinSlash segs) \<noteq> CHR ''/'' \<and> joinSlash segs \<noteq> ''/''"
proof -
  assume s: "list_all segment segs" "segs \<noteq> []"
  then obtain init z where z: "segs = init @ [z]" "segment z" by (cases segs rule: rev_cases) auto
  then have "z \<noteq> []" "CHR ''/'' \<notin> set z" by (simp_all add: segment_def)
  with last_in_set [of z] have l: "last z \<noteq> CHR ''/''" by metis
  have last: "last (joinSlash segs) = last z" using z \<open>z \<noteq> []\<close> by (simp add: joinSlash_def)
  have "joinSlash segs \<noteq> []" "hd (joinSlash segs) = CHR ''/''" using s(2) by (cases segs; simp add: joinSlash_def)+
  moreover have "joinSlash segs \<noteq> ''/''" using l last by auto
  ultimately show ?thesis using l last by simp
qed

text \<open>A redirect leads to a path that is not redirected again.\<close>

lemma cleanPath_idem: "cleanPath (cleanPath p) = cleanPath p"
proof -
  have "cleanPath p = ''/'' \<or> (\<exists>segs. list_all segment segs \<and> segs \<noteq> [] \<and> cleanPath p \<in> {joinSlash segs, joinSlash segs @ ''/''})"
  proof (cases "p = []")
    case False
    let ?p = "if hd p \<noteq> CHR ''/'' then CHR ''/'' # p else p"
    obtain segs where segs: "list_all segment segs" "path_Clean ?p = (case segs of [] \<Rightarrow> ''/'' | _ \<Rightarrow> joinSlash segs)"
      by (rule path_Clean_segments)
    with False have "cleanPath p \<in> {path_Clean ?p, path_Clean ?p @ ''/''}" "path_Clean ?p = ''/'' \<longrightarrow> cleanPath p = ''/''"
      by (simp_all add: cleanPath_def Let_def)
    with segs have "segs = [] \<and> cleanPath p = ''/'' \<or> segs \<noteq> [] \<and> cleanPath p \<in> {joinSlash segs, joinSlash segs @ ''/''}"
      by (cases segs) auto
    with segs(1) show ?thesis by blast
  qed (simp add: cleanPath_def)
  then show ?thesis
  proof (elim disjE exE conjE)
    fix segs assume s: "list_all segment segs" "segs \<noteq> []" "cleanPath p \<in> {joinSlash segs, joinSlash segs @ ''/''}"
    from joinSlash_ends [OF s(1,2)] path_Clean_join [OF s(1,2)] s(3) show ?thesis
      by (auto simp: cleanPath_def [of "joinSlash segs"] cleanPath_def [of "joinSlash segs @ ''/''"] Let_def)
  qed (simp add: cleanPath_def path_Clean_def)
qed

lemma route_cases:
  assumes "findRoute method p = Some r"
  shows "r = RouteEnrich \<and> method = ''POST'' \<and> pathMatches ''/enrich'' p \<or>
    r = RouteHealth \<and> method \<in> {''GET'', ''HEAD''} \<and> pathMatches ''/health'' p \<or>
    r = RouteMetrics \<and> method \<in> {''GET'', ''HEAD''} \<and> pathMatches ''/metrics'' p"
  using assms by (auto simp: findRoute_def serveRoutes_def methodMatches_def split: if_splits)

lemma route_unique: "pathMatches a p \<Longrightarrow> pathMatches b p \<Longrightarrow> a = b"
  by (auto simp: pathMatches_def split: list.splits)

text \<open>
  Only \<^verbatim>\<open>POST /enrich\<close> reaches the enricher, \<^verbatim>\<open>GET\<close> and \<^verbatim>\<open>HEAD\<close> reach the other two; a path that is
  known for other methods is answered with 405 and exactly these methods, any other with 404.
\<close>

lemma serve_routes:
  assumes "serve txt decodeAuction codec metricsPage cfg enrich registry rq e clk = (answer, e', clk')"
    and "cleanPath (rq_Path rq) = rq_Path rq"
  shows "case answer of
      EnrichAnswer resp \<Rightarrow> rq_Method rq = ''POST'' \<and> pathMatches ''/enrich'' (rq_Path rq) \<and>
        benchmarkHandler txt decodeAuction codec cfg enrich (rq_Ctx rq) (rq_Query rq) (rq_Body rq) e clk = (resp, e', clk')
    | MetricsAnswer page \<Rightarrow> rq_Method rq \<in> {''GET'', ''HEAD''} \<and> pathMatches ''/metrics'' (rq_Path rq) \<and>
        page = metricsPage registry \<and> e' = e
    | TextAnswer text \<Rightarrow> e' = e \<and>
        (if tx_Status text = 200 then rq_Method rq \<in> {''GET'', ''HEAD''} \<and> pathMatches ''/health'' (rq_Path rq)
         else if tx_Status text = 405 then rq_Method rq \<notin> set (tx_Allow text) \<and>
           (\<forall>m. m \<in> set (tx_Allow text) \<longleftrightarrow> findRoute m (rq_Path rq) \<noteq> None) \<and> tx_Allow text \<noteq> []
         else tx_Status text = 404 \<and> (\<forall>m. findRoute m (rq_Path rq) = None))
    | Redirect p \<Rightarrow> False"
proof -
  have allow: "m \<in> set (allowedMethods p) \<longleftrightarrow> findRoute m p \<noteq> None" for m p
    by (auto simp: allowedMethods_def findRoute_def serveRoutes_def methodMatches_def split: if_splits)
  show ?thesis
  proof (cases "findRoute (rq_Method rq) (rq_Path rq)")
    case None
    with assms allow [of _ "rq_Path rq"] show ?thesis
      by (auto simp: serve_def textAnswer_def Let_def split: if_splits) 
  next
    case (Some r)
    with assms route_cases [OF Some] show ?thesis
      by (cases r) (auto simp: serve_def textAnswer_def Let_def split: if_splits prod.splits)
  qed
qed

end
