(* ===== verification/PrebidConfig.thy ===== *)
theory PrebidConfig
  imports Stores Reporter Enricher
begin

text \<open>
  \<^verbatim>\<open>example/prebid-module/config.go\<close>: the configuration of the Prebid Server module and how an
  account's configuration is laid over it.

  A configuration has pointers, and \<^verbatim>\<open>json.Unmarshal\<close> writes through a pointer that is not nil.
  The cells that they point to are therefore a heap, one component for each pointed-to type,
  and a pointer is an address or nil.
\<close>

section \<open>Pointers\<close>

record moduleHeap =
  heap_int :: "nat \<Rightarrow> int"
  heap_redis :: "nat \<Rightarrow> RedisConfig"
  heap_valkey :: "nat \<Rightarrow> ValkeyConfig"
  heap_aerospike :: "nat \<Rightarrow> AerospikeConfig"
  heap_next :: nat

record ModuleConfig =
  mc_PartnerID :: string
  mc_APIEndpoint :: string
  mc_ReportsEndpoint :: string
  mc_Timeout :: int
  mc_WaitTimeout :: "nat option"
  mc_MaxConcurrentCalls :: int
  mc_Cache :: CacheConfig
  mc_Redis :: "nat option"
  mc_Valkey :: "nat option"
  mc_Aerospike :: "nat option"
  mc_MetricsEnabled :: bool
  mc_MetricsPort :: int
  mc_Reporting :: ReportConfig

section \<open>\<^verbatim>\<open>json.Unmarshal\<close> into a value that exists\<close>

text \<open>
  Decoding updates a value in place. A member of the wrong type leaves its target alone and is
  an error in the end, and the members after it are decoded all the same; null leaves a
  target alone, and sets a pointer to nil.
\<close>

definition orKeep :: "'a option \<Rightarrow> ('a \<Rightarrow> 's) \<Rightarrow> 's \<Rightarrow> bool \<times> 's" where
  "orKeep v f s = (case v of None \<Rightarrow> (False, s) | Some x \<Rightarrow> (True, f x))"

fun eachMember :: "(string \<Rightarrow> json \<Rightarrow> 's \<Rightarrow> bool \<times> 's) \<Rightarrow> (string \<times> json) list \<Rightarrow> 's \<Rightarrow> bool \<times> 's" where
  "eachMember f [] s = (True, s)"
| "eachMember f ((k, v) # kvs) s =
     (let (ok, s) = f k v s; (rest, s) = eachMember f kvs s in (ok \<and> rest, s))"

definition intoStruct :: "(string \<Rightarrow> json \<Rightarrow> 's \<Rightarrow> bool \<times> 's) \<Rightarrow> json \<Rightarrow> 's \<Rightarrow> bool \<times> 's" where
  "intoStruct f j s = (case j of JNull \<Rightarrow> (True, s) | JObj kvs \<Rightarrow> eachMember f kvs s | _ \<Rightarrow> (False, s))"

text \<open>A pointer: nil on null, otherwise its cell is decoded into, and made first when it is nil.\<close>

definition intoPointer ::
  "(json \<Rightarrow> 'v \<Rightarrow> bool \<times> 'v) \<Rightarrow> 'v \<Rightarrow> json \<Rightarrow> nat option \<Rightarrow> (nat \<Rightarrow> 'v) \<Rightarrow> nat \<Rightarrow>
     bool \<times> nat option \<times> (nat \<Rightarrow> 'v) \<times> nat" where
  "intoPointer dec zero j p cells nxt =
     (if j = JNull then (True, None, cells, nxt)
      else
        (let (a, cells, nxt) = (case p of Some a \<Rightarrow> (a, cells, nxt)
               | None \<Rightarrow> (nxt, cells(nxt := zero), Suc nxt));
             (ok, v) = dec j (cells a)
         in (ok, Some a, cells(a := v), nxt)))"

definition intoInt :: "json \<Rightarrow> int \<Rightarrow> bool \<times> int" where
  "intoInt j i = orKeep (decodeInt 64 j i) (\<lambda>v. v) i"

definition cacheField :: "string \<Rightarrow> json \<Rightarrow> CacheConfig \<Rightarrow> bool \<times> CacheConfig" where
  "cacheField k j c =
     (if isField ''enabled'' k then orKeep (decodeBool j (Enabled c)) (\<lambda>v. c\<lparr>Enabled := v\<rparr>) c
      else if isField ''provider'' k then orKeep (decodeString j (Provider c)) (\<lambda>v. c\<lparr>Provider := v\<rparr>) c
      else if isField ''ttl_seconds'' k then orKeep (decodeInt 64 j (TTLSeconds c)) (\<lambda>v. c\<lparr>TTLSeconds := v\<rparr>) c
      else if isField ''max_keys'' k then orKeep (decodeInt 64 j (MaxKeys c)) (\<lambda>v. c\<lparr>MaxKeys := v\<rparr>) c
      else if isField ''max_size'' k then orKeep (decodeInt 64 j (MaxSize c)) (\<lambda>v. c\<lparr>MaxSize := v\<rparr>) c
      else if isField ''ttl_ceiling_first_party_seconds'' k then
        orKeep (decodeInt 64 j (TTLCeilingFirstPartySeconds c)) (\<lambda>v. c\<lparr>TTLCeilingFirstPartySeconds := v\<rparr>) c
      else if isField ''ttl_ceiling_third_party_seconds'' k then
        orKeep (decodeInt 64 j (TTLCeilingThirdPartySeconds c)) (\<lambda>v. c\<lparr>TTLCeilingThirdPartySeconds := v\<rparr>) c
      else if isField ''ttl_ceiling_device_seconds'' k then
        orKeep (decodeInt 64 j (TTLCeilingDeviceSeconds c)) (\<lambda>v. c\<lparr>TTLCeilingDeviceSeconds := v\<rparr>) c
      else if isField ''negative_ttl_seconds'' k then
        orKeep (decodeInt 64 j (NegativeTTLSeconds c)) (\<lambda>v. c\<lparr>NegativeTTLSeconds := v\<rparr>) c
      else (True, c))"

definition redisField :: "string \<Rightarrow> json \<Rightarrow> RedisConfig \<Rightarrow> bool \<times> RedisConfig" where
  "redisField k j c =
     (if isField ''host'' k then orKeep (decodeString j (Redis_Host c)) (\<lambda>v. c\<lparr>Redis_Host := v\<rparr>) c
      else if isField ''port'' k then orKeep (decodeInt 64 j (Redis_Port c)) (\<lambda>v. c\<lparr>Redis_Port := v\<rparr>) c
      else if isField ''password'' k then orKeep (decodeString j (Redis_Password c)) (\<lambda>v. c\<lparr>Redis_Password := v\<rparr>) c
      else if isField ''connect_timeout_ms'' k then
        orKeep (decodeInt 64 j (Redis_ConnectTimeoutMs c)) (\<lambda>v. c\<lparr>Redis_ConnectTimeoutMs := v\<rparr>) c
      else (True, c))"

definition valkeyField :: "string \<Rightarrow> json \<Rightarrow> ValkeyConfig \<Rightarrow> bool \<times> ValkeyConfig" where
  "valkeyField k j c =
     (if isField ''host'' k then orKeep (decodeString j (Valkey_Host c)) (\<lambda>v. c\<lparr>Valkey_Host := v\<rparr>) c
      else if isField ''port'' k then orKeep (decodeInt 64 j (Valkey_Port c)) (\<lambda>v. c\<lparr>Valkey_Port := v\<rparr>) c
      else if isField ''password'' k then orKeep (decodeString j (Valkey_Password c)) (\<lambda>v. c\<lparr>Valkey_Password := v\<rparr>) c
      else if isField ''connect_timeout_ms'' k then
        orKeep (decodeInt 64 j (Valkey_ConnectTimeoutMs c)) (\<lambda>v. c\<lparr>Valkey_ConnectTimeoutMs := v\<rparr>) c
      else (True, c))"

definition policyField :: "string \<Rightarrow> json \<Rightarrow> AerospikePolicy \<Rightarrow> bool \<times> AerospikePolicy" where
  "policyField k j c =
     (if isField ''connection_queue_size'' k then
        orKeep (decodeInt 64 j (ConnectionQueueSize c)) (\<lambda>v. c\<lparr>ConnectionQueueSize := v\<rparr>) c
      else if isField ''min_connections_per_node'' k then
        orKeep (decodeInt 64 j (MinConnectionsPerNode c)) (\<lambda>v. c\<lparr>MinConnectionsPerNode := v\<rparr>) c
      else if isField ''connect_timeout_ms'' k then
        orKeep (decodeInt 64 j (Aerospike_ConnectTimeoutMs c)) (\<lambda>v. c\<lparr>Aerospike_ConnectTimeoutMs := v\<rparr>) c
      else if isField ''idle_timeout_ms'' k then
        orKeep (decodeInt 64 j (IdleTimeoutMs c)) (\<lambda>v. c\<lparr>IdleTimeoutMs := v\<rparr>) c
      else (True, c))"

definition aerospikeField :: "string \<Rightarrow> json \<Rightarrow> AerospikeConfig \<Rightarrow> bool \<times> AerospikeConfig" where
  "aerospikeField k j c =
     (if isField ''host'' k then orKeep (decodeString j (Aerospike_Host c)) (\<lambda>v. c\<lparr>Aerospike_Host := v\<rparr>) c
      else if isField ''port'' k then orKeep (decodeInt 64 j (Aerospike_Port c)) (\<lambda>v. c\<lparr>Aerospike_Port := v\<rparr>) c
      else if isField ''namespace'' k then
        orKeep (decodeString j (Aerospike_Namespace c)) (\<lambda>v. c\<lparr>Aerospike_Namespace := v\<rparr>) c
      else if isField ''set'' k then orKeep (decodeString j (Aerospike_Set c)) (\<lambda>v. c\<lparr>Aerospike_Set := v\<rparr>) c
      else if isField ''client_policy'' k then
        (case intoStruct policyField j (Aerospike_Policy c) of (ok, p) \<Rightarrow> (ok, c\<lparr>Aerospike_Policy := p\<rparr>))
      else (True, c))"

definition reportingField :: "string \<Rightarrow> json \<Rightarrow> ReportConfig \<Rightarrow> bool \<times> ReportConfig" where
  "reportingField k j c =
     (if isField ''max_concurrent_calls'' k then
        orKeep (decodeInt 64 j (MaxConcurrentCalls c)) (\<lambda>v. c\<lparr>MaxConcurrentCalls := v\<rparr>) c
      else (True, c))"

definition emptyRedis :: RedisConfig where
  "emptyRedis = \<lparr>Redis_Host = [], Redis_Port = 0, Redis_Password = [], Redis_ConnectTimeoutMs = 0\<rparr>"

definition emptyValkey :: ValkeyConfig where
  "emptyValkey = \<lparr>Valkey_Host = [], Valkey_Port = 0, Valkey_Password = [], Valkey_ConnectTimeoutMs = 0\<rparr>"

definition emptyAerospike :: AerospikeConfig where
  "emptyAerospike =
     \<lparr>Aerospike_Host = [], Aerospike_Port = 0, Aerospike_Namespace = [], Aerospike_Set = [],
      Aerospike_Policy = \<lparr>ConnectionQueueSize = 0, MinConnectionsPerNode = 0,
        Aerospike_ConnectTimeoutMs = 0, IdleTimeoutMs = 0\<rparr>\<rparr>"

definition configField ::
  "string \<Rightarrow> json \<Rightarrow> ModuleConfig \<times> moduleHeap \<Rightarrow> bool \<times> ModuleConfig \<times> moduleHeap" where
  "configField k j s =
     (let (c, h) = s in
      if isField ''partner_id'' k then orKeep (decodeString j (mc_PartnerID c)) (\<lambda>v. (c\<lparr>mc_PartnerID := v\<rparr>, h)) s
      else if isField ''api_endpoint'' k then
        orKeep (decodeString j (mc_APIEndpoint c)) (\<lambda>v. (c\<lparr>mc_APIEndpoint := v\<rparr>, h)) s
      else if isField ''reports_endpoint'' k then
        orKeep (decodeString j (mc_ReportsEndpoint c)) (\<lambda>v. (c\<lparr>mc_ReportsEndpoint := v\<rparr>, h)) s
      else if isField ''timeout'' k then orKeep (decodeInt 64 j (mc_Timeout c)) (\<lambda>v. (c\<lparr>mc_Timeout := v\<rparr>, h)) s
      else if isField ''wait_timeout'' k then
        (case intoPointer intoInt 0 j (mc_WaitTimeout c) (heap_int h) (heap_next h) of
           (ok, p, cells, nxt) \<Rightarrow> (ok, c\<lparr>mc_WaitTimeout := p\<rparr>, h\<lparr>heap_int := cells, heap_next := nxt\<rparr>))
      else if isField ''max_concurrent_calls'' k then
        orKeep (decodeInt 64 j (mc_MaxConcurrentCalls c)) (\<lambda>v. (c\<lparr>mc_MaxConcurrentCalls := v\<rparr>, h)) s
      else if isField ''cache'' k then
        (case intoStruct cacheField j (mc_Cache c) of (ok, v) \<Rightarrow> (ok, c\<lparr>mc_Cache := v\<rparr>, h))
      else if isField ''redis'' k then
        (case intoPointer (intoStruct redisField) emptyRedis j (mc_Redis c) (heap_redis h) (heap_next h) of
           (ok, p, cells, nxt) \<Rightarrow> (ok, c\<lparr>mc_Redis := p\<rparr>, h\<lparr>heap_redis := cells, heap_next := nxt\<rparr>))
      else if isField ''valkey'' k then
        (case intoPointer (intoStruct valkeyField) emptyValkey j (mc_Valkey c) (heap_valkey h) (heap_next h) of
           (ok, p, cells, nxt) \<Rightarrow> (ok, c\<lparr>mc_Valkey := p\<rparr>, h\<lparr>heap_valkey := cells, heap_next := nxt\<rparr>))
      else if isField ''aerospike'' k then
        (case intoPointer (intoStruct aerospikeField) emptyAerospike j (mc_Aerospike c) (heap_aerospike h) (heap_next h) of
           (ok, p, cells, nxt) \<Rightarrow> (ok, c\<lparr>mc_Aerospike := p\<rparr>, h\<lparr>heap_aerospike := cells, heap_next := nxt\<rparr>))
      else if isField ''metrics_enabled'' k then
        orKeep (decodeBool j (mc_MetricsEnabled c)) (\<lambda>v. (c\<lparr>mc_MetricsEnabled := v\<rparr>, h)) s
      else if isField ''metrics_port'' k then
        orKeep (decodeInt 64 j (mc_MetricsPort c)) (\<lambda>v. (c\<lparr>mc_MetricsPort := v\<rparr>, h)) s
      else if isField ''reporting'' k then
        (case intoStruct reportingField j (mc_Reporting c) of (ok, v) \<Rightarrow> (ok, c\<lparr>mc_Reporting := v\<rparr>, h))
      else (True, s))"

definition unmarshalConfig ::
  "bytes \<Rightarrow> ModuleConfig \<times> moduleHeap \<Rightarrow> bool \<times> ModuleConfig \<times> moduleHeap" where
  "unmarshalConfig raw s = (case parseJSON raw of None \<Rightarrow> (False, s) | Some j \<Rightarrow> intoStruct configField j s)"

section \<open>The configuration's methods\<close>

definition defaultConfig :: ModuleConfig where
  "defaultConfig =
     \<lparr>mc_PartnerID = [], mc_APIEndpoint = [], mc_ReportsEndpoint = [], mc_Timeout = 1000,
      mc_WaitTimeout = None, mc_MaxConcurrentCalls = 0,
      mc_Cache = \<lparr>Enabled = False, Provider = [], TTLSeconds = 43200, MaxKeys = 10, MaxSize = 100000,
        TTLCeilingFirstPartySeconds = 86400, TTLCeilingThirdPartySeconds = 43200,
        TTLCeilingDeviceSeconds = 3600, NegativeTTLSeconds = 120\<rparr>,
      mc_Redis = None, mc_Valkey = None, mc_Aerospike = None,
      mc_MetricsEnabled = True, mc_MetricsPort = 0, mc_Reporting = \<lparr>MaxConcurrentCalls = 16\<rparr>\<rparr>"

definition config_timeout :: "ModuleConfig \<Rightarrow> duration" where
  "config_timeout config = mulDuration (mc_Timeout config) time_Millisecond"

definition config_waitTimeout :: "moduleHeap \<Rightarrow> ModuleConfig \<Rightarrow> duration option" where
  "config_waitTimeout h config =
     (case mc_WaitTimeout config of None \<Rightarrow> None
      | Some a \<Rightarrow> Some (mulDuration (heap_int h a) time_Millisecond))"

definition config_validate :: "moduleHeap \<Rightarrow> ModuleConfig \<Rightarrow> go_error option" where
  "config_validate h config =
     (let wait = map_option (heap_int h) (mc_WaitTimeout config) in
      if mc_Timeout config \<le> 0 then Some (PlainError ''timeout must be positive'')
      else if wait \<noteq> None \<and> the wait < 0 then Some (PlainError ''wait_timeout must not be negative'')
      else if mc_MaxConcurrentCalls config < 0 then Some (PlainError ''max_concurrent_calls must not be negative'')
      else if mc_Reporting config \<noteq> \<lparr>MaxConcurrentCalls = 0\<rparr> \<and> ReportConfig_Validate (mc_Reporting config) \<noteq> None
      then ReportConfig_Validate (mc_Reporting config)
      else if wait \<noteq> None \<and> the wait < mc_Timeout config then
        (if \<not> Enabled (mc_Cache config)
         then Some (PlainError ''cache must be enabled when wait_timeout is less than timeout'')
         else if mc_MaxConcurrentCalls config = 0
         then Some (PlainError ''max_concurrent_calls must be positive when wait_timeout is less than timeout'')
         else None)
      else None)"

text \<open>\<^verbatim>\<open>resolved := config\<close> copies the struct, pointers included.\<close>

definition config_resolve :: "moduleHeap \<Rightarrow> ModuleConfig \<Rightarrow> bytes \<Rightarrow> ModuleConfig \<times> moduleHeap" where
  "config_resolve h config accountConfig =
     (if length accountConfig = 0 then (config, h)
      else
        (case unmarshalConfig accountConfig (config, h) of
           (False, _, h) \<Rightarrow> (config, h)
         | (True, overlaid, h) \<Rightarrow>
             (let overlaid = overlaid\<lparr>mc_MaxConcurrentCalls := mc_MaxConcurrentCalls config,
                    mc_Reporting := mc_Reporting config\<rparr>
              in if config_validate h overlaid \<noteq> None then (config, h) else (overlaid, h))))"

section \<open>Laying an account's configuration over the module's\<close>

text \<open>
  An account can neither raise the module's capacities nor bring in settings that are not
  valid: what a hook works with is the module's own configuration or one that passes
  validation, and it has the module's limits in either case.
\<close>

lemma config_resolve_limits:
  assumes "config_resolve h config accountConfig = (c, h')"
  shows "mc_MaxConcurrentCalls c = mc_MaxConcurrentCalls config \<and> mc_Reporting c = mc_Reporting config \<and>
    (c = config \<or> config_validate h' c = None) \<and>
    (config_validate h' c = None \<longrightarrow> 0 < mc_Timeout c \<and> 0 \<le> mc_MaxConcurrentCalls c \<and>
      (\<forall>a. mc_WaitTimeout c = Some a \<and> heap_int h' a < mc_Timeout c \<longrightarrow>
         0 \<le> heap_int h' a \<and> Enabled (mc_Cache c) \<and> 0 < mc_MaxConcurrentCalls c))"
proof -
  have v: "0 < mc_Timeout c \<and> 0 \<le> mc_MaxConcurrentCalls c \<and>
      (\<forall>a. mc_WaitTimeout c = Some a \<and> heap_int h' a < mc_Timeout c \<longrightarrow>
         0 \<le> heap_int h' a \<and> Enabled (mc_Cache c) \<and> 0 < mc_MaxConcurrentCalls c)"
    if "config_validate h' c = None"
    using that by (auto simp: config_validate_def Let_def split: if_splits)
  show ?thesis
    using assms v
    by (auto simp: config_resolve_def Let_def split: if_splits prod.splits bool.splits)
qed

lemma unmarshal_wait_timeout:
  assumes "in_int64 n" "mc_WaitTimeout config = Some a"
  shows "unmarshalConfig (jsonText (JObj [(''wait_timeout'', JNum (Itoa n))])) (config, h) =
    (True, config, h\<lparr>heap_int := (heap_int h)(a := n)\<rparr>)"
proof -
  have "parseJSON (jsonText (JObj [(''wait_timeout'', JNum (Itoa n))])) = Some (JObj [(''wait_timeout'', JNum (Itoa n))])"
    by (rule parseJSON_jsonText) (simp add: maxNestingDepth_def scanNumber_Itoa isASCII_valid_utf8 isASCII_def)
  moreover have f: "isField name ''wait_timeout'' \<longleftrightarrow> map upperByte ''wait_timeout'' = map upperByte name"
    if "isASCII name" for name
    using that by (rule isField_ASCII) (simp add: isASCII_def)
  have "configField ''wait_timeout'' (JNum (Itoa n)) (config, h) = (True, config, h\<lparr>heap_int := (heap_int h)(a := n)\<rparr>)"
    using assms
    by (simp add: configField_def f isASCII_def upperByte_def intoPointer_def intoInt_def orKeep_def
        parseInt_Itoa in_int64_def)
  ultimately show ?thesis by (simp add: unmarshalConfig_def intoStruct_def)
qed

text \<open>
  C37. The overlay is not a copy where the configuration has pointers: when the module has a
  wait timeout, an account configuration that sets one overwrites the module's own, for every
  account and every later call, even when the account's setting is then rejected.
\<close>

theorem config_resolve_writes_through:
  assumes "in_int64 n" and "mc_WaitTimeout config = Some a"
    and "config_resolve h config (jsonText (JObj [(''wait_timeout'', JNum (Itoa n))])) = (c, h')"
  shows "config_waitTimeout h' config = Some (mulDuration n time_Millisecond) \<and> (n < 0 \<longrightarrow> c = config)"
proof -
  have "h' = h\<lparr>heap_int := (heap_int h)(a := n)\<rparr>"
    using assms(3) unmarshal_wait_timeout [OF assms(1,2), of h]
    by (auto simp: config_resolve_def Let_def split: if_splits)
  moreover have "c = config" if "n < 0"
    using assms that unmarshal_wait_timeout [OF assms(1,2), of h]
    by (auto simp: config_resolve_def config_validate_def Let_def split: if_splits)
  ultimately show ?thesis using assms(2) by (simp add: config_waitTimeout_def)
qed

definition sampleHeap :: moduleHeap where
  "sampleHeap =
     \<lparr>heap_int = (\<lambda>_. 200), heap_redis = (\<lambda>_. emptyRedis), heap_valkey = (\<lambda>_. emptyValkey),
      heap_aerospike = (\<lambda>_. emptyAerospike), heap_next = 1\<rparr>"

definition hybridConfig :: ModuleConfig where
  "hybridConfig = defaultConfig\<lparr>mc_WaitTimeout := Some 0, mc_MaxConcurrentCalls := 4,
     mc_Cache := (mc_Cache defaultConfig)\<lparr>Enabled := True\<rparr>\<rparr>"

lemma config_resolve_limits_sample:
  "\<exists>c h'. config_resolve sampleHeap hybridConfig (jsonText (JObj [(''wait_timeout'', JNum (Itoa 50))])) = (c, h') \<and>
     mc_MaxConcurrentCalls c = 4 \<and> (c = hybridConfig \<or> config_validate h' c = None)"
proof -
  obtain c h' where r: "config_resolve sampleHeap hybridConfig (jsonText (JObj [(''wait_timeout'', JNum (Itoa 50))])) = (c, h')"
    by force
  from config_resolve_limits [OF r] r show ?thesis by (auto simp: hybridConfig_def)
qed

theorem config_resolve_writes_through_witness:
  "\<exists>h'. config_resolve sampleHeap hybridConfig (jsonText (JObj [(''wait_timeout'', JNum (Itoa (- 1)))])) = (hybridConfig, h') \<and>
     config_waitTimeout sampleHeap hybridConfig = Some 200000000 \<and>
     config_waitTimeout h' hybridConfig = Some (- 1000000)"
proof -
  obtain c h' where r: "config_resolve sampleHeap hybridConfig (jsonText (JObj [(''wait_timeout'', JNum (Itoa (- 1)))])) = (c, h')"
    by force
  have "in_int64 (- 1)" "mc_WaitTimeout hybridConfig = Some 0" by (simp_all add: in_int64_def hybridConfig_def)
  from config_resolve_writes_through [OF this r] r show ?thesis
    by (auto simp: config_waitTimeout_def hybridConfig_def sampleHeap_def mulDuration_def time_Millisecond_def
        wrap64_small)
qed

end
