(* ===== verification/PrebidModule.thy ===== *)
theory PrebidModule
  imports PrebidConfig
begin

text \<open>
  \<^verbatim>\<open>example/prebid-module\<close>: the module that wires cache, enricher and reporter into Prebid Server
  (\<^verbatim>\<open>module.go\<close>) and its two hooks (\<^verbatim>\<open>processedauctionrequest.go\<close>, \<^verbatim>\<open>auctionresponse.go\<close>), which
  hand an auction's data on in \<^verbatim>\<open>auctioncontext.go\<close>.

  The enricher and the reporter are what the hooks call through their interfaces; the hook
  results of Prebid Server are reduced to the module context and the mutations in order.
\<close>

section \<open>The auction context\<close>

record auctionContext =
  ac_AuctionID :: string
  ac_Reference :: string
  ac_IP :: string
  ac_UserAgent :: string
  ac_ABTestUUID :: string
  ac_TerminationCause :: "int option"

definition emptyContext :: auctionContext where
  "emptyContext = \<lparr>ac_AuctionID = [], ac_Reference = [], ac_IP = [], ac_UserAgent = [],
     ac_ABTestUUID = [], ac_TerminationCause = None\<rparr>"

definition module_notBlank :: "string \<Rightarrow> bool" where
  "module_notBlank value \<longleftrightarrow> TrimSpace value \<noteq> []"

definition newAuctionContext :: "BidRequest option \<Rightarrow> auctionContext" where
  "newAuctionContext auction =
     (case auction of None \<Rightarrow> emptyContext
      | Some request \<Rightarrow>
          (let result = emptyContext\<lparr>ac_AuctionID := BidRequest_ID request\<rparr>;
               result =
                 (case BidRequest_Site request of
                    Some site \<Rightarrow> result\<lparr>ac_Reference := if module_notBlank (Domain site) then Domain site else Page site\<rparr>
                  | None \<Rightarrow>
                      (case BidRequest_App request of
                         Some app \<Rightarrow> result\<lparr>ac_Reference := if module_notBlank (Bundle app) then Bundle app else App_Name app\<rparr>
                       | None \<Rightarrow> result))
           in case BidRequest_Device request of
                Some device \<Rightarrow>
                  result\<lparr>ac_IP := if IP device = [] then IPv6 device else IP device, ac_UserAgent := UA device\<rparr>
              | None \<Rightarrow> result))"

text \<open>A module context maps keys to values of any type.\<close>

datatype contextValue = AuctionValue auctionContext | OtherValue

type_synonym moduleContext = "string \<rightharpoonup> contextValue"

definition auctionContextKey :: string where
  "auctionContextKey = ''intentiq.identity.auction''"

definition storeAuctionContext :: "auctionContext \<Rightarrow> moduleContext option" where
  "storeAuctionContext value = Some [auctionContextKey \<mapsto> AuctionValue value]"

definition loadAuctionContext :: "moduleContext option \<Rightarrow> auctionContext \<times> bool" where
  "loadAuctionContext context =
     (case context of None \<Rightarrow> (emptyContext, False)
      | Some m \<Rightarrow>
          (case m auctionContextKey of
             Some (AuctionValue value) \<Rightarrow> (value, True)
           | _ \<Rightarrow> (emptyContext, False)))"

section \<open>The hook on the processed request\<close>

text \<open>The payload: a request wrapper, and the bid request in it, either of which may be nil.\<close>

type_synonym requestPayload = "BidRequest option option"

record hookResult =
  hr_ModuleContext :: "moduleContext option"
  hr_Mutations :: "EID list list"

definition emptyUser :: User where
  "emptyUser = \<lparr>User_EIDs = [], Consent = [], User_Ext = []\<rparr>"

definition appendEIDs :: "EID list \<Rightarrow> requestPayload \<Rightarrow> requestPayload" where
  "appendEIDs eids value =
     (case value of None \<Rightarrow> value
      | Some None \<Rightarrow> value
      | Some (Some request) \<Rightarrow>
          (let user = (case BidRequest_User request of None \<Rightarrow> emptyUser | Some us \<Rightarrow> us)
           in Some (Some (request\<lparr>BidRequest_User := Some (user\<lparr>User_EIDs := User_EIDs user @ eids\<rparr>)\<rparr>))))"

definition hookRequest :: "moduleHeap \<Rightarrow> ModuleConfig \<Rightarrow> BidRequest option \<Rightarrow> Request" where
  "hookRequest h config auction =
     \<lparr>PartnerID = mc_PartnerID config, Endpoint = mc_APIEndpoint config, Auction = auction,
      Timeout = config_timeout config, WaitTimeout = config_waitTimeout h config,
      CacheEnabled = Enabled (mc_Cache config)\<rparr>"

definition HandleProcessedAuctionHook ::
  "moduleHeap \<Rightarrow> ModuleConfig \<Rightarrow> (ctx \<Rightarrow> Request \<Rightarrow> 'e \<Rightarrow> (go_error + Result) \<times> 'e) \<Rightarrow> ctx \<Rightarrow> bytes \<Rightarrow>
     requestPayload \<Rightarrow> 'e \<Rightarrow> hookResult \<times> moduleHeap \<times> 'e" where
  "HandleProcessedAuctionHook h moduleConfig enrich c accountConfig payload e =
     (let (config, h) = config_resolve h moduleConfig accountConfig;
          auction = (case payload of None \<Rightarrow> None | Some request \<Rightarrow> request);
          contextValue = newAuctionContext auction;
          (r, e) = enrich c (hookRequest h config auction) e
      in case r of
           Inl err \<Rightarrow> (\<lparr>hr_ModuleContext = storeAuctionContext contextValue, hr_Mutations = []\<rparr>, h, e)
         | Inr result \<Rightarrow>
             (let contextValue = contextValue\<lparr>ac_ABTestUUID := Result_ABTestUUID result,
                    ac_TerminationCause := Result_TerminationCause result\<rparr>
              in if length (Result_EIDs result) = 0
                 then (\<lparr>hr_ModuleContext = storeAuctionContext contextValue, hr_Mutations = []\<rparr>, h, e)
                 else (\<lparr>hr_ModuleContext = storeAuctionContext contextValue,
                        hr_Mutations = [Result_EIDs result]\<rparr>, h, e)))"

section \<open>The hook on the response\<close>

record SeatBid =
  Seat :: string
  SeatBid_Bid :: "Bid list"

record BidResponse =
  BidResponse_SeatBid :: "SeatBid list"
  BidResponse_Cur :: string

definition bidReport :: "ModuleConfig \<Rightarrow> auctionContext \<Rightarrow> BidResponse \<Rightarrow> SeatBid \<Rightarrow> Bid \<Rightarrow> ReportRequest" where
  "bidReport config auction response seatBid bid =
     \<lparr>Report_PartnerID = mc_PartnerID config, Report_Endpoint = mc_ReportsEndpoint config,
      Report_Timeout = config_timeout config, Report_Bid = bid, Report_BidderCode = Seat seatBid,
      Report_Currency = BidResponse_Cur response, Report_AuctionID = ac_AuctionID auction,
      Report_Reference = ac_Reference auction, Report_IP = ac_IP auction,
      Report_UserAgent = ac_UserAgent auction, Report_ABTestUUID = ac_ABTestUUID auction,
      Report_TerminationCause = ac_TerminationCause auction\<rparr>"

text \<open>The two nested loops; \<open>tryReport\<close> is the reporter, whose result the hook ignores.\<close>

fun reportBids ::
  "(ReportRequest \<Rightarrow> 'r \<Rightarrow> 'r) \<Rightarrow> (Bid \<Rightarrow> ReportRequest) \<Rightarrow> Bid list \<Rightarrow> 'r \<Rightarrow> 'r" where
  "reportBids tryReport request [] r = r"
| "reportBids tryReport request (bid # bids) r = reportBids tryReport request bids (tryReport (request bid) r)"

fun reportSeats ::
  "(ReportRequest \<Rightarrow> 'r \<Rightarrow> 'r) \<Rightarrow> (SeatBid \<Rightarrow> Bid \<Rightarrow> ReportRequest) \<Rightarrow> SeatBid list \<Rightarrow> 'r \<Rightarrow> 'r" where
  "reportSeats tryReport request [] r = r"
| "reportSeats tryReport request (seatBid # seatBids) r =
     reportSeats tryReport request seatBids (reportBids tryReport (request seatBid) (SeatBid_Bid seatBid) r)"

definition HandleAuctionResponseHook ::
  "moduleHeap \<Rightarrow> ModuleConfig \<Rightarrow> (ReportRequest \<Rightarrow> 'r \<Rightarrow> 'r) \<Rightarrow> bytes \<Rightarrow> moduleContext option \<Rightarrow>
     BidResponse option \<Rightarrow> 'r \<Rightarrow> moduleHeap \<times> 'r" where
  "HandleAuctionResponseHook h moduleConfig tryReport accountConfig context payload r =
     (let (config, h) = config_resolve h moduleConfig accountConfig in
      case payload of None \<Rightarrow> (h, r)
      | Some response \<Rightarrow>
          if mc_ReportsEndpoint config = [] then (h, r)
          else
            (let (auction, _) = loadAuctionContext context
             in (h, reportSeats tryReport (bidReport config auction response) (BidResponse_SeatBid response) r)))"

section \<open>From request to reports\<close>

lemma reportBids_map: "reportBids (\<lambda>q r. r @ [q]) request bids r = r @ map request bids"
  by (induction bids arbitrary: r) simp_all

lemma reportSeats_map:
  "reportSeats (\<lambda>q r. r @ [q]) request seats r =
    r @ concat (map (\<lambda>s. map (request s) (SeatBid_Bid s)) seats)"
  by (induction seats arbitrary: r) (simp_all add: reportBids_map)

lemma load_store [simp]: "loadAuctionContext (storeAuctionContext v) = (v, True)"
  by (simp add: loadAuctionContext_def storeAuctionContext_def)

text \<open>The auction with ids appended to those of its user; unchanged without ids.\<close>

definition withEIDs :: "EID list \<Rightarrow> BidRequest \<Rightarrow> BidRequest" where
  "withEIDs eids request =
     (if eids = [] then request
      else
        (let user = (case BidRequest_User request of None \<Rightarrow> emptyUser | Some us \<Rightarrow> us)
         in request\<lparr>BidRequest_User := Some (user\<lparr>User_EIDs := User_EIDs user @ eids\<rparr>)\<rparr>))"

text \<open>
  C36. The hooks fail open and carry the enrichment through to the reports. After the request
  hook the auction is the given one with exactly the resolved ids appended (and unchanged when
  the enrichment failed or found none); and the response hook, given the module context that
  the request hook left, reports each bid of each seat once, in order, under the auction's id
  and with the A/B test id and termination cause of the enrichment.
\<close>

theorem hooks_carry_enrichment:
  assumes request: "HandleProcessedAuctionHook h config enrich c account (Some (Some auction)) e = (res, h1, e1)"
    and call: "fst (enrich c (hookRequest h1 (fst (config_resolve h config account)) (Some auction)) e) = r"
    and response: "HandleAuctionResponseHook h1 config (\<lambda>q sent. sent @ [q]) account' (hr_ModuleContext res)
      (Some resp) [] = (h2, reports)"
    and endpoint: "mc_ReportsEndpoint (fst (config_resolve h1 config account')) \<noteq> []"
  shows "foldl (\<lambda>p eids. appendEIDs eids p) (Some (Some auction)) (hr_Mutations res) =
      Some (Some (withEIDs (case r of Inl _ \<Rightarrow> [] | Inr x \<Rightarrow> Result_EIDs x) auction)) \<and>
    map (\<lambda>q. (Report_BidderCode q, Report_Bid q)) reports =
      concat (map (\<lambda>s. map (Pair (Seat s)) (SeatBid_Bid s)) (BidResponse_SeatBid resp)) \<and>
    list_all (\<lambda>q. Report_AuctionID q = BidRequest_ID auction \<and>
      Report_ABTestUUID q = (case r of Inl _ \<Rightarrow> [] | Inr x \<Rightarrow> Result_ABTestUUID x) \<and>
      Report_TerminationCause q = (case r of Inl _ \<Rightarrow> None | Inr x \<Rightarrow> Result_TerminationCause x)) reports"
proof -
  obtain conf h0 where c: "config_resolve h config account = (conf, h0)" by force
  obtain r0 e0 where en: "enrich c (hookRequest h0 conf (Some auction)) e = (r0, e0)" by force
  have h1: "h1 = h0" and r: "r0 = r"
    using request call c en by (auto simp: HandleProcessedAuctionHook_def Let_def split: sum.splits if_splits)
  let ?ctx = "(newAuctionContext (Some auction))
      \<lparr>ac_ABTestUUID := (case r of Inl _ \<Rightarrow> [] | Inr x \<Rightarrow> Result_ABTestUUID x),
       ac_TerminationCause := (case r of Inl _ \<Rightarrow> None | Inr x \<Rightarrow> Result_TerminationCause x)\<rparr>"
  have n: "ac_AuctionID (newAuctionContext (Some auction)) = BidRequest_ID auction"
    "ac_ABTestUUID (newAuctionContext (Some auction)) = []"
    "ac_TerminationCause (newAuctionContext (Some auction)) = None"
    by (simp_all add: newAuctionContext_def Let_def emptyContext_def split: option.splits)
  have ctx: "loadAuctionContext (hr_ModuleContext res) = (?ctx, True)"
    using request c en n unfolding r
    by (auto simp: HandleProcessedAuctionHook_def Let_def split: sum.splits if_splits)
  have mut: "foldl (\<lambda>p eids. appendEIDs eids p) (Some (Some auction)) (hr_Mutations res) =
      Some (Some (withEIDs (case r of Inl _ \<Rightarrow> [] | Inr x \<Rightarrow> Result_EIDs x) auction))"
    using request c en unfolding r
    by (auto simp: HandleProcessedAuctionHook_def Let_def withEIDs_def appendEIDs_def split: sum.splits if_splits)
  obtain conf2 h3 where c2: "config_resolve h1 config account' = (conf2, h3)" by force
  have reports: "reports = concat (map (\<lambda>s. map (bidReport conf2 ?ctx resp s) (SeatBid_Bid s)) (BidResponse_SeatBid resp))"
    using response c2 endpoint ctx by (auto simp: HandleAuctionResponseHook_def reportSeats_map)
  have "map (\<lambda>q. (Report_BidderCode q, Report_Bid q)) reports =
      concat (map (\<lambda>s. map (Pair (Seat s)) (SeatBid_Bid s)) (BidResponse_SeatBid resp))"
    unfolding reports map_concat by (simp add: comp_def bidReport_def)
  moreover have "list_all (\<lambda>q. Report_AuctionID q = BidRequest_ID auction \<and>
      Report_ABTestUUID q = (case r of Inl _ \<Rightarrow> [] | Inr x \<Rightarrow> Result_ABTestUUID x) \<and>
      Report_TerminationCause q = (case r of Inl _ \<Rightarrow> None | Inr x \<Rightarrow> Result_TerminationCause x)) reports"
    unfolding reports list_all_iff by (auto simp: bidReport_def n)
  ultimately show ?thesis using mut by blast
qed

definition failing :: "ctx \<Rightarrow> Request \<Rightarrow> unit \<Rightarrow> (go_error + Result) \<times> unit" where
  "failing c q s = (Inl DeadlineExceeded, s)"

definition sampleAuctionRequest :: BidRequest where
  "sampleAuctionRequest =
     \<lparr>BidRequest_ID = ''a1'', BidRequest_Site = None, BidRequest_App = None, BidRequest_User = None,
      BidRequest_Device = None, BidRequest_Regs = None\<rparr>"

definition twoBids :: BidResponse where
  "twoBids =
     \<lparr>BidResponse_SeatBid = [\<lparr>Seat = ''s'', SeatBid_Bid =
        [\<lparr>Bid_Price = Finite 1, Bid_ImpID = ''i'', Bid_Ext = []\<rparr>,
         \<lparr>Bid_Price = Finite 2, Bid_ImpID = ''j'', Bid_Ext = []\<rparr>]\<rparr>],
      BidResponse_Cur = ''USD''\<rparr>"

theorem hooks_carry_enrichment_witness:
  "\<exists>res h1 e1 h2 reports.
     HandleProcessedAuctionHook sampleHeap (hybridConfig\<lparr>mc_ReportsEndpoint := ''r''\<rparr>) failing Background []
       (Some (Some sampleAuctionRequest)) () = (res, h1, e1) \<and>
     HandleAuctionResponseHook h1 (hybridConfig\<lparr>mc_ReportsEndpoint := ''r''\<rparr>) (\<lambda>q sent. sent @ [q]) []
       (hr_ModuleContext res) (Some twoBids) [] = (h2, reports) \<and>
     length reports = 2 \<and> foldl (\<lambda>p eids. appendEIDs eids p) (Some (Some sampleAuctionRequest)) (hr_Mutations res) =
       Some (Some sampleAuctionRequest)"
proof -
  let ?c = "hybridConfig\<lparr>mc_ReportsEndpoint := ''r''\<rparr>"
  obtain res h1 e1 where p: "HandleProcessedAuctionHook sampleHeap ?c failing Background [] (Some (Some sampleAuctionRequest)) () = (res, h1, e1)"
    by (metis prod_cases3)
  obtain h2 reports where q: "HandleAuctionResponseHook h1 ?c (\<lambda>q sent. sent @ [q]) [] (hr_ModuleContext res) (Some twoBids) [] = (h2, reports)"
    by force
  have "mc_ReportsEndpoint (fst (config_resolve h1 ?c [])) \<noteq> []" by (simp add: config_resolve_def)
  from hooks_carry_enrichment [OF p refl q this]
  have "map (\<lambda>q. (Report_BidderCode q, Report_Bid q)) reports =
      concat (map (\<lambda>s. map (Pair (Seat s)) (SeatBid_Bid s)) (BidResponse_SeatBid twoBids))"
    "foldl (\<lambda>p eids. appendEIDs eids p) (Some (Some sampleAuctionRequest)) (hr_Mutations res) =
      Some (Some sampleAuctionRequest)"
    by (simp_all add: failing_def withEIDs_def)
  moreover from this(1) have "length reports = 2" by (simp add: twoBids_def map_eq_conv flip: length_map [of "\<lambda>q. (Report_BidderCode q, Report_Bid q)" reports])
  ultimately show ?thesis using p q by blast
qed

section \<open>Building and shutting down the module\<close>

text \<open>
  What the construction does to the outside: the metrics listener and the store are opened,
  and closed again when a later step fails.
\<close>

datatype build_action = ServerStarted int | ServerClosed | StoreOpened string | StoreClosed

text \<open>
  The libraries and the machine: the validation library and how its errors read, quoting, the
  registration of the collectors in a new registry, the listener, the clients of the stores
  (each fails or gives a store), FreeCache and the rest of what cache and enricher are
  made from.
\<close>

record ('f, 's) builderEnv =
  env_ozzo :: ozzo
  env_invalid :: "string list \<Rightarrow> go_error"
  env_quote :: "string \<Rightarrow> string"
  env_metrics :: "go_error option"
  env_listen :: "int \<Rightarrow> go_error option"
  env_redis :: "RedisConfig \<Rightarrow> go_error + 's store"
  env_valkey :: "ValkeyConfig \<Rightarrow> go_error + 's store"
  env_aerospike :: "AerospikeConfig \<Rightarrow> go_error + 's store"
  env_freecache :: "'f freecache"
  env_NewCache :: "int \<Rightarrow> 'f"
  env_codec :: eid_codec
  env_unicode :: unicode
  env_order :: "string list \<Rightarrow> string list"

definition openStore :: "string \<Rightarrow> go_error + 's store \<Rightarrow> (go_error + 's store option) \<times> build_action list" where
  "openStore provider r =
     (case r of Inl err \<Rightarrow> (Inl err, []) | Inr s \<Rightarrow> (Inr (Some s), [StoreOpened provider]))"

definition newStore ::
  "('f, 's) builderEnv \<Rightarrow> moduleHeap \<Rightarrow> ModuleConfig \<Rightarrow> (go_error + 's store option) \<times> build_action list" where
  "newStore env h config =
     (if \<not> Enabled (mc_Cache config) then (Inr None, [])
      else if Provider (mc_Cache config) = ''aerospike'' then
        (case mc_Aerospike config of
           None \<Rightarrow> (Inl (PlainError ''aerospike configuration is required''), [])
         | Some a \<Rightarrow>
             (let errs = aerospike_Validate (env_ozzo env) (heap_aerospike h a) in
              if errs \<noteq> [] then (Inl (env_invalid env errs), [])
              else openStore ''aerospike'' (env_aerospike env (heap_aerospike h a))))
      else if Provider (mc_Cache config) = ''redis'' then
        (case mc_Redis config of
           None \<Rightarrow> (Inl (PlainError ''redis configuration is required''), [])
         | Some a \<Rightarrow>
             (let errs = redis_Validate (env_ozzo env) (heap_redis h a) in
              if errs \<noteq> [] then (Inl (env_invalid env errs), [])
              else openStore ''redis'' (env_redis env (heap_redis h a))))
      else if Provider (mc_Cache config) = ''valkey'' then
        (case mc_Valkey config of
           None \<Rightarrow> (Inl (PlainError ''valkey configuration is required''), [])
         | Some a \<Rightarrow>
             (let errs = valkey_Validate (env_ozzo env) (heap_valkey h a) in
              if errs \<noteq> [] then (Inl (env_invalid env errs), [])
              else openStore ''valkey'' (env_valkey env (heap_valkey h a))))
      else (Inl (PlainError (''unknown cache provider '' @ env_quote env (Provider (mc_Cache config)))), []))"

definition serveMetrics :: "('f, 's) builderEnv \<Rightarrow> bool \<Rightarrow> int \<Rightarrow> (go_error + bool) \<times> build_action list" where
  "serveMetrics env enabled port =
     (if \<not> enabled \<or> port \<le> 0 then (Inr False, [])
      else case env_listen env port of
        Some err \<Rightarrow> (Inl err, [])
      | None \<Rightarrow> (Inr True, [ServerStarted port]))"

definition closeMetricsServer :: "bool \<Rightarrow> build_action list" where
  "closeMetricsServer server = (if server then [ServerClosed] else [])"

definition closeStore :: "'s option \<Rightarrow> build_action list" where
  "closeStore store = (case store of None \<Rightarrow> [] | Some _ \<Rightarrow> [StoreClosed])"

record ('f, 's) Module =
  mod_config :: ModuleConfig
  mod_enricher :: "('f, 's) cacheState enricher"
  mod_limiter :: s2sLimiter
  mod_reporter :: reporter
  mod_store :: "'s store option"
  mod_registry :: bool
  mod_metricsServer :: bool

definition Builder ::
  "('f, 's) builderEnv \<Rightarrow> moduleHeap \<Rightarrow> bytes \<Rightarrow>
     (go_error + ('f, 's) Module) \<times> moduleHeap \<times> build_action list" where
  "Builder env h rawConfig =
     (let (ok, config, h) = (if length rawConfig > 0 then unmarshalConfig rawConfig (defaultConfig, h)
                             else (True, defaultConfig, h))
      in if \<not> ok then (Inl (PlainError ''intentiq identity: parse config''), h, [])
      else case config_validate h config of
        Some err \<Rightarrow> (Inl (WrappedError ''intentiq identity: invalid config: '' err), h, [])
      | None \<Rightarrow>
      if mc_MetricsEnabled config \<and> env_metrics env \<noteq> None
      then (Inl (WrappedError ''intentiq identity: create metrics: '' (the (env_metrics env))), h, [])
      else case serveMetrics env (mc_MetricsEnabled config) (mc_MetricsPort config) of
        (Inl err, acts) \<Rightarrow> (Inl (WrappedError ''intentiq identity: serve metrics: '' err), h, acts)
      | (Inr server, acts1) \<Rightarrow>
      (case newStore env h config of
        (Inl err, acts2) \<Rightarrow>
          (Inl (WrappedError ''intentiq identity: create cache store: '' err), h,
           acts1 @ acts2 @ closeMetricsServer server)
      | (Inr store, acts2) \<Rightarrow>
      (case cache_New (env_freecache env) (env_NewCache env) store (env_codec env) (mc_Cache config) of
        Inl err \<Rightarrow>
          (Inl (WrappedError ''intentiq identity: create cache: '' err), h,
           acts1 @ acts2 @ closeStore store @ closeMetricsServer server)
      | Inr cache \<Rightarrow>
      (case enricher_New True (map_option (\<lambda>(ic, _). identityCacheOps ic) cache) (mc_MaxConcurrentCalls config)
              (MaxKeys (mc_Cache config)) (env_unicode env) (env_order env) (env_codec env) of
        Inl err \<Rightarrow>
          (Inl (WrappedError ''intentiq identity: create enricher: '' err), h,
           acts1 @ acts2 @ closeStore store @ closeMetricsServer server)
      | Inr (enricher, limiter, _) \<Rightarrow>
      (case reporter_New True (mc_Reporting config) of
        Inl err \<Rightarrow>
          (Inl (WrappedError ''intentiq identity: create reporter: '' err), h,
           acts1 @ acts2 @ closeStore store @ closeMetricsServer server)
      | Inr reporter \<Rightarrow>
          (Inr \<lparr>mod_config = config, mod_enricher = enricher, mod_limiter = limiter, mod_reporter = reporter,
                mod_store = store, mod_registry = mc_MetricsEnabled config, mod_metricsServer = server\<rparr>, h,
           acts1 @ acts2))))))"

definition MetricsGatherer :: "('f, 's) Module \<Rightarrow> bool" where
  "MetricsGatherer m = mod_registry m"

text \<open>
  Shutting down, given how the shutdowns of the reporter and of the enricher end and what
  closing the store returns; both get the same time.
\<close>

datatype shutdown_action = ReporterShutdown ctx | EnricherShutdown ctx | BuildAction build_action

definition shutdownTimeout :: "ModuleConfig \<Rightarrow> duration" where
  "shutdownTimeout config = wrap64 (wrap64 (2 * config_timeout config) + time_Second)"

definition module_Shutdown ::
  "('f, 's) Module \<Rightarrow> int \<Rightarrow> go_error option \<Rightarrow> int \<Rightarrow> go_error option \<Rightarrow> go_error option \<Rightarrow>
     go_error option \<times> shutdown_action list" where
  "module_Shutdown m now reporterErr later enricherErr closeErr =
     (let first = [ReporterShutdown (WithTimeout now Background (shutdownTimeout (mod_config m)))] in
      case reporterErr of
        Some err \<Rightarrow> (Some (WrappedError ''shutdown identity reporter: '' err), first)
      | None \<Rightarrow>
          (let second = first @ [EnricherShutdown (WithTimeout later Background (shutdownTimeout (mod_config m)))] in
           case enricherErr of
             Some err \<Rightarrow> (Some (WrappedError ''shutdown identity enricher: '' err), second)
           | None \<Rightarrow>
               (let third = second @ map BuildAction (closeMetricsServer (mod_metricsServer m)) in
                case mod_store m of
                  None \<Rightarrow> (None, third)
                | Some _ \<Rightarrow> (closeErr, third @ [BuildAction StoreClosed]))))"

text \<open>What is open after a sequence of actions: the metrics listener, and the store.\<close>

fun holding :: "build_action \<Rightarrow> bool \<times> bool \<Rightarrow> bool \<times> bool" where
  "holding (ServerStarted _) (_, store) = (True, store)"
| "holding ServerClosed (_, store) = (False, store)"
| "holding (StoreOpened _) (server, _) = (server, True)"
| "holding StoreClosed (server, _) = (server, False)"

definition held :: "build_action list \<Rightarrow> bool \<times> bool" where
  "held acts = fold holding acts (False, False)"

definition releases :: "shutdown_action list \<Rightarrow> build_action list" where
  "releases acts = List.map_filter (\<lambda>a. case a of BuildAction b \<Rightarrow> Some b | _ \<Rightarrow> None) acts"

lemma newStore_opens:
  assumes "newStore env h config = (r, acts)"
  shows "case r of
      Inl _ \<Rightarrow> acts = []
    | Inr s \<Rightarrow> (s \<noteq> None \<longleftrightarrow> Enabled (mc_Cache config)) \<and> fold holding acts (v, False) = (v, s \<noteq> None)"
  using assms
  by (auto simp: newStore_def openStore_def Let_def split: if_splits option.splits sum.splits)

lemma serveMetrics_starts:
  assumes "serveMetrics env enabled port = (r, acts)"
  shows "case r of Inl _ \<Rightarrow> acts = [] | Inr server \<Rightarrow> fold holding acts (False, st) = (server, st)"
  using assms by (auto simp: serveMetrics_def split: if_splits option.splits)

lemma close_releases:
  "fold holding (closeStore store) (v, store \<noteq> None) = (v, False)"
  "fold holding (closeMetricsServer server) (server, st) = (False, st)"
  by (simp_all add: closeStore_def closeMetricsServer_def split: option.split)

lemma shutdown_releases:
  "fold holding (releases (snd (module_Shutdown m now reporterErr later enricherErr closeErr)))
     (mod_metricsServer m, mod_store m \<noteq> None) =
   (if reporterErr = None \<and> enricherErr = None then (False, False) else (mod_metricsServer m, mod_store m \<noteq> None))"
  by (simp add: module_Shutdown_def releases_def closeMetricsServer_def List.map_filter_def Let_def split: option.split)

lemma reporter_New_positive: "reporter_New True config = Inr r \<Longrightarrow> 0 < rl_cap (rs_limiter r)"
  by (auto simp: reporter_New_def ReportConfig_Validate_def newReportLimiter_def split: if_splits option.splits)

text \<open>The construction after the configuration was accepted: each step with what earlier ones opened.\<close>

lemma held_started:
  "serveMetrics env enabled port = (Inr server, opened) \<Longrightarrow> held opened = (server, False)"
  by (drule serveMetrics_starts [where st = False]) (simp add: held_def)

lemma held_failed:
  assumes "serveMetrics env enabled port = (Inr server, opened)" "newStore env h config = (Inl err, opened')"
  shows "held (opened @ opened' @ closeMetricsServer server) = (False, False)"
  using held_started [OF assms(1)] newStore_opens [OF assms(2), of server]
  by (simp add: held_def close_releases)

lemma held_opened:
  assumes "serveMetrics env enabled port = (Inr server, opened)" "newStore env h config = (Inr store, opened')"
  shows "held (opened @ opened') = (server, store \<noteq> None)"
    and "(store \<noteq> None) = Enabled (mc_Cache config)"
    and "held (opened @ opened' @ closeStore store @ closeMetricsServer server) = (False, False)"
proof -
  from newStore_opens [OF assms(2), of server]
  have n: "(store \<noteq> None) = Enabled (mc_Cache config)" "fold holding opened' (server, False) = (server, store \<noteq> None)"
    by simp_all
  from held_started [OF assms(1)] n(2) show o: "held (opened @ opened') = (server, store \<noteq> None)" by (simp only: held_def fold_append o_apply)
  from n show "(store \<noteq> None) = Enabled (mc_Cache config)" by (simp only:)
  from held_started [OF assms(1)] n(2)
  show "held (opened @ opened' @ closeStore store @ closeMetricsServer server) = (False, False)"
    by (simp only: held_def fold_append o_apply close_releases)
qed

lemma Builder_error: "Builder env h rawConfig = (Inl err, h', acts) \<Longrightarrow> held acts = (False, False)"
  unfolding Builder_def Let_def
  by (auto simp: held_failed held_opened(3) held_def [of "[]"] dest: serveMetrics_starts split: if_splits prod.splits option.splits sum.splits)

lemma Builder_success:
  assumes "Builder env h rawConfig = (Inr m, h', acts)"
  shows "held acts = (mod_metricsServer m, mod_store m \<noteq> None) \<and>
    config_validate h' (mod_config m) = None \<and>
    (mod_store m \<noteq> None \<longleftrightarrow> Enabled (mc_Cache (mod_config m))) \<and>
    0 < rl_cap (rs_limiter (mod_reporter m))"
  using assms unfolding Builder_def Let_def
  by (auto dest: held_opened(1,2) reporter_New_positive split: if_splits prod.splits option.splits sum.splits)

text \<open>
  C35. The module owns what it opened. When the construction fails at any step, the metrics
  listener and the store that earlier steps opened have been closed again. When it succeeds
  the module holds exactly the listener and the store it names, its configuration is valid, it
  has a store just when the cache is enabled and its reporter admits at least one report; and
  a shutdown closes both once reporter and enricher have drained, and neither when one of them
  has not.
\<close>

theorem module_owns_resources:
  assumes "Builder env h rawConfig = (r, h', acts)"
  shows "case r of
      Inl _ \<Rightarrow> held acts = (False, False)
    | Inr m \<Rightarrow>
        held acts = (mod_metricsServer m, mod_store m \<noteq> None) \<and>
        config_validate h' (mod_config m) = None \<and>
        (mod_store m \<noteq> None \<longleftrightarrow> Enabled (mc_Cache (mod_config m))) \<and>
        0 < rl_cap (rs_limiter (mod_reporter m)) \<and>
        held (acts @ releases (snd (module_Shutdown m now reporterErr later enricherErr closeErr))) =
          (if reporterErr = None \<and> enricherErr = None then (False, False) else held acts)"
proof (cases r)
  case (Inl err)
  then show ?thesis using assms Builder_error by auto
next
  case (Inr m)
  then have b: "held acts = (mod_metricsServer m, mod_store m \<noteq> None) \<and>
      config_validate h' (mod_config m) = None \<and>
      (mod_store m \<noteq> None \<longleftrightarrow> Enabled (mc_Cache (mod_config m))) \<and>
      0 < rl_cap (rs_limiter (mod_reporter m))"
    using assms Builder_success by blast
  then have "held (acts @ releases (snd (module_Shutdown m now reporterErr later enricherErr closeErr))) =
      (if reporterErr = None \<and> enricherErr = None then (False, False) else held acts)"
    using shutdown_releases [of m now reporterErr later enricherErr closeErr] by (simp add: held_def)
  with b Inr show ?thesis by simp
qed

text \<open>A module with a metrics port and a Redis cache, for the statement above.\<close>

definition moduleEnv :: "(bytes \<Rightarrow> bytes option, string \<Rightarrow> bytes option) builderEnv" where
  "moduleEnv =
     \<lparr>env_ozzo = \<lparr>ValidateStruct = (\<lambda>flds. map fst (filter (\<lambda>f. \<not> fieldPasses (\<lambda>h. h = ''cache'') f) flds))\<rparr>,
      env_invalid = (\<lambda>flds. PlainError (Join flds '', '')), env_quote = jsonQuote, env_metrics = None,
      env_listen = (\<lambda>_. None), env_redis = (\<lambda>_. Inr mapL2), env_valkey = (\<lambda>_. Inr mapL2),
      env_aerospike = (\<lambda>_. Inr mapL2), env_freecache = mapL1, env_NewCache = (\<lambda>_. Map.empty),
      env_codec = referenceCodec, env_unicode = \<lparr>runeToUpper = (\<lambda>r. r), runeToLower = (\<lambda>r. r)\<rparr>,
      env_order = (\<lambda>ks. ks)\<rparr>"

definition moduleMembers :: "(string \<times> json) list" where
  "moduleMembers =
     [(''metrics_port'', JNum (Itoa 9000)),
      (''cache'', JObj [(''enabled'', JBool True), (''provider'', JStr ''redis'')]),
      (''redis'', JObj [(''host'', JStr ''cache''), (''port'', JNum (Itoa 6379))])]"

definition redisModule :: ModuleConfig where
  "redisModule = defaultConfig\<lparr>mc_MetricsPort := 9000,
     mc_Cache := (mc_Cache defaultConfig)\<lparr>Enabled := True, Provider := ''redis''\<rparr>, mc_Redis := Some 1\<rparr>"

definition redisHeap :: moduleHeap where
  "redisHeap = sampleHeap\<lparr>heap_redis := (heap_redis sampleHeap)(1 := emptyRedis\<lparr>Redis_Host := ''cache'', Redis_Port := 6379\<rparr>),
     heap_next := 2\<rparr>"

lemma unmarshal_redisModule:
  "unmarshalConfig (jsonText (JObj moduleMembers)) (defaultConfig, sampleHeap) = (True, redisModule, redisHeap)"
proof -
  have "parseJSON (jsonText (JObj moduleMembers)) = Some (JObj moduleMembers)"
    by (rule parseJSON_jsonText)
      (simp add: moduleMembers_def maxNestingDepth_def scanNumber_Itoa isASCII_valid_utf8 isASCII_def)
  moreover have "eachMember configField moduleMembers (defaultConfig, sampleHeap) = (True, redisModule, redisHeap)"
    by (simp add: moduleMembers_def configField_def cacheField_def redisField_def isField_ASCII isASCII_def upperByte_def
        orKeep_def intoPointer_def intoStruct_def parseInt_Itoa in_int64_def redisModule_def redisHeap_def
        defaultConfig_def sampleHeap_def)
  ultimately show ?thesis by (simp add: unmarshalConfig_def intoStruct_def)
qed

lemma redisModule_valid: "config_validate redisHeap redisModule = None"
  by (simp add: config_validate_def redisModule_def defaultConfig_def ReportConfig_Validate_def)

lemma redisModule_store: "newStore moduleEnv redisHeap redisModule = (Inr (Some mapL2), [StoreOpened ''redis''])"
  by (simp add: newStore_def redisModule_def redisHeap_def sampleHeap_def defaultConfig_def emptyRedis_def
      moduleEnv_def openStore_def redis_Validate_def maxPort_def)

theorem module_owns_resources_witness:
  "\<exists>m h' acts. Builder moduleEnv sampleHeap (jsonText (JObj moduleMembers)) = (Inr m, h', acts) \<and>
     held acts = (True, True) \<and>
     held (acts @ releases (snd (module_Shutdown m 0 None 0 None None))) = (False, False)"
proof -
  let ?raw = "jsonText (JObj moduleMembers)"
  have "mc_MetricsEnabled redisModule" "mc_MetricsPort redisModule = 9000" "Enabled (mc_Cache redisModule)"
    "mc_MaxConcurrentCalls redisModule = 0" "mc_Reporting redisModule = \<lparr>MaxConcurrentCalls = 16\<rparr>"
    by (simp_all add: redisModule_def defaultConfig_def)
  moreover have "?raw \<noteq> []" "env_metrics moduleEnv = None" "env_listen moduleEnv = (\<lambda>_. None)" by (simp_all add: moduleEnv_def)
  ultimately have "\<exists>m h' acts. Builder moduleEnv sampleHeap ?raw = (Inr m, h', acts) \<and> mod_config m = redisModule \<and> mod_metricsServer m"
    using unmarshal_redisModule redisModule_valid redisModule_store
    by (auto simp: Builder_def Let_def serveMetrics_def cache_New_def enricher_New_def reporter_New_def
        ReportConfig_Validate_def newReportLimiter_def simp del: jsonText.simps)
  then obtain m h' acts where b: "Builder moduleEnv sampleHeap ?raw = (Inr m, h', acts)"
    and m: "mod_config m = redisModule" "mod_metricsServer m" by blast
  from module_owns_resources [OF b, of 0 None 0 None None] m
  show ?thesis using b by (auto simp: redisModule_def)
qed

end
