(* ===== verification/BasicExample.thy ===== *)
theory BasicExample
  imports PrebidModule
begin

text \<open>
  \<^verbatim>\<open>example/basic/main.go\<close>: the smallest host. It builds an enricher on a Valkey store and a reporter,
  enriches an example auction twice, reports the bids of an example response and shuts the
  reporter down. Reading and parsing the YAML file, the clients and the shutdown of the
  reporter are parameters.
\<close>

section \<open>Configuration and construction\<close>

record basicConfig =
  bc_PartnerID :: string
  bc_TimeoutMS :: int
  bc_Endpoint :: string
  bc_ReportsEndpoint :: string
  bc_Cache :: CacheConfig
  bc_Valkey :: ValkeyConfig

definition loadConfig ::
  "(string \<Rightarrow> go_error + bytes) \<Rightarrow> (bytes \<Rightarrow> go_error + basicConfig) \<Rightarrow> string \<Rightarrow> go_error + basicConfig" where
  "loadConfig ReadFile yamlUnmarshal path =
     (case ReadFile path of
        Inl err \<Rightarrow> Inl (WrappedError ''read config: '' err)
      | Inr contents \<Rightarrow>
          (case yamlUnmarshal contents of
             Inl err \<Rightarrow> Inl (WrappedError ''parse config: '' err)
           | Inr result \<Rightarrow> Inr result))"

record ('f, 's) basicEnv =
  bas_valkey :: "ValkeyConfig \<Rightarrow> go_error + 's store"
  bas_freecache :: "'f freecache"
  bas_NewCache :: "int \<Rightarrow> 'f"
  bas_codec :: eid_codec
  bas_unicode :: unicode
  bas_order :: "string list \<Rightarrow> string list"

definition setupEnrichment ::
  "('f, 's) basicEnv \<Rightarrow> basicConfig \<Rightarrow>
     (go_error + ('f, 's) cacheState enricher \<times> s2sLimiter) \<times> build_action list" where
  "setupEnrichment env cfg =
     (case bas_valkey env (bc_Valkey cfg) of
        Inl err \<Rightarrow> (Inl (WrappedError ''create Valkey store: '' err), [])
      | Inr store \<Rightarrow>
          (case cache_New (bas_freecache env) (bas_NewCache env) (Some store) (bas_codec env) (bc_Cache cfg) of
             Inl err \<Rightarrow> (Inl (WrappedError ''create identity cache: '' err), [StoreOpened ''valkey'', StoreClosed])
           | Inr cache \<Rightarrow>
               (case enricher_New True (map_option (\<lambda>(ic, _). identityCacheOps ic) cache) 0 (MaxKeys (bc_Cache cfg))
                       (bas_unicode env) (bas_order env) (bas_codec env) of
                  Inl err \<Rightarrow> (Inl (WrappedError ''create enricher: '' err), [StoreOpened ''valkey'', StoreClosed])
                | Inr (enricher, limiter, _) \<Rightarrow> (Inr (enricher, limiter), [StoreOpened ''valkey'']))))"

definition setupReporting :: "go_error + reporter" where
  "setupReporting =
     (case reporter_New True \<lparr>MaxConcurrentCalls = 4\<rparr> of
        Inl err \<Rightarrow> Inl (WrappedError ''create reporter: '' err)
      | Inr reporter \<Rightarrow> Inr reporter)"

section \<open>The auction\<close>

definition exampleAuction :: BidRequest where
  "exampleAuction =
     \<lparr>BidRequest_ID = ''example-auction'',
      BidRequest_Site = Some \<lparr>Domain = ''example.com'', Page = []\<rparr>, BidRequest_App = None,
      BidRequest_User = Some \<lparr>User_EIDs = [\<lparr>EID_Source = ''pubcid.org'',
          EID_UIDs = [\<lparr>UID_ID = ''example-pubcid'', UID_rest = []\<rparr>], EID_rest = []\<rparr>],
        Consent = [], User_Ext = []\<rparr>,
      BidRequest_Device = Some \<lparr>IP = ''192.0.2.1'', IPv6 = [], UA = ''identity-go-example'', SUA = None,
        IFA = [], Lmt = None, DeviceType = 0\<rparr>,
      BidRequest_Regs = None\<rparr>"

definition exampleBidResponse :: BidResponse where
  "exampleBidResponse =
     \<lparr>BidResponse_SeatBid = [\<lparr>Seat = ''example-bidder'',
        SeatBid_Bid = [\<lparr>Bid_Price = Finite (3 / 2), Bid_ImpID = ''example-imp'',
          Bid_Ext = jsonText (JObj [(''origbidcpm'', JNum ''1.7''), (''origbidcur'', JStr ''USD'')])\<rparr>]\<rparr>],
      BidResponse_Cur = ''EUR''\<rparr>"

definition auctionReference :: "BidRequest \<Rightarrow> string" where
  "auctionReference auction =
     (case BidRequest_Site auction of
        Some site \<Rightarrow> if Domain site \<noteq> [] then Domain site else Page site
      | None \<Rightarrow>
          (case BidRequest_App auction of
             Some app \<Rightarrow> if Bundle app \<noteq> [] then Bundle app else App_Name app
           | None \<Rightarrow> []))"

definition auctionIP :: "BidRequest \<Rightarrow> string" where
  "auctionIP auction =
     (case BidRequest_Device auction of None \<Rightarrow> []
      | Some device \<Rightarrow> if IP device \<noteq> [] then IP device else IPv6 device)"

definition auctionUserAgent :: "BidRequest \<Rightarrow> string" where
  "auctionUserAgent auction = (case BidRequest_Device auction of None \<Rightarrow> [] | Some device \<Rightarrow> UA device)"

definition basic_appendEIDs :: "BidRequest \<Rightarrow> EID list \<Rightarrow> BidRequest" where
  "basic_appendEIDs auction resolved_ids =
     (if length resolved_ids = 0 then auction
      else
        (let user = (case BidRequest_User auction of None \<Rightarrow> emptyUser | Some us \<Rightarrow> us)
         in auction\<lparr>BidRequest_User := Some (user\<lparr>User_EIDs := User_EIDs user @ resolved_ids\<rparr>)\<rparr>))"

section \<open>Enriching and reporting\<close>

definition basicRequest :: "basicConfig \<Rightarrow> BidRequest \<Rightarrow> Request" where
  "basicRequest cfg auction =
     \<lparr>PartnerID = bc_PartnerID cfg, Endpoint = bc_Endpoint cfg, Auction = Some auction,
      Timeout = mulDuration (bc_TimeoutMS cfg) time_Millisecond, WaitTimeout = None,
      CacheEnabled = Enabled (bc_Cache cfg)\<rparr>"

text \<open>The loop over the attempts; auction and result are those of the last one.\<close>

fun enrichAttempts ::
  "(ctx \<Rightarrow> Request \<Rightarrow> 'e \<Rightarrow> (go_error + Result) \<times> 'e) \<Rightarrow> basicConfig \<Rightarrow> nat \<Rightarrow> BidRequest \<Rightarrow> Result \<Rightarrow> 'e \<Rightarrow>
     (BidRequest \<times> Result) \<times> 'e" where
  "enrichAttempts enrich cfg 0 auction result e = ((auction, result), e)"
| "enrichAttempts enrich cfg (Suc left) _ _ e =
     (let auction = exampleAuction;
          (r, e) = enrich Background (basicRequest cfg auction) e
      in case r of
           Inl _ \<Rightarrow> enrichAttempts enrich cfg left auction emptyResult e
         | Inr result \<Rightarrow> enrichAttempts enrich cfg left (basic_appendEIDs auction (Result_EIDs result)) result e)"

definition runEnrichmentExample ::
  "(ctx \<Rightarrow> Request \<Rightarrow> 'e \<Rightarrow> (go_error + Result) \<times> 'e) \<Rightarrow> basicConfig \<Rightarrow> 'e \<Rightarrow> (BidRequest \<times> Result) \<times> 'e" where
  "runEnrichmentExample enrich cfg e = enrichAttempts enrich cfg 2 exampleAuction emptyResult e"

definition basicReport :: "basicConfig \<Rightarrow> BidRequest \<Rightarrow> Result \<Rightarrow> BidResponse \<Rightarrow> SeatBid \<Rightarrow> Bid \<Rightarrow> ReportRequest" where
  "basicReport cfg auction result bidResponse seatBid bid =
     \<lparr>Report_PartnerID = bc_PartnerID cfg, Report_Endpoint = bc_ReportsEndpoint cfg,
      Report_Timeout = mulDuration (bc_TimeoutMS cfg) time_Millisecond, Report_Bid = bid,
      Report_BidderCode = Seat seatBid, Report_Currency = BidResponse_Cur bidResponse,
      Report_AuctionID = BidRequest_ID auction, Report_Reference = auctionReference auction,
      Report_IP = auctionIP auction, Report_UserAgent = auctionUserAgent auction,
      Report_ABTestUUID = Result_ABTestUUID result, Report_TerminationCause = Result_TerminationCause result\<rparr>"

text \<open>
  The nested loops are those of the Prebid module, around a reporter whose answers are counted.
  The auction is dereferenced only when there is a bid to report.
\<close>

definition countAccepted ::
  "(ReportRequest \<Rightarrow> 'r \<Rightarrow> ReportResult \<times> 'r) \<Rightarrow> ReportRequest \<Rightarrow> int \<times> 'r \<Rightarrow> int \<times> 'r" where
  "countAccepted tryReport request s =
     (let (accepted, r) = s; (answer, r) = tryReport request r
      in (if answer = ReportAccepted then accepted + 1 else accepted, r))"

definition reportBidResponse ::
  "(ReportRequest \<Rightarrow> 'r \<Rightarrow> ReportResult \<times> 'r) \<Rightarrow> basicConfig \<Rightarrow> BidRequest \<Rightarrow> Result \<Rightarrow> BidResponse option \<Rightarrow> 'r \<Rightarrow>
     int \<times> 'r" where
  "reportBidResponse tryReport cfg auction result bidResponse r =
     (case bidResponse of None \<Rightarrow> (0, r)
      | Some response \<Rightarrow>
          if bc_ReportsEndpoint cfg = [] then (0, r)
          else reportSeats (countAccepted tryReport) (basicReport cfg auction result response)
                 (BidResponse_SeatBid response) (0, r))"

section \<open>The program\<close>

text \<open>
  \<^verbatim>\<open>run\<close>, from the loaded configuration to its result: the enricher's and the reporter's methods
  take the state of the whole program, and closing the store is deferred to every way out.
\<close>

definition basic_run ::
  "('f, 's) basicEnv \<Rightarrow>
     (('f, 's) cacheState enricher \<Rightarrow> s2sLimiter \<Rightarrow> ctx \<Rightarrow> Request \<Rightarrow> 'w \<Rightarrow> (go_error + Result) \<times> 'w) \<Rightarrow>
     (ReportRequest \<Rightarrow> 'w \<Rightarrow> ReportResult \<times> 'w) \<Rightarrow> (ctx \<Rightarrow> 'w \<Rightarrow> go_error option \<times> 'w) \<Rightarrow>
     go_error + basicConfig \<Rightarrow> int \<Rightarrow> 'w \<Rightarrow> go_error option \<times> 'w \<times> shutdown_action list" where
  "basic_run env enrich tryReport shutdown loaded now w =
     (case loaded of
        Inl err \<Rightarrow> (Some err, w, [])
      | Inr cfg \<Rightarrow>
          (case setupEnrichment env cfg of
             (Inl err, acts) \<Rightarrow> (Some err, w, map BuildAction acts)
           | (Inr (e, limiter), acts) \<Rightarrow>
               (case setupReporting of
                  Inl err \<Rightarrow> (Some err, w, map BuildAction (acts @ [StoreClosed]))
                | Inr reporter \<Rightarrow>
                    (let ((auction, result), w) = runEnrichmentExample (enrich e limiter) cfg w;
                         (_, w) = reportBidResponse tryReport cfg auction result (Some exampleBidResponse) w;
                         ctx = WithTimeout now Background (5 * time_Second);
                         (err, w) = shutdown ctx w
                     in (err, w, map BuildAction acts @ [ReporterShutdown ctx, BuildAction StoreClosed])))))"

section \<open>Resources\<close>

lemma setupEnrichment_opens:
  assumes "setupEnrichment env cfg = (r, acts)"
  shows "held acts = (False, case r of Inl _ \<Rightarrow> False | Inr _ \<Rightarrow> True)"
  using assms by (auto simp: setupEnrichment_def held_def split: sum.splits)

text \<open>Whatever happens, the program ends with its store closed.\<close>

lemma basic_run_closes:
  assumes "basic_run env enrich tryReport shutdown loaded now w = (err, w', acts)"
  shows "held (releases acts) = (False, False)"
proof (cases loaded)
  case (Inl err)
  with assms show ?thesis by (auto simp: basic_run_def releases_def held_def List.map_filter_def)
next
  case (Inr cfg)
  have r: "releases (map BuildAction as @ bs) = as @ releases bs" for as bs
    by (induction as) (simp_all add: releases_def List.map_filter_def)
  have m: "releases (map BuildAction as) = as" for as using r [of as "[]"] by (simp add: releases_def List.map_filter_def)
  obtain s as where s: "setupEnrichment env cfg = (s, as)" by force
  from assms Inr s setupEnrichment_opens [OF s] show ?thesis
    by (auto simp: basic_run_def Let_def r m held_def releases_def [of "[_, _]"] releases_def [of "[_]"] List.map_filter_def
        split: sum.splits prod.splits)
qed

section \<open>Fail-open attempts\<close>

text \<open>The second attempt decides: its ids are in the auction, or the auction is the example itself.\<close>

lemma runEnrichmentExample_last:
  assumes "enrich Background (basicRequest cfg exampleAuction) e = (r1, e1)"
    and "enrich Background (basicRequest cfg exampleAuction) e1 = (r, e2)"
  shows "runEnrichmentExample enrich cfg e =
    ((basic_appendEIDs exampleAuction (case r of Inl _ \<Rightarrow> [] | Inr x \<Rightarrow> Result_EIDs x),
      case r of Inl _ \<Rightarrow> emptyResult | Inr x \<Rightarrow> x), e2)"
  using assms
  by (auto simp: runEnrichmentExample_def numeral_2_eq_2 basic_appendEIDs_def split: sum.split)

section \<open>The two hosts report alike\<close>

text \<open>Names the two hosts read in the same way: the module skips a blank one, this one an empty one.\<close>

definition plainNames :: "BidRequest \<Rightarrow> bool" where
  "plainNames auction \<longleftrightarrow>
     (case BidRequest_Site auction of
        Some site \<Rightarrow> Domain site = [] \<or> module_notBlank (Domain site)
      | None \<Rightarrow>
          (case BidRequest_App auction of
             Some app \<Rightarrow> Bundle app = [] \<or> module_notBlank (Bundle app)
           | None \<Rightarrow> True))"

lemma module_notBlank_empty [simp]: "\<not> module_notBlank []"
  by (simp add: module_notBlank_def)

lemma newAuctionContext_fields:
  assumes "plainNames auction"
  shows "ac_Reference (newAuctionContext (Some auction)) = auctionReference auction"
    and "ac_IP (newAuctionContext (Some auction)) = auctionIP auction"
    and "ac_UserAgent (newAuctionContext (Some auction)) = auctionUserAgent auction"
    and "ac_AuctionID (newAuctionContext (Some auction)) = BidRequest_ID auction"
  using assms
  by (auto simp: newAuctionContext_def emptyContext_def Let_def plainNames_def auctionReference_def auctionIP_def
      auctionUserAgent_def split: option.splits)

lemma count_all_accepted:
  "reportBids (countAccepted (\<lambda>q r. (ReportAccepted, r @ [q]))) request bids (n, r) =
     (n + int (length bids), r @ map request bids)"
  by (induction bids arbitrary: n r) (simp_all add: countAccepted_def)

lemma count_seats_accepted:
  "reportSeats (countAccepted (\<lambda>q r. (ReportAccepted, r @ [q]))) request seats (n, r) =
     (n + int (length (concat (map (\<lambda>s. map (request s) (SeatBid_Bid s)) seats))),
      r @ concat (map (\<lambda>s. map (request s) (SeatBid_Bid s)) seats))"
  by (induction seats arbitrary: n r) (simp_all add: count_all_accepted)

text \<open>
  C40. The two hosts report alike. For the same auction, successful enrichment and response, with
  the same partner, reports endpoint and timeout and no account configuration, the basic example
  submits exactly the reports that the Prebid module submits from the context that its request
  hook left, provided that the site's domain and the app's bundle are empty or not blank (the module
  asks whether they are blank, the example whether they are empty); and it counts them all when
  all are accepted.
\<close>

theorem hosts_report_alike:
  assumes same: "mc_PartnerID config = bc_PartnerID cfg" "mc_ReportsEndpoint config = bc_ReportsEndpoint cfg"
      "mc_Timeout config = bc_TimeoutMS cfg"
    and endpoint: "bc_ReportsEndpoint cfg \<noteq> []" and plain: "plainNames auction"
    and request: "HandleProcessedAuctionHook h config enrich c [] (Some (Some auction)) e = (res, h1, e1)"
    and call: "fst (enrich c (hookRequest h config (Some auction)) e) = Inr result"
    and response: "HandleAuctionResponseHook h1 config (\<lambda>q sent. sent @ [q]) [] (hr_ModuleContext res) (Some resp) [] =
      (h2, reports)"
  shows "reportBidResponse (\<lambda>q sent. (ReportAccepted, sent @ [q])) cfg
      (basic_appendEIDs auction (Result_EIDs result)) result (Some resp) [] = (int (length reports), reports)"
proof -
  let ?ctx = "(newAuctionContext (Some auction))
      \<lparr>ac_ABTestUUID := Result_ABTestUUID result, ac_TerminationCause := Result_TerminationCause result\<rparr>"
  have no_account: "config_resolve x config [] = (config, x)" for x by (simp add: config_resolve_def)
  have "hr_ModuleContext res = storeAuctionContext ?ctx"
    using request call no_account
    by (auto simp: HandleProcessedAuctionHook_def Let_def split: sum.splits if_splits prod.splits)
  then have r: "reports = concat (map (\<lambda>s. map (bidReport config ?ctx resp s) (SeatBid_Bid s)) (BidResponse_SeatBid resp))"
    using response endpoint same(2) by (simp add: HandleAuctionResponseHook_def no_account reportSeats_map)
  have a: "auctionReference (basic_appendEIDs auction ids) = auctionReference auction"
      "auctionIP (basic_appendEIDs auction ids) = auctionIP auction"
      "auctionUserAgent (basic_appendEIDs auction ids) = auctionUserAgent auction"
      "BidRequest_ID (basic_appendEIDs auction ids) = BidRequest_ID auction" for ids
    by (simp_all add: basic_appendEIDs_def auctionReference_def auctionIP_def auctionUserAgent_def Let_def split: option.split)
  have "basicReport cfg (basic_appendEIDs auction (Result_EIDs result)) result resp = bidReport config ?ctx resp"
    using same newAuctionContext_fields [OF plain]
    by (auto simp: fun_eq_iff basicReport_def bidReport_def config_timeout_def a)
  with r endpoint show ?thesis by (simp add: reportBidResponse_def count_seats_accepted)
qed

definition basicSample :: basicConfig where
  "basicSample = \<lparr>bc_PartnerID = ''p'', bc_TimeoutMS = 400, bc_Endpoint = ''e'', bc_ReportsEndpoint = ''r'',
     bc_Cache = mc_Cache defaultConfig, bc_Valkey = emptyValkey\<rparr>"

definition moduleSample :: ModuleConfig where
  "moduleSample = defaultConfig\<lparr>mc_PartnerID := ''p'', mc_ReportsEndpoint := ''r'', mc_Timeout := 400\<rparr>"

theorem hosts_report_alike_witness:
  "\<exists>res h1 e1 h2 reports.
     HandleProcessedAuctionHook sampleHeap moduleSample (\<lambda>_ _ s. (Inr emptyResult, s)) Background []
       (Some (Some exampleAuction)) () = (res, h1, e1) \<and>
     HandleAuctionResponseHook h1 moduleSample (\<lambda>q sent. sent @ [q]) [] (hr_ModuleContext res)
       (Some exampleBidResponse) [] = (h2, reports) \<and>
     reportBidResponse (\<lambda>q sent. (ReportAccepted, sent @ [q])) basicSample
       (basic_appendEIDs exampleAuction []) emptyResult (Some exampleBidResponse) [] = (int (length reports), reports)"
proof -
  obtain res h1 e1 where p: "HandleProcessedAuctionHook sampleHeap moduleSample (\<lambda>_ _ s. (Inr emptyResult, s)) Background []
      (Some (Some exampleAuction)) () = (res, h1, e1)"
    by (metis prod_cases3)
  obtain h2 reports where q: "HandleAuctionResponseHook h1 moduleSample (\<lambda>q sent. sent @ [q]) [] (hr_ModuleContext res)
      (Some exampleBidResponse) [] = (h2, reports)"
    by force
  have c: "mc_PartnerID moduleSample = bc_PartnerID basicSample" "mc_ReportsEndpoint moduleSample = bc_ReportsEndpoint basicSample"
    "mc_Timeout moduleSample = bc_TimeoutMS basicSample" "bc_ReportsEndpoint basicSample \<noteq> []"
    by (simp_all add: moduleSample_def basicSample_def)
  have "plainNames exampleAuction"
    by (simp add: plainNames_def exampleAuction_def module_notBlank_def) code_simp
  from hosts_report_alike [OF c this p _ q, of emptyResult] p q
  show ?thesis by (auto simp: emptyResult_def)
qed

end
