(* ===== verification/Spec2Isabelle.thy ===== *)
theory Spec2Isabelle
  imports CacheSamples Quiescence Fleet BenchServer BasicExample
begin

text \<open>
  \<^bold>\<open>identity-go\<close>: enrichment of ad auctions with resolved user ids, and impression reports.

  \<^bold>\<open>The program.\<close> A host calls \<^verbatim>\<open>Enrich\<close> (\<^verbatim>\<open>enrichment/resolver.go\<close>) for an auction. The enricher
  derives cache keys from the auction (\<^verbatim>\<open>enrichment/cache_keys.go\<close>, \<^verbatim>\<open>user_agent.go\<close>), asks the
  two-layer identity cache (package \<^verbatim>\<open>cache\<close>) and otherwise calls the S2S API (package
  \<^verbatim>\<open>iiqapi/s2s\<close>) with a URL built by \<^verbatim>\<open>enrichment/params.go\<close> and \<^verbatim>\<open>ua_hints.go\<close>: in the caller's
  goroutine, or in a background goroutine that a limiter admits and that the caller waits for
  up to a bound. Results go back to the cache. The reporter (package \<^verbatim>\<open>reporting\<close>) sends impression
  reports in goroutines that a limiter of its own admits. Both have a shutdown that refuses new
  work and waits for what was admitted.

  \<^bold>\<open>The theories\<close>, in the order in which they build on each other:

  \<^item> \<^verbatim>\<open>Prelude\<close>: 64-bit arithmetic with its wrap-around, durations, the development's fact
    collections. \<^verbatim>\<open>GoText\<close>: the string functions of the Go library, on byte strings; UTF-8.
    \<^verbatim>\<open>Json\<close>: writer and parser of \<^verbatim>\<open>encoding/json\<close>, with the round trip of texts. \<^verbatim>\<open>OpenRTB\<close>: the
    fields of the OpenRTB objects that the code reads.
  \<^item> \<^verbatim>\<open>TTL\<close>, \<^verbatim>\<open>Contracts\<close>, \<^verbatim>\<open>Errors\<close>: \<^verbatim>\<open>cache/ttl.go\<close>, \<^verbatim>\<open>cache/config.go\<close>, the types of
    \<^verbatim>\<open>enrichment/enrichment.go\<close> and \<^verbatim>\<open>enrichment/cache.go\<close>, \<^verbatim>\<open>iiqapi/error.go\<close>, contexts.
  \<^item> \<^verbatim>\<open>Entry\<close>, \<^verbatim>\<open>CacheInterface\<close>, \<^verbatim>\<open>IdentityCache\<close>, \<^verbatim>\<open>CacheSamples\<close>: \<^verbatim>\<open>cache/entry.go\<close>, the \<^verbatim>\<open>Cache\<close>
    interface as a locale, \<^verbatim>\<open>cache/memory.go\<close> and \<^verbatim>\<open>cache/cache.go\<close>. The lemmas show that a lookup
    serves live entries only, that what was stored is found as long as the layer keeps it, and that
    resolved entries and aliases are written to both layers with a lifetime and an expiry within the
    ceiling of their key; the locale is interpreted on the identity cache.
  \<^item> \<^verbatim>\<open>UserAgent\<close>, \<^verbatim>\<open>Params\<close>, \<^verbatim>\<open>CacheKeys\<close>: the pure functions of package \<^verbatim>\<open>enrichment\<close>, with the round
    trip of the S2S URL and the specification of the key list.
  \<^item> \<^verbatim>\<open>S2S\<close>: \<^verbatim>\<open>iiqapi/s2s\<close> and \<^verbatim>\<open>iiqapi/reporting\<close>, on an HTTP client that is a parameter.
  \<^item> \<^verbatim>\<open>Limiter\<close>: the permit channel of \<^verbatim>\<open>enrichment/limiter.go\<close> (locale \<open>permit_channel\<close>) and the
    admission protocol that enricher and reporter share, as a step relation of its own; locale
    \<open>admission_system\<close> transfers its invariant to any system that simulates it, and locale
    \<open>drain_progress\<close> turns steps towards the end of the drain into its completion.
  \<^item> \<^verbatim>\<open>Enricher\<close>, \<^verbatim>\<open>EnricherSystem\<close>: \<^verbatim>\<open>enrichment/resolver.go\<close>, first what one goroutine does between
    two interleaving points as functions, then all goroutines as the step relation \<open>estep\<close>, which
    interprets \<open>admission_system\<close>.
  \<^item> \<^verbatim>\<open>ReportBuilder\<close>, \<^verbatim>\<open>Reporter\<close>: package \<^verbatim>\<open>reporting\<close>, the URL with its ordered JSON payload (locale
    \<open>ordered_map\<close>) and the goroutines as \<open>rstep\<close>, the second interpretation of \<open>admission_system\<close>.
  \<^item> \<^verbatim>\<open>Stores\<close>, \<^verbatim>\<open>SharedCache\<close>, \<^verbatim>\<open>FileStore\<close>: the stores of \<^verbatim>\<open>integrations/redis\<close>, \<^verbatim>\<open>valkey\<close> and
    \<^verbatim>\<open>aerospike\<close> and the file store of \<^verbatim>\<open>cmd/benchmark\<close>, each an interpretation of the locale
    \<open>store_adapter\<close>, which gives the contract that the cache asks of its L2 layer; two hosts on one
    store find each other's results.
  \<^item> \<^verbatim>\<open>Fleet\<close>: any number of hosts with their own L1 on one store, over any history of cache operations
    and restarts. Every stored entry goes back to one operation of the history, through keys that
    occurred together in a request, and so does every hit.
  \<^item> \<^verbatim>\<open>Prometheus\<close>: \<^verbatim>\<open>integrations/prometheus\<close>. Registration is idempotent, and the collectors show what
    the step relation of the enricher did.
  \<^item> \<^verbatim>\<open>PrebidConfig\<close>, \<^verbatim>\<open>PrebidModule\<close>: \<^verbatim>\<open>example/prebid-module\<close>, the configuration with its pointers as a
    heap of cells, the hooks from request to reports, construction and shutdown with what they
    open and close.
  \<^item> \<^verbatim>\<open>Quiescence\<close>: the step relations of the enricher and the reporter, as interpretations of the locale
    \<open>quiescing\<close>: without new calls every run ends, within a bound that the work at hand gives, and
    it ends with everything done.
  \<^item> \<^verbatim>\<open>Benchmark\<close>, \<^verbatim>\<open>BenchServer\<close>, \<^verbatim>\<open>BasicExample\<close>: \<^verbatim>\<open>cmd/benchmark/server.go\<close> and \<^verbatim>\<open>example/basic\<close>. The benchmark's modes
    are planned by the enricher as asked, its command line and routes are \<^verbatim>\<open>BenchServer\<close>, and the two example hosts report alike.
  \<^item> This theory: the properties that span enricher, cache and keys (a resolved identity is served
    from the cache, concurrent calls coalesce on the markers, what a call decides before it schedules
    anything), and the concrete calls that the witnesses use.

  \<^bold>\<open>How code corresponds to definitions.\<close> A Go struct is a record, an enumeration a datatype (with a
  constructor for the values outside its constants where a \<^verbatim>\<open>default\<close> branch handles them), an error
  a value of \<open>go_error\<close>, a fallible function returns a sum or an option. Methods that change
  state take it and return it updated. Calls on the host's metrics and logger are recorded as
  events in order. A loop over a slice is a recursion over the list, with the loop's running
  index where the code uses one. \<^verbatim>\<open>int64\<close> and \<^verbatim>\<open>time.Duration\<close> are integers with \<open>wrap64\<close> written
  out at each operation that can overflow. The clock is the sequence of its readings.

  \<^bold>\<open>Bounds and fuel.\<close> The JSON parser recurses with fuel: \<open>parseJSON\<close> gives it two units for
  each byte of the input and two more, which \<open>parse_fuel\<close> shows to be enough for every input;
  it refuses nesting
  beyond 10000 levels, as \<^verbatim>\<open>encoding/json\<close> does. Every other recursion terminates on its own. The
  step relations are not bounded.

  \<^bold>\<open>Parameters\<close> for code that the repository only calls: FreeCache, the store behind the L2 layer,
  the HTTP client, the Unicode case tables beyond ASCII, the JSON form of an EID, the formatting of
  floating-point numbers, the iteration order of Go maps, the client libraries of the stores, the validation library, the
  Prometheus library, the file system and the digest of the file store, the decoding of a posted
  auction and of the YAML configuration. What a property needs of them is a
  named hypothesis, and its witness instantiates it.

  \<^bold>\<open>What the cache relies on.\<close> The layers are read through a function that gives what they hold.
  \<open>l1_faithful\<close> and \<open>l2_faithful\<close> say that no value is invented: a layer may forget any entry at any
  operation, and after a write, failed or not, its key has the old value, the new one or none
  (\<open>overwrites\<close>). \<open>l1_documented\<close> adds what FreeCache documents: a read gives what is there, and an
  entry within its size limits is written. \<open>l2_documented\<close> adds, of a store, that a read without an
  error gives what is there and that a put without an error has stored; \<^verbatim>\<open>Stores\<close> derives it for
  the three stores from what their client libraries document. Properties that speak of a later
  state say what the layer must still hold there; none assumes that entries last or that a write
  succeeds.

  \<^bold>\<open>Not modelled.\<close> The interleaving of two cache operations (each is one step of \<open>estep\<close>; inside one,
  the layers are asked in the order of the code), real time (waits may expire at any moment), the
  memory model beyond the atomicity of channel and flag operations, the serving goroutines of HTTP
  servers, the texts of integers and durations on the benchmark's command line, the JSON text of
  the benchmark's answers, the timer that a hybrid wait stops when it returns, the loggers and
  metrics that do nothing.
\<close>

section \<open>Helper facts on clocks\<close>

lemma getFromStore_clock: "clock_le (cs_clock st) (cs_clock (snd (getFromStore cache c key st)))"
proof -
  obtain r l2 where r: "Store_Get (ic_store cache) c key (cs_l2 st) = (r, l2)" by force
  let ?clk = "(cs_clock st)\<lparr>reads := Suc (Suc (reads (cs_clock st)))\<rparr>"
  have "clock_le (cs_clock st) ?clk" by (simp add: clock_le_def)
  then have le: "clock_le (cs_clock st) (snd (decode (ic_codec cache) b ?clk))" for b
    by (rule clock_le_trans [OF _ decode_clock_le])
  show ?thesis
  proof (cases r)
    case (Inl err)
    with r show ?thesis by (simp add: getFromStore_def tick_def Now_def Let_def clock_le_def)
  next
    case (Inr b)
    obtain v clk where "decode (ic_codec cache) b ?clk = (v, clk)" by force
    with r Inr le [of b] show ?thesis
      by (auto simp: getFromStore_def tick_def Now_def Let_def split: option.splits)
  qed
qed

lemma getL2Loop_clock: "clock_le (cs_clock st) (cs_clock (snd (getL2Loop cache c index ip keys st)))"
proof (induction keys arbitrary: index ip st)
  case (Cons k keys)
  obtain v st1 where g: "getFromStore cache c (Key_Value k) st = (v, st1)" by force
  have "clock_le (cs_clock st) (cs_clock st1)" using getFromStore_clock [of st cache c "Key_Value k"] g by simp
  with g Cons.IH show ?case by (auto split: option.splits intro: clock_le_trans)
qed simp

lemma Get_clock:
  assumes "l1_faithful (ic_local cache) content"
  shows "clock_le (cs_clock st) (cs_clock (snd (Get cache c keys st)))"
proof (cases "keys = []")
  case False
  obtain a st1 where g1: "getL1Loop cache 0 keys st = (a, st1)" by force
  have 1: "clock_le (cs_clock st) (cs_clock st1)" using getL1Loop_sound [OF assms g1] by blast
  show ?thesis
  proof (cases a)
    case (Some t)
    then obtain i k e where "a = Some (i, k, e)" by (cases t) auto
    with g1 False 1 backfill_clock [of st1 cache c keys i e] show ?thesis
      by (auto simp: Get_def intro: clock_le_trans)
  next
    case None
    obtain b st2 where g2: "getL2Loop cache c 0 None keys st1 = (b, st2)" by force
    have 2: "clock_le (cs_clock st) (cs_clock st2)"
      using getL2Loop_clock [of st1 cache c 0 None keys] g2 1 by (auto intro: clock_le_trans)
    show ?thesis
    proof (cases b)
      case (Inl ip)
      with None g1 g2 False 2 show ?thesis by (cases ip) (auto simp: Get_def)
    next
      case (Inr t)
      then obtain i k e where b: "b = Inr (i, k, e)" by (cases t) auto
      have "clock_le (cs_clock st2) (cs_clock (backfill cache c keys i e (promote cache (Key_Value k) e st2)))"
        by (rule clock_le_trans [OF promote_clock backfill_clock])
      with None g1 g2 False 2 b show ?thesis by (auto simp: Get_def intro: clock_le_trans)
    qed
  qed
qed (simp add: Get_def)

lemma putInProgressLoop_clock:
  "clock_le (cs_clock st) (cs_clock (snd (putInProgressLoop cache c ttl fe keys st)))"
proof (induction keys arbitrary: fe st)
  case (Cons k keys)
  obtain v clk where v: "inProgress ttl (cs_clock st) = (v, clk)" by force
  then have 1: "clock_le (cs_clock st) clk"
    by (auto simp: inProgress_def expiry_def Now_def clock_le_def)
  obtain err st1 where w: "(case encode (ic_codec cache) v of
      None \<Rightarrow> (Some (PlainError ''json: marshal error''), st\<lparr>cs_clock := clk\<rparr>)
    | Some encoded \<Rightarrow> writeL2 cache c (Key_Value k) encoded ttl (st\<lparr>cs_clock := clk\<rparr>)) = (err, st1)"
    by force
  then have "clock_le clk (cs_clock st1)"
    by (auto split: option.splits dest!: writeL2_frame)
  with v w 1 Cons.IH [of st1] show ?case by (auto simp: Let_def intro: clock_le_trans)
qed simp

section \<open>From request to cache and back\<close>

text \<open>The enricher's lemmas on caches that meet its contract, for the identity cache.\<close>

lemmas identity_lookup_found = enrichment_cache.lookup_found [OF ic.enrichment_cache_axioms]

lemmas identity_lookup_missed = enrichment_cache.lookup_missed [OF ic.enrichment_cache_axioms]

definition result_ok :: "eid_codec \<Rightarrow> Result \<Rightarrow> bool" where
  "result_ok codec r \<longleftrightarrow> list_all (eid_roundtrips codec) (Result_EIDs r) \<and> valid_utf8 (Result_ABTestUUID r) \<and>
     (case Result_TerminationCause r of None \<Rightarrow> True | Some tc \<Rightarrow> in_int64 tc)"

lemma result_ok_entry: "result_ok codec r \<Longrightarrow> entry_ok codec (fst (resolved r ttl clk))"
  by (auto simp: result_ok_def entry_ok_def resolved_def expiry_def Now_def emptyEntry_def wrap64_range)

text \<open>
  From a clock state on the clock never reads an earlier time than at first, and a lifetime that
  starts at one of its readings does not overflow.
\<close>

definition clock_from :: "clock_state \<Rightarrow> duration \<Rightarrow> bool" where
  "clock_from clk ttl \<longleftrightarrow>
     (\<forall>i \<ge> reads clk. UnixMilli (readings clk (reads clk)) \<le> UnixMilli (readings clk i) \<and>
        in_int64 (UnixMilli (readings clk i) + Milliseconds ttl))"

text \<open>The entry of a result, whatever its expiry, fits the local layer under a key.\<close>

definition entry_fits ::
  "eid_codec \<Rightarrow> (bytes \<Rightarrow> bytes \<Rightarrow> bool) \<Rightarrow> string \<Rightarrow> Result \<Rightarrow> duration \<Rightarrow> bool" where
  "entry_fits codec fits key r ttl \<longleftrightarrow>
     (\<forall>clk b. encode codec (fst (resolved r ttl clk)) = Some b \<longrightarrow> fits key b)"

lemma stored_then_found:
  assumes l1: "l1_documented (ic_local cache) fits content" and keys: "distinct (map Key_Value (k # ks))"
    and ok: "result_ok (ic_codec cache) r"
    and ttl: "ttl = EffectiveTTL (ic_policy cache) (Key_Type k) (Result_CacheTTL r)"
    and fits: "entry_fits (ic_codec cache) fits (Key_Value k) r ttl"
    and clk: "clock_le clk (cs_clock st)" "clock_from clk ttl"
    and put: "PutResolved cache c (k # ks) r st = (err, st1)"
    and held: "content (cs_l1 st2) (Key_Value k) = content (cs_l1 st1) (Key_Value k)"
      "content (cs_l1 st2) (Key_Value k) \<noteq> None"
    and time: "UnixMilli (readings (cs_clock st2) (reads (cs_clock st2))) <
      UnixMilli (readings clk (reads clk)) + Milliseconds ttl"
  shows "fst (Get cache c' (k # ks) st2) = Inr
      \<lparr>CR_State = CacheHit, CR_Layer = CacheLayerL1, CR_KeyType = Key_Type k,
       CR_Result = emptyResult\<lparr>Result_EIDs := Result_EIDs r, Result_ABTestUUID := Result_ABTestUUID r,
         Result_TerminationCause := Result_TerminationCause r\<rparr>\<rparr>"
proof -
  let ?now = "UnixMilli (readings (cs_clock st) (reads (cs_clock st)))"
  have w: "UnixMilli (readings clk (reads clk)) \<le> ?now" "in_int64 (?now + Milliseconds ttl)"
    using clk by (auto simp: clock_le_def clock_from_def)
  have e: "entry_ok (ic_codec cache) (fst (resolved r ttl (cs_clock st)))" by (rule result_ok_entry [OF ok])
  then obtain b where b: "encode (ic_codec cache) (fst (resolved r ttl (cs_clock st))) = Some b"
    using decodeEntry_encode by metis
  then have "fits (Key_Value k) b" using fits by (simp add: entry_fits_def)
  moreover have "UnixMilli (readings (cs_clock st2) (reads (cs_clock st2))) < ?now + Milliseconds ttl"
    using time w(1) by linarith
  ultimately show ?thesis
    using PutResolved_then_Get [OF l1 keys put ttl refl w(2) e b _ held, of c' ks] by blast
qed

lemma enrichSync_resolved:
  assumes ops: "e_cache e = Some (identityCacheOps cache)" and enabled: "CacheEnabled req"
    and keys: "extractCacheKeys (e_unicode e) (Auction req) (e_maxCacheKeys e) = k # ks"
    and call: "enrichSync e s2s now d c req st = Some (Inr r, evs, st1)"
    and r: "Result_Outcome r = OutcomeEnriched" "\<not> FromCache r"
  obtains plan st2 st3 err c' where
    "notBlank (Endpoint req)" "Auction req \<noteq> None" "executionPlanFor e req = Inr plan"
    "st2 = snd (Get cache c (k # ks) st)"
    "st3 = snd (PutInProgress cache c (k # ks) (Timeout req) st2)"
    "PutResolved cache c' (k # ks) r st3 = (err, st1)"
proof -
  have blank: "notBlank (Endpoint req)"
    using call r by (rule_tac ccontr) (auto simp: enrichSync_def enrichOpen_def emptyResult_def)
  have auction: "Auction req \<noteq> None"
    using call r blank by (rule_tac notI) (auto simp: enrichSync_def enrichOpen_def emptyResult_def)
  from blank auction call obtain plan where plan: "executionPlanFor e req = Inr plan"
    by (cases "executionPlanFor e req") (auto simp: enrichSync_def enrichOpen_def)
  have ck: "cacheKeysFor e req plan = Inr (k # ks)" using ops enabled keys by (simp add: cacheKeysFor_def)
  obtain lo evs1 st2 where lo: "lookupCache e c (PartnerID req) (k # ks) st = (lo, evs1, st2)"
    by (metis prod_cases3)
  have miss: "lo = None"
  proof (rule ccontr)
    assume "lo \<noteq> None"
    then obtain x where x: "lo = Some x" by auto
    with lo identity_lookup_found [OF ops] have "FromCache x" by blast
    with call r blank auction plan ck lo x show False by (auto simp: enrichSync_def enrichOpen_def)
  qed
  have st2: "st2 = snd (Get cache c (k # ks) st)"
    using lo ops by (auto simp: lookupCache_def identityCacheOps_def split: prod.splits CacheState.splits)
  let ?job = "newResolutionJob e req (k # ks)"
  have job: "rj_cacheKeys ?job = k # ks" "rj_timeout ?job = Timeout req"
    by (simp_all add: newResolutionJob_def case_prod_beta)
  obtain evs2 st3 where mark: "markInProgress e c ?job st2 = (evs2, st3)" by force
  have st3: "st3 = snd (PutInProgress cache c (k # ks) (Timeout req) st2)"
    using mark ops job
    by (auto simp: markInProgress_def identityCacheOps_def hasCacheKeys_def split: option.splits prod.splits)
  let ?answer = "s2s (WithTimeout now c (rj_timeout ?job)) (rj_requestURL ?job) (rj_consent ?job)"
  obtain evs3 where run: "runBounded e (now + d) c ?job ?answer d st3 = (Inr r, evs3, st1)"
    using call blank auction plan ck lo miss mark
    by (auto simp: enrichSync_def enrichOpen_def Let_def split: if_splits prod.splits)
  then obtain evs4 evs5 where st: "storeResult e (now + d) c ?job r st3 = (evs5, st1)"
    by (auto simp: runBounded_def split: prod.splits sum.splits)
  then have "snd (PutResolved cache (WithTimeout (now + d) c (Timeout req)) (k # ks) r st3) = st1"
    using ops job r(1)
    by (auto simp: storeResult_def identityCacheOps_def hasCacheKeys_def Let_def split: prod.splits option.splits)
  then obtain err where "PutResolved cache (WithTimeout (now + d) c (Timeout req)) (k # ks) r st3 = (err, st1)"
    by (metis surjective_pairing)
  from that [OF blank auction plan st2 st3 this] show thesis .
qed

text \<open>
  C1. A resolved identity is resolved once. Take FreeCache as documented, and a synchronous call
  whose ids came from the S2S API and whose entry fits the local layer, with a clock that does not
  go back during the call. In every later state in which L1 still holds what the call left under
  the auction's first key and whose clock is within that key's lifetime, counted from the start of the
  call, a call for the same auction (on any context, whatever the S2S API would answer) returns
  the same ids, A/B test id and termination cause from L1, marked as cached, and makes no S2S
  call: its only events are the request, the cache hit and the enrichment.
\<close>

theorem enrich_then_cached:
  assumes ops: "e_cache e = Some (identityCacheOps cache)" and enabled: "CacheEnabled req"
    and keys: "extractCacheKeys (e_unicode e) (Auction req) (e_maxCacheKeys e) = k # ks"
    and l1: "l1_documented (ic_local cache) fits content"
    and call: "enrichSync e s2s now d c req st = Some (Inr r, evs, st1)"
    and r: "Result_Outcome r = OutcomeEnriched" "\<not> FromCache r"
    and ok: "result_ok (ic_codec cache) r"
    and ttl: "ttl = EffectiveTTL (ic_policy cache) (Key_Type k) (Result_CacheTTL r)"
    and fit: "entry_fits (ic_codec cache) fits (Key_Value k) r ttl"
    and clock: "clock_from (cs_clock st) ttl"
    and held: "content (cs_l1 st2) (Key_Value k) = content (cs_l1 st1) (Key_Value k)"
      "content (cs_l1 st2) (Key_Value k) \<noteq> None"
    and time: "UnixMilli (readings (cs_clock st2) (reads (cs_clock st2))) <
      UnixMilli (readings (cs_clock st) (reads (cs_clock st))) + Milliseconds ttl"
  shows "\<exists>st3. enrichSync e s2s' now' d' c' req st2 =
    Some (Inr (r\<lparr>Result_CacheTTL := 0, Result_CacheLayer := CacheLayerL1\<rparr>),
      [EnrichRequest (PartnerID req), CacheLookup (PartnerID req) CacheLookupHit CacheLayerL1,
       Enriched (PartnerID req)], st3)"
proof -
  have faithful: "l1_faithful (ic_local cache) content" using l1 by (simp add: l1_documented_def)
  obtain plan sa sb err cw where
    s: "notBlank (Endpoint req)" "Auction req \<noteq> None" "executionPlanFor e req = Inr plan"
      "sa = snd (Get cache c (k # ks) st)" "sb = snd (PutInProgress cache c (k # ks) (Timeout req) sa)"
      "PutResolved cache cw (k # ks) r sb = (err, st1)"
    by (rule enrichSync_resolved [OF ops enabled keys call r])
  have "clock_le (cs_clock st) (cs_clock sb)"
    unfolding s(4,5) PutInProgress_def
    by (rule clock_le_trans [OF Get_clock [OF faithful] putInProgressLoop_clock])
  moreover have "distinct (map Key_Value (k # ks))" using extractCacheKeys_distinct keys by metis
  ultimately have hit: "fst (Get cache c' (k # ks) st2) = Inr
      \<lparr>CR_State = CacheHit, CR_Layer = CacheLayerL1, CR_KeyType = Key_Type k,
       CR_Result = emptyResult\<lparr>Result_EIDs := Result_EIDs r, Result_ABTestUUID := Result_ABTestUUID r,
         Result_TerminationCause := Result_TerminationCause r\<rparr>\<rparr>"
    using stored_then_found [OF l1 _ ok ttl fit _ clock s(6) held time] by blast
  have ck: "cacheKeysFor e req plan = Inr (k # ks)" using ops enabled keys by (simp add: cacheKeysFor_def)
  obtain a st4 where g: "Get cache c' (k # ks) st2 = (a, st4)" by force
  with hit s(1-3) ck ops r(1) show ?thesis
    by (auto simp: enrichSync_def enrichOpen_def lookupCache_def identityCacheOps_def emptyResult_def Let_def)
qed


subsection \<open>What a call decides\<close>

text \<open>An in-progress marker of one of the keys, read while it was live.\<close>

definition marked ::
  "('f, 's) identityCache \<Rightarrow> (bytes \<Rightarrow> bytes option) \<Rightarrow> clock_state \<Rightarrow> clock_state \<Rightarrow> CacheKey list \<Rightarrow>
     CacheKey \<Rightarrow> entry \<Rightarrow> bool" where
  "marked cache content clk clk' keys key x \<longleftrightarrow>
     key \<in> set keys \<and> entry_InProgress x \<and> live_between clk clk' x \<and>
     (\<exists>b. content (Key_Value key) = Some b \<and> decodeEntry (ic_codec cache) b = Some x)"

lemma getL2Loop_progress:
  assumes l2: "l2_faithful (ic_store cache) content"
  shows "getL2Loop cache c index ip keys st = (Inl (Some t), st') \<Longrightarrow> ip = Some t \<or>
    (\<exists>key x. Key_Type key = t \<and> marked cache (content (cs_l2 st)) (cs_clock st) (cs_clock st') keys key x)"
proof (induction keys arbitrary: index ip st)
  case (Cons k keys)
  obtain v st1 where g: "getFromStore cache c (Key_Value k) st = (v, st1)" by force
  note s1 = getFromStore_sound [OF l2 g]
  obtain ip' where rec: "getL2Loop cache c (Suc index) ip' keys st1 = (Inl (Some t), st')"
    and ip': "ip' = ip \<or> ip' = Some (Key_Type k) \<and> (\<exists>x. v = Some x \<and> entry_InProgress x)"
    using Cons.prems g by (auto split: option.splits if_splits)
  have le: "clock_le (cs_clock st1) (cs_clock st')"
    using getL2Loop_clock [of st1 cache c "Suc index" ip' keys] rec by simp
  have later: "marked cache (content (cs_l2 st)) (cs_clock st) (cs_clock st') (k # keys) key x"
    if "marked cache (content (cs_l2 st1)) (cs_clock st1) (cs_clock st') keys key x" for key x
    using that s1 live_between_mono [of "cs_clock st1" "cs_clock st'" x "cs_clock st" "cs_clock st'"]
    by (auto simp: marked_def dest: map_le_SomeD)
  have first: "marked cache (content (cs_l2 st)) (cs_clock st) (cs_clock st') (k # keys) k x"
    if "v = Some x" "entry_InProgress x" for x
    using that s1 le live_between_mono [of "cs_clock st" "cs_clock st1" x "cs_clock st" "cs_clock st'"]
    by (auto simp: marked_def)
  from Cons.IH [OF rec] ip' later first show ?case by blast
qed simp

text \<open>The three ways in which a lookup ends, traced to what the layers held.\<close>

lemma Get_traced:
  assumes l1: "l1_faithful (ic_local cache) content1" and l2: "l2_faithful (ic_store cache) content2"
    and get: "Get cache c keys st = (r, st')"
  shows "r = Inr missResult \<or>
    (\<exists>key x. r = Inr (inProgressResult (Key_Type key) CacheLayerL2) \<and>
       marked cache (content2 (cs_l2 st)) (cs_clock st) (cs_clock st') keys key x) \<or>
    (\<exists>i key x layer. r = Inr (cacheResultFromEntry x (Key_Type key) layer) \<and> \<not> entry_InProgress x \<and>
       (layer = CacheLayerL1 \<and> served cache (content1 (cs_l1 st)) (cs_clock st) (cs_clock st') keys i key x \<or>
        layer = CacheLayerL2 \<and> served cache (content2 (cs_l2 st)) (cs_clock st) (cs_clock st') keys i key x))"
proof (cases "keys = []")
  case False
  obtain a st1 where g1: "getL1Loop cache 0 keys st = (a, st1)" by force
  note s1 = getL1Loop_sound [OF l1 g1]
  show ?thesis
  proof (cases a)
    case (Some y)
    obtain i key x where y: "y = (i, key, x)" by (cases y)
    from Get_from_L1 [OF l1 get False g1 [unfolded Some y]] show ?thesis by blast
  next
    case None
    obtain b st2 where g2: "getL2Loop cache c 0 None keys st1 = (b, st2)" by force
    show ?thesis
    proof (cases b)
      case (Inl ip)
      show ?thesis
      proof (cases ip)
        case None
        with get False g1 \<open>a = None\<close> g2 Inl show ?thesis by (simp add: Get_def)
      next
        case (Some t)
        with get False g1 \<open>a = None\<close> g2 Inl have r: "r = Inr (inProgressResult t CacheLayerL2)" "st' = st2"
          by (auto simp: Get_def)
        from getL2Loop_progress [OF l2 g2 [unfolded Inl Some]]
        obtain key x where x: "Key_Type key = t" "marked cache (content2 (cs_l2 st1)) (cs_clock st1) (cs_clock st2) keys key x"
          by auto
        then have "marked cache (content2 (cs_l2 st)) (cs_clock st) (cs_clock st') keys key x"
          using s1 r(2) live_between_mono [of "cs_clock st1" "cs_clock st2" x "cs_clock st" "cs_clock st2"]
          by (auto simp: marked_def)
        with r x(1) show ?thesis by blast
      qed
    next
      case (Inr y)
      obtain i key x where y: "y = (i, key, x)" by (cases y)
      from Get_from_L2 [OF l1 l2 get False g1 [unfolded None] g2 [unfolded Inr y]] show ?thesis by blast
    qed
  qed
qed (use get in \<open>simp add: Get_def\<close>)

text \<open>
  When a request is refused, given the keys of its auction: a wait that is shorter than the
  timeout needs the cache, room in the background, and a key.
\<close>

definition refusal :: "'c enricher \<Rightarrow> Request \<Rightarrow> CacheKey list \<Rightarrow> go_error option" where
  "refusal e req keys =
     (if Timeout req \<le> 0 then Some errTimeoutNotPositive
      else case WaitTimeout req of None \<Rightarrow> None
      | Some w \<Rightarrow>
          if w < 0 then Some errNegativeWaitTimeout
          else if Timeout req \<le> w then None
          else if \<not> CacheEnabled req then Some errNonSyncCacheRequired
          else if e_limiterCap e = 0 then Some errNonSyncCapacityRequired
          else if keys = [] then Some errNonSyncCacheKeysRequired
          else None)"

text \<open>The cached entry that a result of a call was made from, in the layer that the result names.\<close>

definition answered_from ::
  "('f, 's) identityCache \<Rightarrow> ('f \<Rightarrow> bytes \<Rightarrow> bytes option) \<Rightarrow> ('s \<Rightarrow> string \<Rightarrow> bytes option) \<Rightarrow>
     ('f, 's) cacheState \<Rightarrow> ('f, 's) cacheState \<Rightarrow> CacheKey list \<Rightarrow> Result \<Rightarrow> entry \<Rightarrow> bool" where
  "answered_from cache content1 content2 st st' keys r x \<longleftrightarrow>
     (\<exists>i key. Result_CacheLayer r = CacheLayerL1 \<and>
         served cache (content1 (cs_l1 st)) (cs_clock st) (cs_clock st') keys i key x \<or>
       Result_CacheLayer r = CacheLayerL2 \<and>
         served cache (content2 (cs_l2 st)) (cs_clock st) (cs_clock st') keys i key x) \<and>
     Result_ABTestUUID r = entry_ABTestUUID x \<and> Result_TerminationCause r = entry_TerminationCause x"

lemma planned_keys:
  assumes "e_cache e \<noteq> None" and "keys = (if CacheEnabled req then extractCacheKeys (e_unicode e) (Auction req) (e_maxCacheKeys e) else [])"
  shows "case refusal e req keys of
      Some err \<Rightarrow> executionPlanFor e req = Inl err \<or>
        (\<exists>plan. executionPlanFor e req = Inr plan \<and> cacheKeysFor e req plan = Inl err)
    | None \<Rightarrow> \<exists>plan. executionPlanFor e req = Inr plan \<and> cacheKeysFor e req plan = Inr keys"
  using assms
  by (auto simp: refusal_def executionPlanFor_def cacheKeysFor_def normalizeWaitTimeout_def Let_def split: option.splits)

lemma lookup_traced:
  assumes ops: "e_cache e = Some (identityCacheOps cache)"
    and l1: "l1_faithful (ic_local cache) content1" and l2: "l2_faithful (ic_store cache) content2"
    and look: "lookupCache e c p keys st = (lo, evs, st')"
  shows "case lo of
      None \<Rightarrow> keys = [] \<and> st' = st \<or> fst (Get cache c keys st) = Inr missResult
    | Some r \<Rightarrow>
        Result_Outcome r = OutcomeEnriched \<and> (\<exists>x. answered_from cache content1 content2 st st' keys r x \<and>
          \<not> entry_Negative x \<and> Result_EIDs r = entry_EIDs x) \<or>
        Result_Outcome r = OutcomeCachedNoIDs \<and> Result_EIDs r = [] \<and>
          (\<exists>x. answered_from cache content1 content2 st st' keys r x \<and> entry_Negative x) \<or>
        Result_Outcome r = OutcomeInProgress \<and> Result_EIDs r = [] \<and> Result_CacheLayer r = CacheLayerL2 \<and>
          (\<exists>key x. marked cache (content2 (cs_l2 st)) (cs_clock st) (cs_clock st') keys key x)"
proof (cases "keys = []")
  case True
  with look ops show ?thesis by (auto simp: lookupCache_def)
next
  case False
  obtain a s where g: "Get cache c keys st = (a, s)" by force
  let ?r1 = "\<lambda>i key x. served cache (content1 (cs_l1 st)) (cs_clock st) (cs_clock s) keys i key x"
  let ?r2 = "\<lambda>i key x. served cache (content2 (cs_l2 st)) (cs_clock st) (cs_clock s) keys i key x"
  consider (miss) "a = Inr missResult"
    | (progress) t where "a = Inr (inProgressResult t CacheLayerL2)"
        "\<exists>key x. marked cache (content2 (cs_l2 st)) (cs_clock st) (cs_clock s) keys key x"
    | (entry) i key x layer where "a = Inr (cacheResultFromEntry x (Key_Type key) layer)" "\<not> entry_InProgress x"
        "layer = CacheLayerL1 \<and> ?r1 i key x \<or> layer = CacheLayerL2 \<and> ?r2 i key x"
    using Get_traced [OF l1 l2 g] by blast
  then show ?thesis
  proof cases
    case miss
    with look ops False g show ?thesis
      by (auto simp: lookupCache_def identityCacheOps_def missResult_def)
  next
    case progress
    have "lo = Some (emptyResult\<lparr>Result_Outcome := OutcomeInProgress, Result_CacheLayer := CacheLayerL2\<rparr>)" "st' = s"
      using look ops False g progress(1) by (auto simp: lookupCache_def identityCacheOps_def inProgressResult_def)
    with progress(2) show ?thesis by (simp add: emptyResult_def)
  next
    case entry
    let ?r = "emptyResult\<lparr>Result_EIDs := (if entry_Negative x then [] else entry_EIDs x),
      Result_ABTestUUID := entry_ABTestUUID x, Result_TerminationCause := entry_TerminationCause x,
      Result_Outcome := (if entry_Negative x then OutcomeCachedNoIDs else OutcomeEnriched), Result_CacheLayer := layer\<rparr>"
    have lo: "lo = Some ?r" "st' = s"
      using look ops False g entry(1,2)
      by (auto simp: lookupCache_def identityCacheOps_def cacheResultFromEntry_def Let_def emptyResult_def split: if_splits)
    have "answered_from cache content1 content2 st st' keys ?r x"
      using entry(3) lo(2) by (auto simp: answered_from_def)
    then show ?thesis unfolding lo(1) by (cases "entry_Negative x") auto
  qed
qed


text \<open>
  C2. Concurrent calls for one identity do not pile up on the S2S API. One call has written the
  markers of its job, and the log has no warning of it. Then a call for the same keys, on this
  host or on another one whose cache shares the store and the wire format, that is made before the
  job's timeout is over and whose request is valid, returns at once with the in-progress outcome
  and schedules nothing: as long as the store still has the first marker, answers the read of it
  and has taken nothing else for these keys, and that host's L1 knows nothing of them.
\<close>

theorem enrich_coalesces:
  assumes ops: "e_cache e = Some (identityCacheOps here)"
    and ops': "e_cache e' = Some (identityCacheOps there)" and enabled: "CacheEnabled req'"
    and there: "ic_store there = ic_store here" "ic_codec there = ic_codec here"
    and keys: "extractCacheKeys (e_unicode e') (Auction req') (e_maxCacheKeys e') = k # ks"
    and valid: "notBlank (Endpoint req')" "executionPlanFor e' req' = Inr plan"
    and l2: "l2_documented (ic_store here) content" and l1: "l1_faithful (ic_local there) lcontent"
    and mark: "markInProgress e c (newResolutionJob e req (k # ks)) st = ([], st1)"
    and ttl: "0 < Timeout req"
    and now: "now = UnixMilli (readings (cs_clock st) (reads (cs_clock st)))"
    and range: "in_int64 (now + Milliseconds (Timeout req))"
    and held: "content (cs_l2 st2) (Key_Value k) \<noteq> None"
      "list_all (\<lambda>x. content (cs_l2 st2) (Key_Value x) \<in> {None, content (cs_l2 st1) (Key_Value x)}) (k # ks)"
    and absent: "list_all (\<lambda>x. lcontent (cs_l1 st2) (Key_Value x) = None) (k # ks)"
    and read: "fst (Store_Get (ic_store here) c' (Key_Value k) (cs_l2 st2)) = Inr v"
    and time: "UnixMilli (readings (cs_clock st2) (reads (cs_clock st2) + 2)) < now + Milliseconds (Timeout req)"
  shows "\<exists>st3. enrichOpen e' c' req' st2 =
    (Return (Inr (emptyResult\<lparr>Result_Outcome := OutcomeInProgress, Result_CacheLayer := CacheLayerL2\<rparr>)),
     [EnrichRequest (PartnerID req'), CacheLookup (PartnerID req') CacheLookupMiss CacheLayerL2,
      NotEnriched (PartnerID req') ReasonInProgress], st3)"
proof -
  have auction: "Auction req' \<noteq> None"
    using keys by (rule_tac notI) (simp add: extractCacheKeys_def)
  have job: "rj_cacheKeys (newResolutionJob e req (k # ks)) = k # ks"
    "rj_timeout (newResolutionJob e req (k # ks)) = Timeout req"
    by (simp_all add: newResolutionJob_def case_prod_beta)
  have put: "PutInProgress here c (k # ks) (Timeout req) st = (None, st1)"
    using mark ops job
    by (auto simp: markInProgress_def identityCacheOps_def hasCacheKeys_def split: prod.splits option.splits)
  have "distinct (map Key_Value (k # ks))" using extractCacheKeys_distinct keys by metis
  from PutInProgress_then_Get [OF l2 there l1 this ttl put now range held absent read time]
  have "fst (Get there c' (k # ks) st2) = Inr (inProgressResult (Key_Type k) CacheLayerL2)" by blast
  then obtain st4 where g: "Get there c' (k # ks) st2 = (Inr (inProgressResult (Key_Type k) CacheLayerL2), st4)"
    by (metis surjective_pairing)
  have "cacheKeysFor e' req' plan = Inr (k # ks)" using ops' enabled keys by (simp add: cacheKeysFor_def)
  with valid auction ops' g show ?thesis
    by (auto simp: enrichOpen_def lookupCache_def identityCacheOps_def inProgressResult_def)
qed

section \<open>Concrete calls\<close>

definition sampleEnricher :: "(bytes \<Rightarrow> bytes option, string \<Rightarrow> bytes option) cacheState enricher" where
  "sampleEnricher = \<lparr>e_cache = Some (identityCacheOps sampleCache), e_maxCacheKeys = 0, e_limiterCap = 0,
     e_unicode = asciiCase, e_order = id, e_codec = referenceCodec\<rparr>"

definition syncRequest :: Request where
  "syncRequest = asyncRequest\<lparr>WaitTimeout := None\<rparr>"

definition syncPlan :: executionPlan where
  "syncPlan = \<lparr>plan_mode = WaitModeSync, plan_wait = time_Second\<rparr>"

definition userKey :: CacheKey where
  "userKey = \<lparr>Key_Value = ''iiq:u1'', Key_Type = CacheKeyThirdParty\<rparr>"

definition sampleResponse :: Response where
  "sampleResponse = emptyResponse\<lparr>Resp_ResolvedEIDs := Some [sampleEID], Resp_Status := 200\<rparr>"

lemma sample_planning:
  "notBlank (Endpoint syncRequest)" "executionPlanFor sampleEnricher syncRequest = Inr syncPlan"
  "extractCacheKeys (e_unicode sampleEnricher) (Auction syncRequest) (e_maxCacheKeys sampleEnricher) = [userKey]"
  "cacheKeysFor sampleEnricher syncRequest syncPlan = Inr [userKey]" "Auction syncRequest \<noteq> None"
  "CacheEnabled syncRequest" "e_cache sampleEnricher = Some (identityCacheOps sampleCache)"
proof -
  have "notBlank ''h''" by (rule notBlank_visible) (simp add: isVisible_def)
  then show "notBlank (Endpoint syncRequest)" by (simp add: syncRequest_def asyncRequest_def)
  show k: "extractCacheKeys (e_unicode sampleEnricher) (Auction syncRequest) (e_maxCacheKeys sampleEnricher) = [userKey]"
    using asyncKeys by (simp add: sampleEnricher_def syncRequest_def userKey_def)
  show c: "CacheEnabled syncRequest" "e_cache sampleEnricher = Some (identityCacheOps sampleCache)"
    "Auction syncRequest \<noteq> None"
    by (simp_all add: syncRequest_def asyncRequest_def sampleEnricher_def)
  then show "cacheKeysFor sampleEnricher syncRequest syncPlan = Inr [userKey]"
    using k by (simp add: cacheKeysFor_def)
  show "executionPlanFor sampleEnricher syncRequest = Inr syncPlan"
    by (simp add: executionPlanFor_def syncRequest_def asyncRequest_def normalizeWaitTimeout_def time_Second_def
        syncPlan_def)
qed

lemma sample_miss: "\<exists>st. Get sampleCache Background [userKey] emptyState = (Inr missResult, st)"
  by (auto simp: Get_def sampleCache_def emptyState_def localGet_def mapL1_def mapL2_def getFromStore_def tick_def
      Now_def Let_def decode_def stillClock_def)

lemma sample_first_call:
  "\<exists>r evs st. enrichSync sampleEnricher (\<lambda>_ _ _. Inr sampleResponse) 0 0 Background syncRequest emptyState =
     Some (Inr r, evs, st) \<and> Result_Outcome r = OutcomeEnriched \<and> \<not> FromCache r \<and> Result_EIDs r = [sampleEID] \<and>
     Result_CacheTTL r = 0 \<and> result_ok referenceCodec r"
proof -
  obtain st2 where g: "Get sampleCache Background [userKey] emptyState = (Inr missResult, st2)"
    using sample_miss by blast
  let ?job = "newResolutionJob sampleEnricher syncRequest [userKey]"
  have "\<exists>evs. enrichOpen sampleEnricher Background syncRequest emptyState = (Schedule syncPlan ?job, evs, st2)"
    using g sample_planning
    by (auto simp: enrichOpen_def lookupCache_def identityCacheOps_def missResult_def)
  then obtain evs where o: "enrichOpen sampleEnricher Background syncRequest emptyState =
      (Schedule syncPlan ?job, evs, st2)" by blast
  obtain evs1 st3 where m: "markInProgress sampleEnricher Background ?job st2 = (evs1, st3)" by force
  have out: "resolutionOutcome sampleEnricher sampleResponse = OutcomeEnriched"
    by (simp add: resolutionOutcome_def responseEIDs_def Response_EIDs_def sampleResponse_def emptyResponse_def)
  obtain evs2 r where res: "resolve sampleEnricher ?job (Inr sampleResponse) 0 = (evs2, Inr r)"
      "Result_Outcome r = OutcomeEnriched" "\<not> FromCache r"
    and full: "Result_EIDs r = responseEIDs sampleEnricher sampleResponse \<and> Result_CacheTTL r = Response_TTL sampleResponse \<and>
      Result_ABTestUUID r = Resp_ABTestUUID sampleResponse \<and> Result_TerminationCause r = Resp_TC sampleResponse"
    using resolve_success [of sampleEnricher ?job sampleResponse 0] out
    by (auto simp: sampleResponse_def emptyResponse_def)
  obtain evs3 st4 where st: "storeResult sampleEnricher 0 Background ?job r st3 = (evs3, st4)" by force
  have "enrichSync sampleEnricher (\<lambda>_ _ _. Inr sampleResponse) 0 0 Background syncRequest emptyState =
      Some (Inr r, evs @ evs1 @ evs2 @ evs3, st4)"
    using o m res(1) st by (simp add: enrichSync_def runBounded_def syncPlan_def)
  moreover have "Result_EIDs r = [sampleEID]" "Result_CacheTTL r = 0" "result_ok referenceCodec r"
    using full by (simp_all add: responseEIDs_def Response_EIDs_def Response_TTL_def sampleResponse_def
        emptyResponse_def result_ok_def sampleEID_ok)
  ultimately show ?thesis using res by blast
qed

lemma sample_clock:
  assumes "0 < ttl" "ttl < 2 ^ 62"
  shows "clock_from (cs_clock emptyState) ttl"
proof -
  have "0 \<le> ttl" using assms(1) by simp
  then have "Milliseconds ttl * time_Millisecond \<le> ttl" "0 \<le> Milliseconds ttl"
    by (rule Milliseconds_le, rule Milliseconds_nonneg)
  with assms show ?thesis
    by (simp add: clock_from_def emptyState_def stillClock_def UnixMilli_def in_int64_def time_Millisecond_def)
qed

text \<open>
  The second call comes 29 minutes after the first, on a host whose S2S API has gone; the entry
  lives for 30 minutes.
\<close>

theorem enrich_then_cached_witness:
  "\<exists>st1 r st3. enrichSync sampleEnricher (\<lambda>_ _ _. Inl Canceled) 0 0 Background syncRequest
       (st1\<lparr>cs_clock := stillClock 1740000000000\<rparr>) =
     Some (Inr r, [EnrichRequest ''p'', CacheLookup ''p'' CacheLookupHit CacheLayerL1, Enriched ''p''], st3) \<and>
     Result_EIDs r = [sampleEID] \<and> FromCache r"
proof -
  obtain r evs st where c: "enrichSync sampleEnricher (\<lambda>_ _ _. Inr sampleResponse) 0 0 Background syncRequest emptyState =
      Some (Inr r, evs, st)" "Result_Outcome r = OutcomeEnriched" "\<not> FromCache r" "Result_EIDs r = [sampleEID]"
      "Result_CacheTTL r = 0" "result_ok referenceCodec r"
    using sample_first_call by blast
  let ?st2 = "st\<lparr>cs_clock := stillClock 1740000000000\<rparr>"
  have ok: "result_ok (ic_codec sampleCache) r" using c(6) by (simp add: sampleCache_def)
  have ttl: "1800000000000 = EffectiveTTL (ic_policy sampleCache) (Key_Type userKey) (Result_CacheTTL r)"
    using c(5) by (simp add: sampleCache_def samplePolicy userKey_def EffectiveTTL_def)
  have fit: "entry_fits (ic_codec sampleCache) (\<lambda>k v. True) (Key_Value userKey) r 1800000000000"
    by (simp add: entry_fits_def)
  have clock: "clock_from (cs_clock emptyState) 1800000000000" by (rule sample_clock) simp_all
  obtain sb cw err where "PutResolved sampleCache cw [userKey] r sb = (err, st)"
    by (rule enrichSync_resolved [OF sample_planning(7,6,3) c(1-3)]) blast
  moreover obtain b where b: "encode (ic_codec sampleCache) (fst (resolved r 1800000000000 (cs_clock sb))) = Some b"
    using decodeEntry_encode [OF result_ok_entry [OF ok]] by metis
  have keep: "f x \<noteq> None \<Longrightarrow> fcSet (ic_local sampleCache) k v t f x \<noteq> None" for k v t f x
    by (simp add: sampleCache_def mapL1_def)
  note first_key_written [OF sampleCache_layers(1) keep ttl b TrueI, of cw "[]"]
  ultimately have held: "cs_l1 ?st2 (Key_Value userKey) \<noteq> None" by (simp del: PutResolved.simps)
  have time: "UnixMilli (readings (cs_clock ?st2) (reads (cs_clock ?st2))) <
      UnixMilli (readings (cs_clock emptyState) (reads (cs_clock emptyState))) + Milliseconds 1800000000000"
    by (simp add: emptyState_def stillClock_def UnixMilli_def Milliseconds_def time_Millisecond_def)
  from enrich_then_cached [OF sample_planning(7,6,3) sampleCache_layers(1) c(1-3) ok ttl fit clock _ held time,
      of "\<lambda>_ _ _. Inl Canceled" 0 0 Background]
  obtain st3 where "enrichSync sampleEnricher (\<lambda>_ _ _. Inl Canceled) 0 0 Background syncRequest ?st2 =
    Some (Inr (r\<lparr>Result_CacheTTL := 0, Result_CacheLayer := CacheLayerL1\<rparr>),
      [EnrichRequest ''p'', CacheLookup ''p'' CacheLookupHit CacheLayerL1, Enriched ''p''], st3)"
    by (auto simp: syncRequest_def asyncRequest_def)
  with c(4) show ?thesis
    by (intro exI [of _ st] exI [of _ "r\<lparr>Result_CacheTTL := 0, Result_CacheLayer := CacheLayerL1\<rparr>"] exI [of _ st3])
       (simp add: FromCache_def)
qed

text \<open>Half a second after a job of one second was marked, a host with an empty L1 gets the same request.\<close>

theorem enrich_coalesces_witness:
  "\<exists>st1 st3. markInProgress sampleEnricher Background
      (newResolutionJob sampleEnricher syncRequest [userKey]) emptyState = ([], st1) \<and>
    enrichOpen sampleEnricher Background syncRequest
      (emptyState\<lparr>cs_l2 := cs_l2 st1, cs_clock := stillClock 500000000\<rparr>) =
     (Return (Inr (emptyResult\<lparr>Result_Outcome := OutcomeInProgress, Result_CacheLayer := CacheLayerL2\<rparr>)),
      [EnrichRequest ''p'', CacheLookup ''p'' CacheLookupMiss CacheLayerL2, NotEnriched ''p'' ReasonInProgress], st3)"
proof -
  have "fst (Store_Put (ic_store sampleCache) c k v t s) = None"
    "snd (Store_Put (ic_store sampleCache) c k v t s) = s(k \<mapsto> v)" for c k v t s
    by (simp_all add: sampleCache_def mapL2_def)
  from putInProgressLoop_stores [of sampleCache "\<lambda>s. s", OF this, of Background time_Second "[userKey]" emptyState]
  obtain st1 where p: "PutInProgress sampleCache Background [userKey] time_Second emptyState = (None, st1)"
    and "dom (cs_l2 st1) = Key_Value ` set [userKey] \<union> dom (cs_l2 emptyState)"
    unfolding PutInProgress_def by blast
  then have l2: "cs_l2 st1 (Key_Value userKey) \<noteq> None" by auto
  have m: "markInProgress sampleEnricher Background
      (newResolutionJob sampleEnricher syncRequest [userKey]) emptyState = ([], st1)"
    using p sample_planning(7)
    by (simp add: markInProgress_def hasCacheKeys_def newResolutionJob_def case_prod_beta identityCacheOps_def
        syncRequest_def asyncRequest_def)
  let ?st2 = "emptyState\<lparr>cs_l2 := cs_l2 st1, cs_clock := stillClock 500000000\<rparr>"
  have read: "fst (Store_Get (ic_store sampleCache) Background (Key_Value userKey) (cs_l2 ?st2)) =
      Inr (case cs_l2 ?st2 (Key_Value userKey) of None \<Rightarrow> [] | Some b \<Rightarrow> b)"
    by (simp add: sampleCache_def mapL2_def)
  have "Timeout syncRequest = time_Second" "PartnerID syncRequest = ''p''"
    by (simp_all add: syncRequest_def asyncRequest_def)
  with enrich_coalesces [OF sample_planning(7,7,6) refl refl sample_planning(3,1,2) sampleCache_layers(4,2) m _ refl _ _ _ _ read] l2
  have "\<exists>st3. enrichOpen sampleEnricher Background syncRequest ?st2 =
     (Return (Inr (emptyResult\<lparr>Result_Outcome := OutcomeInProgress, Result_CacheLayer := CacheLayerL2\<rparr>)),
      [EnrichRequest ''p'', CacheLookup ''p'' CacheLookupMiss CacheLayerL2, NotEnriched ''p'' ReasonInProgress], st3)"
    by (simp add: emptyState_def stillClock_def UnixMilli_def Milliseconds_def time_Millisecond_def time_Second_def in_int64_def)
  with m show ?thesis by blast
qed


theorem runBounded_branches_witness:
  "\<exists>st. \<exists>evs. runBounded sampleEnricher 0 Background
      (newResolutionJob sampleEnricher syncRequest [userKey]) (Inl Canceled) 0 emptyState = (Inl Canceled, evs, st) \<and>
    st = emptyState"
proof -
  let ?job = "newResolutionJob sampleEnricher syncRequest [userKey]"
  obtain r evs st where b: "runBounded sampleEnricher 0 Background ?job (Inl Canceled) 0 emptyState = (r, evs, st)"
    by (metis prod_cases3)
  have "rj_cacheKeys ?job \<noteq> []" by (simp add: newResolutionJob_def case_prod_beta)
  from runBounded_branches [OF sample_planning(7) this b] b show ?thesis by auto
qed

end
